(* ===== verification/Prelude.thy ===== *)
theory Prelude
  imports Main "HOL-Library.Word"
begin

text \<open>
  The vocabulary that every component shares: C strings and fixed-size buffers,
  the limits and status codes of \<^verbatim>\<open>common.h\<close>, and the generic lemmas on lists
  that the component theories use.

  A C string held in a \<^verbatim>\<open>char[]\<close> is the list of its characters before the
  terminating NUL; a file or a socket stream is a list of arbitrary bytes, NUL included.
  A C \<^verbatim>\<open>int\<close> whose overflow plays no role is an \<^typ>\<open>int\<close>.
\<close>

named_theorems buffer_simps "lengths and contents of fixed-size buffers"
named_theorems store_simps "reading a file system after an operation on it"
named_theorems step_intros "introduction rules for state invariants"

section \<open>Limits and status codes\<close>

abbreviation MAX_FILENAME :: nat where "MAX_FILENAME \<equiv> 256"
abbreviation MAX_USERNAME :: nat where "MAX_USERNAME \<equiv> 64"
abbreviation MAX_PATH :: nat where "MAX_PATH \<equiv> 512"
abbreviation MAX_BUFFER :: nat where "MAX_BUFFER \<equiv> 8192"
abbreviation MAX_WORD :: nat where "MAX_WORD \<equiv> 128"
abbreviation MAX_FILES :: nat where "MAX_FILES \<equiv> 10000"
abbreviation MAX_CLIENTS :: nat where "MAX_CLIENTS \<equiv> 100"
abbreviation MAX_SS :: nat where "MAX_SS \<equiv> 50"
abbreviation MAX_ACL_ENTRIES :: nat where "MAX_ACL_ENTRIES \<equiv> 100"
abbreviation CACHE_SIZE :: nat where "CACHE_SIZE \<equiv> 100"
abbreviation INET_ADDRSTRLEN :: nat where "INET_ADDRSTRLEN \<equiv> 16"

abbreviation SUCCESS :: int where "SUCCESS \<equiv> 200"
abbreviation ERR_FILE_NOT_FOUND :: int where "ERR_FILE_NOT_FOUND \<equiv> 404"
abbreviation ERR_ACCESS_DENIED :: int where "ERR_ACCESS_DENIED \<equiv> 403"
abbreviation ERR_SENTENCE_LOCKED :: int where "ERR_SENTENCE_LOCKED \<equiv> 423"
abbreviation ERR_INVALID_INDEX :: int where "ERR_INVALID_INDEX \<equiv> 400"
abbreviation ERR_FILE_EXISTS :: int where "ERR_FILE_EXISTS \<equiv> 409"
abbreviation ERR_SS_UNAVAILABLE :: int where "ERR_SS_UNAVAILABLE \<equiv> 503"
abbreviation ERR_INVALID_OPERATION :: int where "ERR_INVALID_OPERATION \<equiv> 405"
abbreviation ERR_SERVER_ERROR :: int where "ERR_SERVER_ERROR \<equiv> 500"
abbreviation ERR_NOT_OWNER :: int where "ERR_NOT_OWNER \<equiv> 401"
abbreviation ERR_USER_NOT_FOUND :: int where "ERR_USER_NOT_FOUND \<equiv> 406"
abbreviation ERR_FILE_LOCKED :: int where "ERR_FILE_LOCKED \<equiv> 424"

section \<open>C strings and buffers\<close>

abbreviation NUL :: char where "NUL \<equiv> CHR 0x00"
abbreviation TAB :: char where "TAB \<equiv> CHR 0x09"
abbreviation NEWLINE :: char where "NEWLINE \<equiv> CHR 0x0A"
abbreviation CR :: char where "CR \<equiv> CHR 0x0D"
abbreviation SPACE :: char where "SPACE \<equiv> CHR 0x20"

text \<open>What a C string function sees of a byte sequence: everything up to the first NUL.\<close>

definition c_str :: "string \<Rightarrow> string" where
  "c_str s = takeWhile (\<lambda>c. c \<noteq> NUL) s"

text \<open>
  \<^verbatim>\<open>strncpy(dst, src, n - 1); dst[n - 1] = 0\<close> and
  \<^verbatim>\<open>snprintf(dst, n, "%s", src)\<close> both leave the first \<^verbatim>\<open>n - 1\<close> characters.
\<close>

definition c_copy :: "nat \<Rightarrow> string \<Rightarrow> string" where
  "c_copy n s = take (n - 1) s"

lemma c_copy_length [buffer_simps]: "length (c_copy n s) \<le> n - 1"
  by (simp add: c_copy_def)

lemma c_copy_fits [buffer_simps]: "length s < n \<Longrightarrow> c_copy n s = s"
  by (simp add: c_copy_def)

lemma c_str_no_nul [buffer_simps]: "NUL \<notin> set s \<Longrightarrow> c_str s = s"
  unfolding c_str_def by (induction s) auto

lemma c_str_nul_free [simp]: "NUL \<notin> set (c_str s)"
  unfolding c_str_def by (auto dest: set_takeWhileD)

section \<open>Lists\<close>

text \<open>Removing one array slot by shifting the rest down.\<close>

definition remove_at :: "nat \<Rightarrow> 'a list \<Rightarrow> 'a list" where
  "remove_at i xs = take i xs @ drop (Suc i) xs"

lemma length_remove_at [simp]: "i < length xs \<Longrightarrow> length (remove_at i xs) = length xs - 1"
  by (simp add: remove_at_def)

lemma set_remove_at: "set (remove_at i xs) \<subseteq> set xs"
  unfolding remove_at_def by (auto dest: in_set_takeD in_set_dropD)

lemma nth_remove_at:
  "i < length xs \<Longrightarrow> j < length xs - 1 \<Longrightarrow>
   remove_at i xs ! j = (if j < i then xs ! j else xs ! Suc j)"
  by (auto simp: remove_at_def nth_append)

lemma in_set_tlD: "x \<in> set (tl xs) \<Longrightarrow> x \<in> set xs"
  by (cases xs) auto

text \<open>The first index at which a predicate holds: a \<^verbatim>\<open>for\<close> loop with a break.\<close>

fun find_index :: "('a \<Rightarrow> bool) \<Rightarrow> 'a list \<Rightarrow> nat option" where
  "find_index P [] = None"
| "find_index P (x # xs) = (if P x then Some 0 else map_option Suc (find_index P xs))"

lemma find_index_None: "find_index P xs = None \<longleftrightarrow> (\<forall>x \<in> set xs. \<not> P x)"
  by (induction xs) auto

lemma find_index_SomeD:
  "find_index P xs = Some i \<Longrightarrow> i < length xs \<and> P (xs ! i) \<and> (\<forall>j < i. \<not> P (xs ! j))"
proof (induction xs arbitrary: i)
  case Nil
  then show ?case by simp
next
  case (Cons x xs)
  show ?case
  proof (cases "P x")
    case True
    with Cons.prems show ?thesis by simp
  next
    case False
    with Cons.prems obtain k where k: "find_index P xs = Some k" "i = Suc k"
      by auto
    from Cons.IH [OF k(1)] k(2) False show ?thesis
      by (auto simp: less_Suc_eq_0_disj)
  qed
qed

lemma find_index_append:
  "find_index P (xs @ ys) =
   (case find_index P xs of Some i \<Rightarrow> Some i | None \<Rightarrow> map_option ((+) (length xs)) (find_index P ys))"
proof (induction xs)
  case Nil
  show ?case by (cases "find_index P ys") auto
next
  case (Cons x xs)
  then show ?case by (cases "find_index P xs"; cases "find_index P ys") auto
qed

end
