(* ===== verification/MetadataMap.thy ===== *)
theory MetadataMap
  imports Prelude
begin

text \<open>
  The interface through which the name server reaches its two tries: a partial map from
  names to records. \<^verbatim>\<open>name_map\<close> is what the folder trie offers, \<^verbatim>\<open>metadata_map\<close> adds the
  in-place update of the file trie. The laws say what a lookup returns after each
  operation; the client lemmas reduce any sequence of operations to the same sequence on
  \<^typ>\<open>string \<Rightarrow> 'v option\<close>.
\<close>

datatype 'v map_request = Put string 'v | Change string 'v | Drop string

fun spec_request :: "(string \<Rightarrow> bool) \<Rightarrow> 'v map_request \<Rightarrow> (string \<Rightarrow> 'v option) \<Rightarrow> (string \<Rightarrow> 'v option)" where
  "spec_request ok (Put k v) f = (if ok k then f(k := Some v) else f)"
| "spec_request ok (Change k v) f = (if f k = None then f else f(k := Some v))"
| "spec_request ok (Drop k) f = f(k := None)"

locale name_map =
  fixes empty :: "'m"
    and insert :: "'m \<Rightarrow> string \<Rightarrow> 'v \<Rightarrow> 'm \<times> int"
    and delete :: "'m \<Rightarrow> string \<Rightarrow> 'm \<times> int"
    and lookup :: "'m \<Rightarrow> string \<Rightarrow> 'v option"
    and valid :: "string \<Rightarrow> bool"
  assumes lookup_empty: "lookup empty k = None"
    and lookup_insert:
      "lookup (fst (insert m k v)) k' = (if valid k \<and> k' = k then Some v else lookup m k')"
    and status_insert: "snd (insert m k v) = (if valid k then 0 else - 1)"
    and lookup_delete: "lookup (fst (delete m k)) k' = (if k' = k then None else lookup m k')"
begin

lemmas name_map_laws = lookup_empty lookup_insert status_insert lookup_delete

lemma insert_then_lookup: "snd (insert m k v) = 0 \<longleftrightarrow> lookup (fst (insert m k v)) k = Some v \<and> valid k"
  by (simp add: name_map_laws)

lemma insert_fun: "lookup (fst (insert m k v)) = (if valid k then (lookup m)(k := Some v) else lookup m)"
  by (simp add: fun_eq_iff lookup_insert)

lemma delete_fun: "lookup (fst (delete m k)) = (lookup m)(k := None)"
  by (simp add: fun_eq_iff lookup_delete)

lemma delete_undoes_insert:
  "lookup m k = None \<Longrightarrow> lookup (fst (delete (fst (insert m k v)) k)) = lookup m"
  by (auto simp: fun_eq_iff lookup_insert lookup_delete)

lemma inserts_disjoint_commute:
  "k \<noteq> k' \<Longrightarrow> lookup (fst (insert (fst (insert m k v)) k' v')) =
              lookup (fst (insert (fst (insert m k' v')) k v))"
  by (auto simp: fun_eq_iff lookup_insert)

end

locale metadata_map = name_map +
  fixes update :: "'m \<Rightarrow> string \<Rightarrow> 'v \<Rightarrow> 'm \<times> int"
  assumes lookup_update:
      "lookup (fst (update m k v)) k' = (if k' = k \<and> lookup m k \<noteq> None then Some v else lookup m k')"
    and status_update: "snd (update m k v) = (if lookup m k = None then - 1 else 0)"
begin

lemma update_fun:
  "lookup (fst (update m k v)) = (if lookup m k = None then lookup m else (lookup m)(k := Some v))"
  by (simp add: fun_eq_iff lookup_update)

lemma update_dom: "dom (lookup (fst (update m k v))) = dom (lookup m)"
  by (auto simp: update_fun)

lemma request_refines:
  "lookup (case r of Put k v \<Rightarrow> fst (insert m k v) | Change k v \<Rightarrow> fst (update m k v)
                   | Drop k \<Rightarrow> fst (delete m k)) = spec_request valid r (lookup m)"
  by (cases r) (simp_all add: insert_fun update_fun delete_fun)

lemma history_refines:
  assumes step: "\<And>r m. step r m = (case r of Put k v \<Rightarrow> fst (insert m k v)
                   | Change k v \<Rightarrow> fst (update m k v) | Drop k \<Rightarrow> fst (delete m k))"
  shows "lookup (fold step rs m) = fold (spec_request valid) rs (lookup m)"
proof (induction rs arbitrary: m)
  case Nil
  then show ?case by simp
next
  case (Cons r rs)
  then show ?case by (simp add: step request_refines)
qed

end

end
