(* ===== verification/TrieMap.thy ===== *)
theory TrieMap
  imports MetadataMap
begin

text \<open>
  The metadata tries of the name server (\<^verbatim>\<open>trie.c\<close>, \<^verbatim>\<open>trie.h\<close>): one node per character of
  a file or folder name, 128 child slots, an end-of-word flag and a metadata pointer. The
  read-write lock makes every operation atomic, so each is a function from the root to the
  root and its return value. File and folder tries share the node type; only the stored
  record differs, which is the type parameter.
\<close>

section \<open>Nodes and operations\<close>

abbreviation ALPHABET_SIZE :: nat where "ALPHABET_SIZE \<equiv> 128"

text \<open>The indices of the child array, in the order of the \<^verbatim>\<open>for\<close> loops over it.\<close>

definition alphabet :: "nat list" where
  "alphabet = [0..<ALPHABET_SIZE]"

lemma set_alphabet [simp]: "set alphabet = {0..<ALPHABET_SIZE}"
  by (simp only: alphabet_def set_upt)

lemma sorted_alphabet [simp]: "sorted_wrt (<) alphabet"
  by (simp only: alphabet_def sorted_wrt_upt)

datatype 'm trie_node = TrieNode "nat \<Rightarrow> 'm trie_node option" bool "'m option"

definition create_trie_node :: "'m trie_node" where
  "create_trie_node = TrieNode (\<lambda>_. None) False None"

definition init_trie :: "'m trie_node" where
  "init_trie = create_trie_node"

definition init_folder_trie :: "'m trie_node" where
  "init_folder_trie = create_trie_node"

text \<open>\<^verbatim>\<open>(unsigned char)filename[i]\<close>\<close>

definition char_index :: "char \<Rightarrow> nat" where
  "char_index c = of_char c"

text \<open>The nodes created before a character outside the alphabet is met stay in the trie.\<close>

fun trie_insert :: "'m trie_node \<Rightarrow> string \<Rightarrow> 'm \<Rightarrow> 'm trie_node \<times> int" where
  "trie_insert (TrieNode ch e m) [] v = (TrieNode ch True (Some v), 0)"
| "trie_insert (TrieNode ch e m) (c # cs) v =
     (let i = char_index c in
      if i \<ge> ALPHABET_SIZE then (TrieNode ch e m, - 1)
      else let child = (case ch i of None \<Rightarrow> create_trie_node | Some t \<Rightarrow> t);
               (child', r) = trie_insert child cs v
           in (TrieNode (ch(i := Some child')) e m, r))"

fun trie_search :: "'m trie_node \<Rightarrow> string \<Rightarrow> 'm option" where
  "trie_search (TrieNode ch e m) [] = (if e then m else None)"
| "trie_search (TrieNode ch e m) (c # cs) =
     (let i = char_index c in
      if i \<ge> ALPHABET_SIZE then None
      else case ch i of None \<Rightarrow> None | Some t \<Rightarrow> trie_search t cs)"

definition no_children :: "(nat \<Rightarrow> 'm trie_node option) \<Rightarrow> bool" where
  "no_children ch \<longleftrightarrow> list_all (\<lambda>i. ch i = None) alphabet"

text \<open>The second component is the C return value: the caller may free this node.\<close>

fun trie_delete_helper :: "'m trie_node \<Rightarrow> string \<Rightarrow> 'm trie_node \<times> bool" where
  "trie_delete_helper (TrieNode ch e m) [] =
     (if e then (TrieNode ch False None, no_children ch) else (TrieNode ch e m, no_children ch))"
| "trie_delete_helper (TrieNode ch e m) (c # cs) =
     (let i = char_index c in
      if i \<ge> ALPHABET_SIZE then (TrieNode ch e m, False)
      else case ch i of
             None \<Rightarrow> (TrieNode ch e m, False)
           | Some t \<Rightarrow>
               (let (t', should_delete) = trie_delete_helper t cs in
                if should_delete
                then (TrieNode (ch(i := None)) e m, \<not> e \<and> no_children (ch(i := None)))
                else (TrieNode (ch(i := Some t')) e m, False)))"

definition trie_delete :: "'m trie_node \<Rightarrow> string \<Rightarrow> 'm trie_node \<times> int" where
  "trie_delete t k = (fst (trie_delete_helper t k), 0)"

fun trie_update :: "'m trie_node \<Rightarrow> string \<Rightarrow> 'm \<Rightarrow> 'm trie_node \<times> int" where
  "trie_update (TrieNode ch e m) [] v =
     (if e \<and> m \<noteq> None then (TrieNode ch e (Some v), 0) else (TrieNode ch e m, - 1))"
| "trie_update (TrieNode ch e m) (c # cs) v =
     (let i = char_index c in
      if i \<ge> ALPHABET_SIZE then (TrieNode ch e m, - 1)
      else case ch i of
             None \<Rightarrow> (TrieNode ch e m, - 1)
           | Some t \<Rightarrow> (let (t', r) = trie_update t cs v in (TrieNode (ch(i := Some t')) e m, r)))"

text \<open>\<^verbatim>\<open>files\<close> is the prefix of the output array filled so far, \<^verbatim>\<open>*count\<close> its length.\<close>

primrec trie_collect_files :: "'m trie_node \<Rightarrow> nat \<Rightarrow> 'm list \<Rightarrow> 'm list" where
  "trie_collect_files (TrieNode ch e m) = (\<lambda>max_files files.
     if length files \<ge> max_files then files
     else fold (\<lambda>i fs. case map_option trie_collect_files (ch i) of
                         None \<Rightarrow> fs | Some f \<Rightarrow> f max_files fs)
               alphabet
               (if e then (case m of None \<Rightarrow> files | Some v \<Rightarrow> files @ [v]) else files))"

definition trie_get_all_files :: "'m trie_node \<Rightarrow> nat \<Rightarrow> 'm list" where
  "trie_get_all_files t max_files = trie_collect_files t max_files []"

definition folder_trie_insert :: "'m trie_node \<Rightarrow> string \<Rightarrow> 'm \<Rightarrow> 'm trie_node \<times> int" where
  "folder_trie_insert t path v = trie_insert t path v"

definition folder_trie_search :: "'m trie_node \<Rightarrow> string \<Rightarrow> 'm option" where
  "folder_trie_search t path = trie_search t path"

definition folder_trie_delete :: "'m trie_node \<Rightarrow> string \<Rightarrow> 'm trie_node \<times> int" where
  "folder_trie_delete t path = trie_delete t path"

section \<open>The trie is a partial map on ASCII names\<close>

definition ascii_name :: "string \<Rightarrow> bool" where
  "ascii_name k \<longleftrightarrow> list_all (\<lambda>c. char_index c < ALPHABET_SIZE) k"

lemma ascii_name_simps [simp]:
  "ascii_name []"
  "ascii_name (c # cs) \<longleftrightarrow> char_index c < ALPHABET_SIZE \<and> ascii_name cs"
  by (simp_all add: ascii_name_def)

lemma char_index_inj [simp]: "char_index c = char_index d \<longleftrightarrow> c = d"
  by (simp add: char_index_def)

lemma search_create [simp]: "trie_search create_trie_node k = None"
  by (cases k) (auto simp: create_trie_node_def Let_def)

lemma search_non_ascii: "\<not> ascii_name k \<Longrightarrow> trie_search t k = None"
  by (induction t k rule: trie_search.induct) (auto simp: Let_def split: option.splits)

lemma insert_status: "snd (trie_insert t k v) = (if ascii_name k then 0 else - 1)"
  by (induction t k v rule: trie_insert.induct) (auto simp: Let_def case_prod_beta)

lemma search_insert:
  "trie_search (fst (trie_insert t k v)) k' =
   (if ascii_name k \<and> k' = k then Some v else trie_search t k')"
proof (induction t k v arbitrary: k' rule: trie_insert.induct)
  case (1 ch e m v)
  then show ?case by (cases k') (auto simp: Let_def)
next
  case (2 ch e m c cs v)
  then show ?case
    by (cases k') (auto simp: Let_def simp: case_prod_beta split: option.splits)
qed

lemma update_status: "snd (trie_update t k v) = (if trie_search t k = None then - 1 else 0)"
  by (induction t k v rule: trie_update.induct)
     (auto simp: Let_def simp: case_prod_beta split: option.splits)

lemma search_update:
  "trie_search (fst (trie_update t k v)) k' =
   (if k' = k \<and> trie_search t k \<noteq> None then Some v else trie_search t k')"
proof (induction t k v arbitrary: k' rule: trie_update.induct)
  case (1 ch e m v)
  then show ?case by (cases k') (auto simp: Let_def)
next
  case (2 ch e m c cs v)
  then show ?case
    by (cases k') (auto simp: Let_def simp: case_prod_beta split: option.splits)
qed

text \<open>
  A node the helper reports as disposable holds no metadata at any name, so freeing it
  loses nothing.
\<close>

lemma no_children_iff: "no_children ch \<longleftrightarrow> (\<forall>i < ALPHABET_SIZE. ch i = None)"
  by (auto simp: no_children_def list_all_iff)

lemma search_no_children: "no_children ch \<Longrightarrow> \<not> e \<Longrightarrow> trie_search (TrieNode ch e m) k = None"
  by (cases k) (auto simp: Let_def no_children_iff split: option.splits)

lemma disposable_shape:
  "snd (trie_delete_helper t k) \<Longrightarrow>
   \<exists>ch m. fst (trie_delete_helper t k) = TrieNode ch False m \<and> no_children ch"
  by (cases t; cases k) (auto simp: Let_def case_prod_beta split: if_splits option.splits)

lemma disposable_empty:
  "snd (trie_delete_helper t k) \<Longrightarrow> trie_search (fst (trie_delete_helper t k)) k' = None"
  using disposable_shape [of t k] search_no_children [of _ False] by auto

lemma search_delete_helper:
  "trie_search (fst (trie_delete_helper t k)) k' = (if k' = k then None else trie_search t k')"
proof (induction t k arbitrary: k' rule: trie_delete_helper.induct)
  case (1 ch e m)
  then show ?case by (cases k') (auto simp: Let_def)
next
  case (2 ch e m c cs)
  show ?case
  proof (cases "char_index c < ALPHABET_SIZE")
    case False
    then show ?thesis by (cases k') (auto simp: Let_def)
  next
    case small: True
    show ?thesis
    proof (cases "ch (char_index c)")
      case None
      with small show ?thesis by (cases k') (auto simp: Let_def)
    next
      case (Some t)
      note IH = "2" [OF refl _ Some]
      have "trie_search t cs' = None"
        if "snd (trie_delete_helper t cs)" "cs' \<noteq> cs" for cs'
        using IH [of cs'] disposable_empty [OF that(1), of cs'] small that(2) by simp
      then show ?thesis
        using small Some IH by (cases k') (auto simp: Let_def case_prod_beta)
    qed
  qed
qed

lemma search_delete:
  "trie_search (fst (trie_delete t k)) k' = (if k' = k then None else trie_search t k')"
  by (simp add: trie_delete_def search_delete_helper)

section \<open>Listing\<close>

text \<open>All names with their metadata, in the order the listing visits them.\<close>

fun branch_entries :: "nat \<Rightarrow> (string \<times> 'm) list option \<Rightarrow> (string \<times> 'm) list" where
  "branch_entries i None = []"
| "branch_entries i (Some es) = map (\<lambda>(k, v). (char_of i # k, v)) es"

fun node_entry :: "bool \<Rightarrow> 'm option \<Rightarrow> (string \<times> 'm) list" where
  "node_entry True (Some v) = [([], v)]"
| "node_entry e m = []"

primrec trie_entries :: "'m trie_node \<Rightarrow> (string \<times> 'm) list" where
  "trie_entries (TrieNode ch e m) =
     node_entry e m @
     concat (map (\<lambda>i. branch_entries i (map_option trie_entries (ch i))) alphabet)"

lemma in_branch_entries:
  "(k, v) \<in> set (branch_entries i (map_option f x)) \<longleftrightarrow>
   (\<exists>t cs. x = Some t \<and> k = char_of i # cs \<and> (cs, v) \<in> set (f t))"
  by (cases x) auto

lemma in_node_entry: "(k, v) \<in> set (node_entry e m) \<longleftrightarrow> k = [] \<and> e \<and> m = Some v"
  by (cases "(e, m)" rule: node_entry.cases) auto

definition name_less :: "string \<Rightarrow> string \<Rightarrow> bool" where
  "name_less a b \<longleftrightarrow> ord_class.lexordp (map char_index a) (map char_index b)"

lemma name_less_simps [simp]:
  "name_less [] [] = False" "name_less [] (c # cs) = True" "name_less (c # cs) [] = False"
  "name_less (c # cs) (d # ds) \<longleftrightarrow>
     char_index c < char_index d \<or> (c = d \<and> name_less cs ds)"
  by (auto simp: name_less_def)

lemma name_less_irrefl [simp]: "\<not> name_less k k"
  by (induction k) auto

lemma char_index_char_of [simp]: "i < ALPHABET_SIZE \<Longrightarrow> char_index (char_of i) = i"
  by (simp add: char_index_def)

lemma char_of_eq_iff: "i < ALPHABET_SIZE \<Longrightarrow> char_of i = c \<longleftrightarrow> i = char_index c"
  by (metis char_index_char_of char_index_def char_of_char)

lemma trie_node_induct [case_names Node]:
  assumes "\<And>ch e m. (\<And>i t. ch i = Some t \<Longrightarrow> P t) \<Longrightarrow> P (TrieNode ch e m)"
  shows "P t"
proof (induction t)
  case (TrieNode ch e m)
  show ?case
  proof (rule assms)
    fix i t assume "ch i = Some t"
    then have "Some t \<in> range ch" by (metis rangeI)
    then show "P t" by (rule TrieNode) simp
  qed
qed

lemma in_entries_Cons:
  "(c # cs, v) \<in> set (trie_entries (TrieNode ch e m)) \<longleftrightarrow>
   char_index c < ALPHABET_SIZE \<and> (\<exists>t. ch (char_index c) = Some t \<and> (cs, v) \<in> set (trie_entries t))"
proof -
  have "(c # cs, v) \<in> set (trie_entries (TrieNode ch e m)) \<longleftrightarrow>
    (\<exists>i < ALPHABET_SIZE. char_of i = c \<and> (\<exists>t. ch i = Some t \<and> (cs, v) \<in> set (trie_entries t)))"
    by (auto simp: in_branch_entries in_node_entry)
  also have "\<dots> \<longleftrightarrow> char_index c < ALPHABET_SIZE \<and>
      (\<exists>t. ch (char_index c) = Some t \<and> (cs, v) \<in> set (trie_entries t))"
    by (metis char_of_eq_iff)
  finally show ?thesis .
qed

lemma in_entries_Nil: "([], v) \<in> set (trie_entries (TrieNode ch e m)) \<longleftrightarrow> e \<and> m = Some v"
  by (auto simp: in_branch_entries in_node_entry)

lemma entries_search: "(k, v) \<in> set (trie_entries t) \<longleftrightarrow> trie_search t k = Some v"
proof (induction t arbitrary: k v rule: trie_node_induct)
  case (Node ch e m)
  then show ?case
    by (cases k)
       (auto simp: in_entries_Nil in_entries_Cons Let_def simp del: trie_entries.simps
             split: option.splits)
qed

lemma sorted_wrt_concat_map:
  assumes "\<And>i. i \<in> set is \<Longrightarrow> sorted_wrt R (f i)"
    and "\<And>i j x y. i < j \<Longrightarrow> i \<in> set is \<Longrightarrow> j \<in> set is \<Longrightarrow> x \<in> set (f i) \<Longrightarrow> y \<in> set (f j) \<Longrightarrow> R x y"
    and "sorted_wrt (<) is"
  shows "sorted_wrt R (concat (map f is))"
  using assms
proof (induction "is")
  case Nil
  then show ?case by simp
next
  case (Cons i js)
  have "sorted_wrt R (concat (map f js))"
    using Cons.prems by (intro Cons.IH) auto
  moreover have "\<forall>x \<in> set (f i). \<forall>y \<in> set (concat (map f js)). R x y"
    using Cons.prems(2,3) by fastforce
  ultimately show ?case
    using Cons.prems(1) [of i] by (simp add: sorted_wrt_append)
qed

lemma branch_sorted:
  "sorted_wrt name_less (map fst es) \<Longrightarrow> sorted_wrt name_less (map fst (branch_entries i (Some es)))"
  by (simp add: sorted_wrt_map case_prod_beta)

lemma fst_branch: "k \<in> set (map fst (branch_entries i x)) \<Longrightarrow> \<exists>cs. k = char_of i # cs"
  by (cases x) auto

lemma entries_sorted: "sorted_wrt name_less (map fst (trie_entries t))"
proof (induction t rule: trie_node_induct)
  case (Node ch e m)
  let ?f = "\<lambda>i. map fst (branch_entries i (map_option trie_entries (ch i)))"
  have "sorted_wrt name_less (?f i)" for i
    using Node.IH [of i] branch_sorted by (cases "ch i") auto
  moreover have "name_less x y"
    if "i < j" "i \<in> set alphabet" "j \<in> set alphabet" "x \<in> set (?f i)" "y \<in> set (?f j)" for i j x y
    using fst_branch [OF that(4)] fst_branch [OF that(5)] that(1-3) by auto
  ultimately have tail: "sorted_wrt name_less (concat (map ?f alphabet))"
    by (intro sorted_wrt_concat_map) auto
  have "name_less [] x" if "x \<in> set (concat (map ?f alphabet))" for x
    using that fst_branch by fastforce
  with tail show ?case
    by (cases "(e, m)" rule: node_entry.cases) (simp_all add: map_concat comp_def)
qed

lemma sorted_name_less_distinct: "sorted_wrt name_less ks \<Longrightarrow> distinct ks"
  by (induction ks) auto

lemma collect_full: "length files \<ge> n \<Longrightarrow> trie_collect_files t n files = files"
  by (cases t) simp

lemma collect_entries:
  "length files \<le> n \<Longrightarrow> trie_collect_files t n files = take n (files @ map snd (trie_entries t))"
proof (induction t arbitrary: files rule: trie_node_induct)
  case (Node ch e m)
  define g where "g = (\<lambda>i fs. case map_option trie_collect_files (ch i) of
      None \<Rightarrow> fs | Some f \<Rightarrow> f n fs)"
  define es where "es = (\<lambda>i. map snd (branch_entries i (map_option trie_entries (ch i))))"
  have step: "g i (take n fs) = take n (fs @ es i)" for i fs
  proof (cases "ch i")
    case None
    then show ?thesis by (simp add: g_def es_def)
  next
    case (Some t)
    have "trie_collect_files t n (take n fs) = take n (take n fs @ map snd (trie_entries t))"
      by (rule Node.IH [OF Some]) simp
    also have "\<dots> = take n (fs @ map snd (trie_entries t))"
      by (cases "length fs \<le> n") simp_all
    finally show ?thesis using Some by (simp add: g_def es_def case_prod_beta comp_def)
  qed
  have loop: "fold g is (take n fs) = take n (fs @ concat (map es is))" for "is" fs
  proof (induction "is" arbitrary: fs)
    case Nil
    then show ?case by simp
  next
    case (Cons i js)
    then show ?case using step [of i fs] Cons [of "fs @ es i"] by simp
  qed
  show ?case
  proof (cases "n \<le> length files")
    case True
    then show ?thesis using Node.prems by (simp add: collect_full)
  next
    case False
    define fs where "fs = (if e then (case m of None \<Rightarrow> files | Some v \<Rightarrow> files @ [v]) else files)"
    have "fs = take n fs" using False by (auto simp: fs_def split: option.splits)
    then have "trie_collect_files (TrieNode ch e m) n files =
        take n (fs @ concat (map es alphabet))"
      using False loop [of "alphabet" fs] by (simp add: fs_def g_def)
    moreover have "fs = files @ map snd (node_entry e m)"
      by (cases "(e, m)" rule: node_entry.cases) (auto simp: fs_def)
    ultimately show ?thesis
      by (simp add: es_def map_concat comp_def del: trie_collect_files.simps take_append)
  qed
qed

lemma get_all_entries: "trie_get_all_files t n = take n (map snd (trie_entries t))"
  by (simp add: trie_get_all_files_def collect_entries)

section \<open>The tries implement the map interface\<close>

interpretation file_trie: metadata_map init_trie trie_insert trie_delete trie_search ascii_name trie_update
  by unfold_locales
     (simp_all add: init_trie_def search_insert insert_status search_delete search_update
        update_status)

interpretation folder_trie: name_map init_folder_trie folder_trie_insert folder_trie_delete
    folder_trie_search ascii_name
  by unfold_locales
     (simp_all add: init_folder_trie_def folder_trie_insert_def folder_trie_delete_def
        folder_trie_search_def search_insert insert_status search_delete)

lemma search_init: "trie_search init_trie = (\<lambda>_. None)"
  by (simp add: fun_eq_iff file_trie.lookup_empty)

definition trie_request :: "'m map_request \<Rightarrow> 'm trie_node \<Rightarrow> 'm trie_node" where
  "trie_request r t = (case r of Put k v \<Rightarrow> fst (trie_insert t k v)
     | Change k v \<Rightarrow> fst (trie_update t k v) | Drop k \<Rightarrow> fst (trie_delete t k))"

text \<open>
  C1. Any sequence of insertions, updates and deletions on a fresh file trie answers every
  search exactly as the same sequence does on a partial map, where insertions of names
  outside ASCII are dropped and updates of absent names do nothing.
\<close>

theorem trie_refines_map:
  "trie_search (fold trie_request rs init_trie) =
   fold (spec_request ascii_name) rs (\<lambda>_. None)"
  using file_trie.history_refines [of trie_request rs init_trie]
  by (simp add: trie_request_def search_init)

text \<open>
  C15. The listing returns the metadata of the files present, each once, in byte order of
  their names, cut off at the caller's limit: the names form a strictly increasing list
  that contains exactly the names a search finds.
\<close>

theorem listing_complete_sorted:
  "\<exists>ks. sorted_wrt name_less ks \<and> distinct ks \<and> set ks = {k. trie_search t k \<noteq> None} \<and>
        trie_get_all_files t n = take n (map (\<lambda>k. the (trie_search t k)) ks)"
proof (intro exI conjI)
  let ?ks = "map fst (trie_entries t)"
  show "sorted_wrt name_less ?ks" by (rule entries_sorted)
  then show "distinct ?ks" by (rule sorted_name_less_distinct)
  show "set ?ks = {k. trie_search t k \<noteq> None}"
    by (force simp: entries_search [symmetric])
  have "map (\<lambda>k. the (trie_search t k)) ?ks = map snd (trie_entries t)"
    by (auto simp: entries_search)
  then show "trie_get_all_files t n = take n (map (\<lambda>k. the (trie_search t k)) ?ks)"
    by (simp only: get_all_entries)
qed

end
