(* ===== verification/LruList.thy ===== *)
theory LruList
  imports Prelude
begin

text \<open>
  The doubly linked recency list of the cache (\<^verbatim>\<open>remove_node\<close>, \<^verbatim>\<open>add_to_head\<close>,
  \<^verbatim>\<open>move_to_head\<close>, \<^verbatim>\<open>remove_tail\<close> of \<^verbatim>\<open>cache.c\<close>) on an explicit store of nodes, and the
  locale through which the cache uses it: on a chain of distinct nodes the pointer
  operations act as list operations.
\<close>

section \<open>Nodes and pointer operations\<close>

text \<open>Pointers are natural numbers, 0 is \<^verbatim>\<open>NULL\<close>; the copied metadata is the value.\<close>

record 'v cache_node =
  node_key :: string
  node_value :: "'v option"
  node_prev :: nat
  node_next :: nat

type_synonym 'v node_heap = "nat \<Rightarrow> 'v cache_node"

definition set_next :: "'v node_heap \<Rightarrow> nat \<Rightarrow> nat \<Rightarrow> 'v node_heap" where
  "set_next h p q = h(p := (h p)\<lparr>node_next := q\<rparr>)"

definition set_prev :: "'v node_heap \<Rightarrow> nat \<Rightarrow> nat \<Rightarrow> 'v node_heap" where
  "set_prev h p q = h(p := (h p)\<lparr>node_prev := q\<rparr>)"

definition remove_node :: "'v node_heap \<Rightarrow> nat \<Rightarrow> 'v node_heap" where
  "remove_node h node =
     (let h1 = set_next h (node_prev (h node)) (node_next (h node))
      in set_prev h1 (node_next (h1 node)) (node_prev (h1 node)))"

definition add_to_head :: "nat \<Rightarrow> 'v node_heap \<Rightarrow> nat \<Rightarrow> 'v node_heap" where
  "add_to_head hp h node =
     (let h1 = set_next h node (node_next (h hp));
          h2 = set_prev h1 node hp;
          h3 = set_prev h2 (node_next (h2 hp)) node
      in set_next h3 hp node)"

definition move_to_head :: "nat \<Rightarrow> 'v node_heap \<Rightarrow> nat \<Rightarrow> 'v node_heap" where
  "move_to_head hp h node = add_to_head hp (remove_node h node) node"

definition remove_tail :: "nat \<Rightarrow> 'v node_heap \<Rightarrow> 'v node_heap \<times> nat" where
  "remove_tail tp h = (let node = node_prev (h tp) in (remove_node h node, node))"

text \<open>The payload of every node is left alone by all four.\<close>

lemma set_next_fields [simp]:
  "node_key (set_next h p q x) = node_key (h x)"
  "node_value (set_next h p q x) = node_value (h x)"
  "node_prev (set_next h p q x) = node_prev (h x)"
  "node_next (set_next h p q x) = (if x = p then q else node_next (h x))"
  by (simp_all add: set_next_def)

lemma set_prev_fields [simp]:
  "node_key (set_prev h p q x) = node_key (h x)"
  "node_value (set_prev h p q x) = node_value (h x)"
  "node_next (set_prev h p q x) = node_next (h x)"
  "node_prev (set_prev h p q x) = (if x = p then q else node_prev (h x))"
  by (simp_all add: set_prev_def)

lemma list_ops_payload [simp]:
  "node_key (remove_node h n x) = node_key (h x)"
  "node_value (remove_node h n x) = node_value (h x)"
  "node_key (add_to_head hp h n x) = node_key (h x)"
  "node_value (add_to_head hp h n x) = node_value (h x)"
  "node_key (move_to_head hp h n x) = node_key (h x)"
  "node_value (move_to_head hp h n x) = node_value (h x)"
  by (simp_all add: remove_node_def add_to_head_def move_to_head_def Let_def)

section \<open>Chains\<close>

fun linked :: "'v node_heap \<Rightarrow> nat list \<Rightarrow> bool" where
  "linked h (u # v # L) \<longleftrightarrow> node_next (h u) = v \<and> node_prev (h v) = u \<and> linked h (v # L)"
| "linked h L \<longleftrightarrow> True"

lemma linked_append:
  "linked h (as @ u # bs) \<longleftrightarrow> linked h (as @ [u]) \<and> linked h (u # bs)"
  by (induction as rule: induct_list012; cases bs) auto

lemma linked_cong:
  assumes "linked h L"
    and "\<And>u. u \<in> set (butlast L) \<Longrightarrow> node_next (h' u) = node_next (h u)"
    and "\<And>v. v \<in> set (tl L) \<Longrightarrow> node_prev (h' v) = node_prev (h v)"
  shows "linked h' L"
  using assms by (induction h L rule: linked.induct) auto

text \<open>The list between the two sentinels.\<close>

definition chain :: "nat \<Rightarrow> nat \<Rightarrow> 'v node_heap \<Rightarrow> nat list \<Rightarrow> bool" where
  "chain hp tp h xs \<longleftrightarrow> linked h (hp # xs @ [tp]) \<and> distinct (hp # xs @ [tp])"

lemma linked_remove_middle:
  assumes "linked h (as @ u # n # v # bs)" and "distinct (as @ u # n # v # bs)"
  shows "linked (remove_node h n) (as @ u # v # bs)"
proof -
  let ?h = "remove_node h n"
  have n: "node_prev (h n) = u" "node_next (h n) = v"
    using assms(1) linked_append [of h as u "n # v # bs"] by auto
  have left: "linked h (as @ [u])" and right: "linked h (v # bs)"
    using assms(1) linked_append [of h as u "n # v # bs"] by auto
  have uv: "u \<noteq> n" "v \<noteq> n" "u \<noteq> v" using assms(2) by auto
  have nexts: "node_next (?h x) = (if x = u then v else node_next (h x))" for x
    using n uv by (simp add: remove_node_def Let_def)
  have prevs: "node_prev (?h x) = (if x = v then u else node_prev (h x))" for x
    using n uv by (simp add: remove_node_def Let_def)
  have "linked ?h (as @ [u])"
    using left by (rule linked_cong) (use assms(2) in \<open>auto simp: nexts prevs dest: in_set_tlD split: if_splits\<close>)
  moreover have "linked ?h (v # bs)"
    using right by (rule linked_cong)
      (use assms(2) in \<open>auto simp: nexts prevs dest: in_set_butlastD split: if_splits\<close>)
  ultimately show ?thesis
    using linked_append [of ?h as u "v # bs"] by (simp add: nexts prevs)
qed

lemma chain_remove:
  assumes "chain hp tp h (xs @ n # ys)"
  shows "chain hp tp (remove_node h n) (xs @ ys)"
proof -
  obtain as u where as: "hp # xs = as @ [u]" by (metis list.distinct(1) rev_exhaust)
  obtain v bs where bs: "ys @ [tp] = v # bs" by (cases ys) auto
  have whole: "hp # (xs @ n # ys) @ [tp] = as @ u # n # v # bs"
    and rest: "hp # (xs @ ys) @ [tp] = as @ u # v # bs"
    using as bs by (metis append.assoc append_Cons append_Nil)+
  show ?thesis
    using assms linked_remove_middle [of h as u n v bs]
    unfolding chain_def whole rest by auto
qed

lemma chain_add:
  assumes "chain hp tp h xs" and "n \<notin> set (hp # xs @ [tp])"
  shows "chain hp tp (add_to_head hp h n) (n # xs)"
proof -
  obtain w rest where w: "xs @ [tp] = w # rest" by (cases xs) auto
  have l: "linked h (hp # w # rest)" and d: "distinct (hp # w # rest)"
    and n: "n \<notin> set (hp # w # rest)"
    using assms by (auto simp: chain_def w)
  let ?h = "add_to_head hp h n"
  have nexts: "node_next (?h x) = (if x = hp then n else if x = n then w else node_next (h x))" for x
    using l n by (auto simp: add_to_head_def Let_def)
  have prevs: "node_prev (?h x) = (if x = w then n else if x = n then hp else node_prev (h x))" for x
    using l n by (auto simp: add_to_head_def Let_def)
  have "linked h (w # rest)" using l by simp
  then have "linked ?h (w # rest)"
    by (rule linked_cong) (use d n in \<open>auto simp: nexts prevs dest: in_set_butlastD split: if_splits\<close>)
  then have "linked ?h (hp # n # w # rest)"
    using d n by (auto simp: nexts prevs)
  then show ?thesis
    using d n by (auto simp: chain_def w)
qed

lemma chain_tail: "chain hp tp h (xs @ [n]) \<Longrightarrow> node_prev (h tp) = n"
  using linked_append [of h "hp # xs" n "[tp]"] by (simp add: chain_def)

lemma chain_tail_empty: "chain hp tp h [] \<Longrightarrow> node_prev (h tp) = hp"
  by (simp add: chain_def)

lemma chain_payload_update:
  assumes "chain hp tp h xs"
    and "\<And>x. node_next (h' x) = node_next (h x)" and "\<And>x. node_prev (h' x) = node_prev (h x)"
  shows "chain hp tp h' xs"
  using assms by (auto simp: chain_def intro: linked_cong)

section \<open>The recency-list interface\<close>

text \<open>
  What the cache needs of its list: abstraction to the ids from most to least recently
  used, insertion of a fresh id in front, removal of any id, and the last id.
\<close>

locale recency_list =
  fixes order :: "'h \<Rightarrow> nat list \<Rightarrow> bool"
    and push :: "'h \<Rightarrow> nat \<Rightarrow> 'h"
    and unlink :: "'h \<Rightarrow> nat \<Rightarrow> 'h"
    and last_id :: "'h \<Rightarrow> nat"
    and reserved :: "nat set"
  assumes order_distinct: "order h xs \<Longrightarrow> distinct xs \<and> set xs \<inter> reserved = {}"
    and order_push: "order h xs \<Longrightarrow> n \<notin> set xs \<Longrightarrow> n \<notin> reserved \<Longrightarrow> order (push h n) (n # xs)"
    and order_unlink: "order h xs \<Longrightarrow> n \<in> set xs \<Longrightarrow> order (unlink h n) (remove1 n xs)"
    and order_last: "order h xs \<Longrightarrow> xs \<noteq> [] \<Longrightarrow> last_id h = last xs"
begin

lemma order_touch:
  assumes "order h xs" and "n \<in> set xs"
  shows "order (push (unlink h n) n) (n # remove1 n xs)"
  using order_distinct [OF assms(1)] assms
  by (intro order_push order_unlink) auto

lemma touch_same_ids:
  assumes "order h xs" and "n \<in> set xs"
  shows "set (n # remove1 n xs) = set xs" and "length (n # remove1 n xs) = length xs"
  using order_distinct [OF assms(1)] assms(2) length_pos_if_in_set [OF assms(2)]
  by (auto simp: set_remove1_eq length_remove1)

lemma order_drop_last:
  assumes "order h xs" and "xs \<noteq> []"
  shows "order (unlink h (last_id h)) (butlast xs)"
proof -
  have "remove1 (last xs) xs = butlast xs"
    using order_distinct [OF assms(1)] assms(2)
    by (metis append_butlast_last_id distinct_append 
        disjoint_iff list.set_intros(1) remove1_append remove1.simps(2) append_Nil2)
  then show ?thesis
    using order_unlink [OF assms(1), of "last xs"] order_last [OF assms] assms(2) by simp
qed

end

interpretation dll: recency_list "chain hp tp" "add_to_head hp" remove_node
    "\<lambda>h. node_prev (h tp)" "{hp, tp}" for hp tp
proof unfold_locales
  fix h :: "'a node_heap" and xs n
  show "chain hp tp h xs \<Longrightarrow> distinct xs \<and> set xs \<inter> {hp, tp} = {}"
    by (auto simp: chain_def)
  show "chain hp tp h xs \<Longrightarrow> n \<notin> set xs \<Longrightarrow> n \<notin> {hp, tp} \<Longrightarrow> chain hp tp (add_to_head hp h n) (n # xs)"
    by (rule chain_add) auto
  show "chain hp tp (remove_node h n) (remove1 n xs)" if "chain hp tp h xs" "n \<in> set xs"
  proof -
    obtain as bs where xs: "xs = as @ n # bs" using \<open>n \<in> set xs\<close> by (metis split_list)
    then have "n \<notin> set as" using that by (auto simp: chain_def)
    then show ?thesis using that chain_remove [of hp tp h as n bs] by (simp add: xs remove1_append)
  qed
  show "node_prev (h tp) = last xs" if "chain hp tp h xs" "xs \<noteq> []"
    using that chain_tail [of hp tp h "butlast xs" "last xs"] by simp
qed

end
