(* ===== verification/LruCache.thy ===== *)
theory LruCache
  imports LruList "HOL-Library.While_Combinator" "HOL-Library.Multiset"
begin

text \<open>
  The metadata cache of the name server (\<^verbatim>\<open>cache.c\<close>): an open-addressing hash table of
  node pointers beside the recency list of theory \<^verbatim>\<open>LruList\<close>. The mutex makes every
  operation atomic. A loop that circles the table without an exit is a \<^const>\<open>while_option\<close>:
  the result \<^const>\<open>None\<close> means that the call never returns (and keeps the mutex).
\<close>

section \<open>State and operations\<close>

record 'v lru_cache =
  heap :: "'v node_heap"
  brk :: nat
  head_ptr :: nat
  tail_ptr :: nat
  hash_table :: "nat list"
  capacity :: nat
  csize :: int

text \<open>\<^verbatim>\<open>char\<close> is signed on the target, so a byte above 127 is added as a negative number.\<close>

definition hash_step :: "char \<Rightarrow> 32 word \<Rightarrow> 32 word" where
  "hash_step c hash =
     (let b = (of_char c :: int)
      in push_bit 5 hash + hash + word_of_int (if b < 128 then b else b - 256))"

definition hash_string :: "string \<Rightarrow> nat \<Rightarrow> nat" where
  "hash_string str cap = unat (fold hash_step str 5381) mod cap"

definition create_cache_node :: "string \<Rightarrow> 'v \<Rightarrow> 'v cache_node" where
  "create_cache_node key v =
     \<lparr>node_key = c_copy MAX_FILENAME key, node_value = Some v, node_prev = 0, node_next = 0\<rparr>"

definition blank_node :: "'v cache_node" where
  "blank_node = \<lparr>node_key = [], node_value = None, node_prev = 0, node_next = 0\<rparr>"

definition init_cache :: "nat \<Rightarrow> 'v lru_cache" where
  "init_cache cap =
     \<lparr>heap = (\<lambda>_. blank_node)(1 := blank_node\<lparr>node_next := 2\<rparr>, 2 := blank_node\<lparr>node_prev := 1\<rparr>),
      brk = 3, head_ptr = 1, tail_ptr = 2,
      hash_table = replicate cap 0, capacity = cap, csize = 0\<rparr>"

text \<open>\<^verbatim>\<open>while (...) hash = (hash + 1) % capacity\<close>\<close>

definition probe :: "nat \<Rightarrow> (nat \<Rightarrow> bool) \<Rightarrow> nat \<Rightarrow> nat option" where
  "probe cap P h = while_option P (\<lambda>s. (s + 1) mod cap) h"

definition occupied_by_other :: "'v lru_cache \<Rightarrow> string \<Rightarrow> nat \<Rightarrow> bool" where
  "occupied_by_other c key s \<longleftrightarrow>
     hash_table c ! s \<noteq> 0 \<and> node_key (heap c (hash_table c ! s)) \<noteq> key"

definition cache_get :: "'v lru_cache \<Rightarrow> string \<Rightarrow> ('v lru_cache \<times> 'v option) option" where
  "cache_get c key =
     (case probe (capacity c) (occupied_by_other c key) (hash_string key (capacity c)) of
        None \<Rightarrow> None
      | Some s \<Rightarrow>
          (let node = hash_table c ! s in
           if node = 0 then Some (c, None)
           else Some (c\<lparr>heap := move_to_head (head_ptr c) (heap c) node\<rparr>, node_value (heap c node))))"

text \<open>The search of \<^verbatim>\<open>cache_put\<close> does stop after a full circle; the flag records that exit.\<close>

definition put_search :: "'v lru_cache \<Rightarrow> string \<Rightarrow> (nat \<times> bool) option" where
  "put_search c key =
     (let original = hash_string key (capacity c) in
      while_option (\<lambda>(s, circled). \<not> circled \<and> occupied_by_other c key s)
        (\<lambda>(s, circled). let s' = (s + 1) mod capacity c in (s', s' = original))
        (original, False))"

definition evict :: "'v lru_cache \<Rightarrow> 'v lru_cache option" where
  "evict c =
     (let (h, t) = remove_tail (tail_ptr c) (heap c) in
      case probe (capacity c) (\<lambda>s. hash_table c ! s \<noteq> t) (hash_string (node_key (h t)) (capacity c)) of
        None \<Rightarrow> None
      | Some s \<Rightarrow> Some (c\<lparr>heap := h, hash_table := (hash_table c)[s := 0], csize := csize c - 1\<rparr>))"

definition cache_put :: "'v lru_cache \<Rightarrow> string \<Rightarrow> 'v \<Rightarrow> 'v lru_cache option" where
  "cache_put c key v =
     (case put_search c key of
        None \<Rightarrow> None
      | Some (s, circled) \<Rightarrow>
          if \<not> circled \<and> hash_table c ! s \<noteq> 0
          then (let node = hash_table c ! s;
                    h = (heap c)(node := (heap c node)\<lparr>node_value := Some v\<rparr>)
                in Some (c\<lparr>heap := move_to_head (head_ptr c) h node\<rparr>))
          else (let node = brk c;
                    h = (heap c)(node := create_cache_node key v)
                in case probe (capacity c) (\<lambda>s. hash_table c ! s \<noteq> 0) (hash_string key (capacity c)) of
                     None \<Rightarrow> None
                   | Some s \<Rightarrow>
                       (let c' = c\<lparr>heap := add_to_head (head_ptr c) h node, brk := Suc node,
                                   hash_table := (hash_table c)[s := node], csize := csize c + 1\<rparr>
                        in if csize c' > int (capacity c') then evict c' else Some c')))"

definition cache_remove :: "'v lru_cache \<Rightarrow> string \<Rightarrow> 'v lru_cache option" where
  "cache_remove c key =
     (case probe (capacity c) (occupied_by_other c key) (hash_string key (capacity c)) of
        None \<Rightarrow> None
      | Some s \<Rightarrow>
          (let node = hash_table c ! s in
           if node = 0 then Some c
           else Some (c\<lparr>hash_table := (hash_table c)[s := 0], heap := remove_node (heap c) node,
                        csize := csize c - 1\<rparr>)))"

definition cache_clear :: "'v lru_cache \<Rightarrow> 'v lru_cache" where
  "cache_clear c =
     c\<lparr>heap := set_prev (set_next (heap c) (head_ptr c) (tail_ptr c)) (tail_ptr c) (head_ptr c),
       hash_table := replicate (capacity c) 0, csize := 0\<rparr>"

section \<open>Probing\<close>

lemma probe_steps: "h < cap \<Longrightarrow> ((\<lambda>s. (s + 1) mod cap) ^^ k) h = (h + k) mod cap"
  by (induction k) (auto simp: mod_Suc_eq)

lemma probe_unfold:
  "h < cap \<Longrightarrow> probe cap P h =
     (if \<exists>k. \<not> P ((h + k) mod cap) then Some ((h + (LEAST k. \<not> P ((h + k) mod cap))) mod cap) else None)"
  by (simp only: probe_def while_option_def probe_steps)

lemma reach_slot: "h < cap \<Longrightarrow> s < cap \<Longrightarrow> \<exists>k < cap. (h + k) mod cap = (s :: nat)"
proof -
  assume a: "h < cap" "s < cap"
  show ?thesis
  proof (cases "h \<le> s")
    case True
    then show ?thesis using a by (intro exI [of _ "s - h"]) auto
  next
    case False
    then show ?thesis using a by (intro exI [of _ "s + cap - h"]) auto
  qed
qed

lemma probe_None: "h < cap \<Longrightarrow> probe cap P h = None \<longleftrightarrow> (\<forall>s < cap. P s)"
proof -
  assume h: "h < cap"
  have "(\<exists>k. \<not> P ((h + k) mod cap)) \<longleftrightarrow> (\<exists>s < cap. \<not> P s)"
    using h reach_slot [OF h] by (metis mod_less_divisor gr_implies_not0 neq0_conv)
  then show ?thesis using h by (auto simp: probe_unfold)
qed

lemma probe_SomeD:
  assumes "h < cap" and "probe cap P h = Some s"
  obtains k where "s = (h + k) mod cap" "s < cap" "\<not> P s" "\<And>j. j < k \<Longrightarrow> P ((h + j) mod cap)"
proof -
  from assms have ex: "\<exists>k. \<not> P ((h + k) mod cap)" and
    s: "s = (h + (LEAST k. \<not> P ((h + k) mod cap))) mod cap"
    by (auto simp: probe_unfold split: if_splits)
  show thesis
  proof (rule that [of "LEAST k. \<not> P ((h + k) mod cap)"])
    show "s = (h + (LEAST k. \<not> P ((h + k) mod cap))) mod cap" by (rule s)
    show "s < cap" using s assms(1) by simp
    show "\<not> P s" unfolding s by (rule LeastI_ex [OF ex])
    show "P ((h + j) mod cap)" if "j < (LEAST k. \<not> P ((h + k) mod cap))" for j
      using not_less_Least [OF that] by simp
  qed
qed

lemma probe_SomeI:
  assumes "h < cap" and "\<not> P ((h + k) mod cap)" and "\<And>j. j < k \<Longrightarrow> P ((h + j) mod cap)"
  shows "probe cap P h = Some ((h + k) mod cap)"
proof -
  have "(LEAST k. \<not> P ((h + k) mod cap)) = k"
    using assms(2,3) by (intro Least_equality) (auto simp: not_less [symmetric])
  then show ?thesis using assms by (auto simp: probe_unfold)
qed

lemma hash_bound [simp]: "0 < cap \<Longrightarrow> hash_string key cap < cap"
  by (simp add: hash_string_def)

section \<open>The representation invariant\<close>

text \<open>
  \<^verbatim>\<open>cache_rep c xs\<close>: the recency list is \<^verbatim>\<open>xs\<close>, the table holds exactly its nodes, once
  each, and the size field counts them.
\<close>

definition table_nodes :: "nat list \<Rightarrow> nat multiset" where
  "table_nodes t = filter_mset (\<lambda>p. 0 < p) (mset t)"

definition cache_rep :: "'v lru_cache \<Rightarrow> nat list \<Rightarrow> bool" where
  "cache_rep c xs \<longleftrightarrow>
     0 < capacity c \<and> length (hash_table c) = capacity c \<and>
     chain (head_ptr c) (tail_ptr c) (heap c) xs \<and>
     table_nodes (hash_table c) = mset xs \<and>
     csize c = int (length xs) \<and>
     (\<forall>p \<in> insert (head_ptr c) (insert (tail_ptr c) (set xs)). 0 < p \<and> p < brk c) \<and>
     (\<forall>n \<in> set xs. node_value (heap c n) \<noteq> None)"

abbreviation table_pointer :: "'v lru_cache \<Rightarrow> nat \<Rightarrow> nat" where
  "table_pointer c s \<equiv> hash_table c ! s"

lemma in_table_nodes: "n \<in># table_nodes t \<longleftrightarrow> 0 < n \<and> n \<in> set t"
  by (auto simp: table_nodes_def)

lemma size_table_nodes: "size (table_nodes t) = length (filter (\<lambda>p. 0 < p) t)"
  by (simp add: table_nodes_def flip: mset_filter)

lemma length_filter_all: "length (filter P t) = length t \<longleftrightarrow> (\<forall>x \<in> set t. P x)"
  by (metis filter_id_conv length_filter_less less_irrefl)

lemma rep_slot:
  assumes "cache_rep c xs" and "s < capacity c" and "table_pointer c s \<noteq> 0"
  shows "table_pointer c s \<in> set xs"
proof -
  have "s < length (hash_table c)" using assms(1,2) by (simp add: cache_rep_def)
  then have "table_pointer c s \<in># table_nodes (hash_table c)"
    unfolding in_table_nodes using assms(3) by simp
  then show ?thesis using assms(1) by (simp add: cache_rep_def)
qed

lemma rep_node_slot:
  assumes "cache_rep c xs" and "n \<in> set xs"
  obtains s where "s < capacity c" "table_pointer c s = n" "n \<noteq> 0"
proof -
  have "n \<in># table_nodes (hash_table c)"
    using assms by (simp add: cache_rep_def)
  then show thesis using assms(1) that by (auto simp: cache_rep_def in_table_nodes in_set_conv_nth)
qed

lemma rep_count:
  "cache_rep c xs \<Longrightarrow> length (filter (\<lambda>p. 0 < p) (hash_table c)) = length xs"
  by (metis cache_rep_def size_mset size_table_nodes)

lemma rep_table_full_iff:
  assumes "cache_rep c xs"
  shows "(\<forall>s < capacity c. table_pointer c s \<noteq> 0) \<longleftrightarrow> length xs = capacity c"
proof -
  have "length (hash_table c) = capacity c"
    using assms by (simp add: cache_rep_def)
  then have "length xs = capacity c \<longleftrightarrow> (\<forall>x \<in> set (hash_table c). 0 < x)"
    using rep_count [OF assms] length_filter_all by metis
  then show ?thesis
    using \<open>length (hash_table c) = capacity c\<close> by (auto simp: all_set_conv_all_nth)
qed

lemma rep_length_le: "cache_rep c xs \<Longrightarrow> length xs \<le> capacity c"
  using rep_count [of c xs] by (metis cache_rep_def length_filter_le)

lemma table_nodes_replicate [simp]: "table_nodes (replicate n 0) = {#}"
  by (simp add: table_nodes_def filter_mset_eq_mempty_iff)

lemma rep_init: "0 < cap \<Longrightarrow> cache_rep (init_cache cap) []"
  by (auto simp: cache_rep_def init_cache_def chain_def)

lemma table_nodes_insert:
  "s < length t \<Longrightarrow> t ! s = 0 \<Longrightarrow> 0 < n \<Longrightarrow> table_nodes (t[s := n]) = add_mset n (table_nodes t)"
  by (simp add: table_nodes_def mset_update)

lemma table_nodes_clear:
  "s < length t \<Longrightarrow> table_nodes (t[s := 0]) = table_nodes t - {#t ! s#}"
  by (auto simp: table_nodes_def mset_update)

lemma rep_touch:
  assumes "cache_rep c xs" and "n \<in> set xs"
  shows "cache_rep (c\<lparr>heap := move_to_head (head_ptr c) (heap c) n\<rparr>) (n # remove1 n xs)"
proof -
  have ch: "chain (head_ptr c) (tail_ptr c) (heap c) xs"
    using assms(1) by (simp add: cache_rep_def)
  show ?thesis
    using assms dll.order_touch [OF ch assms(2)] dll.touch_same_ids [OF ch assms(2)]
    by (simp add: cache_rep_def move_to_head_def flip: set_mset_mset)
qed

lemma rep_set_value:
  assumes "cache_rep c xs" and "n \<in> set xs"
  shows "cache_rep (c\<lparr>heap := (heap c)(n := (heap c n)\<lparr>node_value := Some v\<rparr>)\<rparr>) xs"
  using assms by (auto simp: cache_rep_def intro: chain_payload_update)

lemma rep_drop:
  assumes "cache_rep c xs" and "s < capacity c" and "table_pointer c s \<noteq> 0"
  shows "cache_rep (c\<lparr>hash_table := (hash_table c)[s := 0],
           heap := remove_node (heap c) (table_pointer c s), csize := csize c - 1\<rparr>)
         (remove1 (table_pointer c s) xs)"
proof -
  let ?n = "table_pointer c s"
  have n: "?n \<in> set xs" by (rule rep_slot [OF assms])
  have ch: "chain (head_ptr c) (tail_ptr c) (heap c) xs"
    using assms(1) by (simp add: cache_rep_def)
  have "int (length (remove1 ?n xs)) = csize c - 1"
    using assms(1) n length_pos_if_in_set [OF n]
    by (simp add: cache_rep_def length_remove1 of_nat_diff Suc_leI)
  then show ?thesis
    using assms(1,2) dll.order_unlink [OF ch n]
    by (auto simp: cache_rep_def table_nodes_clear dest: notin_set_remove1)
qed

lemma rep_insert:
  assumes "cache_rep c xs" and "s < capacity c" and "table_pointer c s = 0"
  shows "cache_rep (c\<lparr>heap := add_to_head (head_ptr c) ((heap c)(brk c := create_cache_node key v)) (brk c),
           brk := Suc (brk c), hash_table := (hash_table c)[s := brk c], csize := csize c + 1\<rparr>)
         (brk c # xs)"
proof -
  let ?h = "(heap c)(brk c := create_cache_node key v)"
  have fresh: "brk c \<notin> set (head_ptr c # xs @ [tail_ptr c])" and pos: "brk c \<noteq> 0"
    using assms(1) by (auto simp: cache_rep_def)
  have "chain (head_ptr c) (tail_ptr c) (heap c) xs"
    using assms(1) by (simp add: cache_rep_def)
  then have "chain (head_ptr c) (tail_ptr c) ?h xs"
    unfolding chain_def using fresh
    by (auto intro!: linked_cong [where h' = ?h and h = "heap c"] dest: in_set_butlastD)
  then have "chain (head_ptr c) (tail_ptr c) (add_to_head (head_ptr c) ?h (brk c)) (brk c # xs)"
    by (rule chain_add [OF _ fresh])
  then show ?thesis
    using assms pos
    by (simp add: cache_rep_def table_nodes_insert less_SucI) (auto simp: create_cache_node_def)
qed

section \<open>What each operation does\<close>

lemma occupied_cong:
  "hash_table c' ! s = hash_table c ! s \<Longrightarrow>
   node_key (heap c' (hash_table c ! s)) = node_key (heap c (hash_table c ! s)) \<Longrightarrow>
   occupied_by_other c' key s = occupied_by_other c key s"
  by (simp add: occupied_by_other_def)

lemma mod_shift_eq: "h < cap \<Longrightarrow> i < cap \<Longrightarrow> (h + i) mod cap = (if h + i < cap then h + i else h + i - cap)"
  for h :: nat
  by (auto simp: mod_if)

lemma mod_shift_inj:
  "h < cap \<Longrightarrow> j < cap \<Longrightarrow> k < cap \<Longrightarrow> (h + j) mod cap = (h + k) mod cap \<longleftrightarrow> j = (k :: nat)"
  by (auto simp: mod_shift_eq split: if_splits)

text \<open>The state of the search loop after \<^verbatim>\<open>i\<close> rounds, all of them over other keys' slots.\<close>

lemma put_search_from:
  fixes c :: "'v lru_cache" and key :: string
  defines "h \<equiv> hash_string key (capacity c)" and "cap \<equiv> capacity c"
  assumes "0 < capacity c" and "i \<le> cap"
    and "\<And>j. j < i \<Longrightarrow> occupied_by_other c key ((h + j) mod cap)"
  shows "\<exists>k. k \<le> cap \<and> (\<forall>j < k. occupied_by_other c key ((h + j) mod cap)) \<and>
    (k < cap \<longrightarrow> \<not> occupied_by_other c key ((h + k) mod cap)) \<and>
    while_option (\<lambda>(s, circled). \<not> circled \<and> occupied_by_other c key s)
        (\<lambda>(s, circled). let s' = (s + 1) mod capacity c in (s', s' = h))
        ((h + i) mod cap, i = cap) = Some ((h + k) mod cap, k = cap)"
  using assms(4,5)
proof (induction "cap - i" arbitrary: i)
  case 0
  then show ?case
    by (intro exI [of _ i]) (auto simp: while_option_unfold)
next
  case (Suc d)
  have h: "h < cap" using assms(3) by (simp add: h_def cap_def)
  have i: "i < cap" using Suc.hyps(2) by simp
  show ?case
  proof (cases "occupied_by_other c key ((h + i) mod cap)")
    case False
    then show ?thesis
      using Suc.prems i by (intro exI [of _ i]) (auto simp: while_option_unfold)
  next
    case True
    have next_slot: "((h + i) mod cap + 1) mod cap = (h + Suc i) mod cap"
      by (simp add: mod_simps)
    have wrap: "(h + Suc i) mod cap = h \<longleftrightarrow> Suc i = cap"
      using h i mod_shift_eq [OF h, of "Suc i"] by (cases "Suc i = cap") (auto split: if_splits)
    have passed: "\<And>j. j < Suc i \<Longrightarrow> occupied_by_other c key ((h + j) mod cap)"
      using Suc.prems(2) True by (auto simp: less_Suc_eq)
    have "d = cap - Suc i" and "Suc i \<le> cap" using Suc.hyps(2) i by auto
    from Suc.hyps(1) [OF this passed] obtain k where k: "k \<le> cap" "\<forall>j < k. occupied_by_other c key ((h + j) mod cap)"
      "k < cap \<longrightarrow> \<not> occupied_by_other c key ((h + k) mod cap)"
      "while_option (\<lambda>(s, circled). \<not> circled \<and> occupied_by_other c key s)
        (\<lambda>(s, circled). let s' = (s + 1) mod capacity c in (s', s' = h))
        ((h + Suc i) mod cap, Suc i = cap) = Some ((h + k) mod cap, k = cap)"
      by blast
    show ?thesis
      using k True i next_slot wrap
      by (intro exI [of _ k]) (auto simp: while_option_unfold [of _ _ "(_, False)"] Let_def cap_def)
  qed
qed

lemma put_search_cases:
  assumes "0 < capacity c"
  obtains (stop) k where "k < capacity c"
      "\<And>j. j < k \<Longrightarrow> occupied_by_other c key ((hash_string key (capacity c) + j) mod capacity c)"
      "\<not> occupied_by_other c key ((hash_string key (capacity c) + k) mod capacity c)"
      "put_search c key = Some ((hash_string key (capacity c) + k) mod capacity c, False)"
  | (circled) s where "\<And>s. s < capacity c \<Longrightarrow> occupied_by_other c key s"
      "put_search c key = Some (s, True)"
proof -
  let ?h = "hash_string key (capacity c)" and ?cap = "capacity c"
  have h: "?h < ?cap" using assms by simp
  from put_search_from [OF assms, of 0 key] assms obtain k where
    k: "k \<le> ?cap" "\<forall>j < k. occupied_by_other c key ((?h + j) mod ?cap)"
      "k < ?cap \<longrightarrow> \<not> occupied_by_other c key ((?h + k) mod ?cap)"
      "put_search c key = Some ((?h + k) mod ?cap, k = ?cap)"
    by (auto simp: put_search_def Let_def)
  show thesis
  proof (cases "k = ?cap")
    case True
    have "occupied_by_other c key s" if "s < ?cap" for s
      using reach_slot [OF h that] k(2) True by auto
    then show thesis using circled k(4) True by simp
  next
    case False
    then show thesis using stop [of k] k by auto
  qed
qed

definition put_hit :: "'v lru_cache \<Rightarrow> nat \<Rightarrow> 'v \<Rightarrow> 'v lru_cache" where
  "put_hit c node v = c\<lparr>heap := move_to_head (head_ptr c)
     ((heap c)(node := (heap c node)\<lparr>node_value := Some v\<rparr>)) node\<rparr>"

definition put_new :: "'v lru_cache \<Rightarrow> nat \<Rightarrow> string \<Rightarrow> 'v \<Rightarrow> 'v lru_cache" where
  "put_new c s key v = c\<lparr>heap := add_to_head (head_ptr c)
       ((heap c)(brk c := create_cache_node key v)) (brk c),
     brk := Suc (brk c), hash_table := (hash_table c)[s := brk c], csize := csize c + 1\<rparr>"

text \<open>
  The three outcomes of \<^verbatim>\<open>cache_put\<close>. A free slot exists only below capacity, so the
  eviction branch is never taken; without one the insertion loop does not end.
\<close>

lemma cache_put_cases:
  assumes "cache_rep c xs"
  obtains (hit) k where "k < capacity c"
      "\<And>j. j < k \<Longrightarrow> occupied_by_other c key ((hash_string key (capacity c) + j) mod capacity c)"
      "table_pointer c ((hash_string key (capacity c) + k) mod capacity c) \<noteq> 0"
      "node_key (heap c (table_pointer c ((hash_string key (capacity c) + k) mod capacity c))) = key"
      "cache_put c key v =
         Some (put_hit c (table_pointer c ((hash_string key (capacity c) + k) mod capacity c)) v)"
  | (new) k where "k < capacity c"
      "\<And>j. j < k \<Longrightarrow> occupied_by_other c key ((hash_string key (capacity c) + j) mod capacity c)"
      "table_pointer c ((hash_string key (capacity c) + k) mod capacity c) = 0"
      "length xs < capacity c"
      "cache_put c key v = Some (put_new c ((hash_string key (capacity c) + k) mod capacity c) key v)"
  | (hang) "\<And>s. s < capacity c \<Longrightarrow> occupied_by_other c key s" "cache_put c key v = None"
proof -
  have cap: "0 < capacity c" using assms by (simp add: cache_rep_def)
  then have h: "hash_string key (capacity c) < capacity c" by simp
  from cap show thesis
  proof (cases rule: put_search_cases [of c key])
    case (stop k)
    let ?s = "(hash_string key (capacity c) + k) mod capacity c"
    show thesis
    proof (cases "table_pointer c ?s = 0")
      case False
      with stop show thesis
        by (intro hit [of k]) (auto simp: cache_put_def put_hit_def occupied_by_other_def Let_def)
    next
      case True
      have "?s < capacity c" using cap by simp
      then have "length xs < capacity c"
        using rep_table_full_iff [OF assms] rep_length_le [OF assms] True by (metis le_neq_implies_less)
      moreover have "csize c = int (length xs)" using assms by (simp add: cache_rep_def)
      moreover have "probe (capacity c) (\<lambda>s. table_pointer c s \<noteq> 0) (hash_string key (capacity c)) = Some ?s"
        using stop True by (intro probe_SomeI [OF h]) (auto simp: occupied_by_other_def)
      ultimately show thesis
        using stop True by (intro new [of k]) (auto simp: cache_put_def put_new_def Let_def)
    qed
  next
    case (circled s)
    have "probe (capacity c) (\<lambda>s. table_pointer c s \<noteq> 0) (hash_string key (capacity c)) = None"
      using circled(1) by (auto simp: probe_None [OF h] occupied_by_other_def)
    then show thesis
      using circled by (intro hang) (auto simp: cache_put_def Let_def)
  qed
qed

lemma put_hit_rep:
  assumes "cache_rep c xs" and "n \<in> set xs"
  shows "cache_rep (put_hit c n v) (n # remove1 n xs)"
  using rep_touch [OF rep_set_value [OF assms] assms(2)] by (simp add: put_hit_def)

lemma put_new_rep:
  assumes "cache_rep c xs" and "s < capacity c" and "table_pointer c s = 0"
  shows "cache_rep (put_new c s key v) (brk c # xs)"
  using rep_insert [OF assms] by (simp add: put_new_def)

lemma rep_below_brk: "cache_rep c xs \<Longrightarrow> n \<in> set xs \<Longrightarrow> 0 < n \<and> n < brk c"
  by (auto simp: cache_rep_def)

lemma rep_capacity: "cache_rep c xs \<Longrightarrow> 0 < capacity c \<and> length (hash_table c) = capacity c"
  by (simp add: cache_rep_def)

lemma put_hit_fields [simp]:
  "hash_table (put_hit c n v) = hash_table c" "capacity (put_hit c n v) = capacity c"
  "brk (put_hit c n v) = brk c"
  "node_key (heap (put_hit c n v) x) = node_key (heap c x)"
  "node_value (heap (put_hit c n v) x) = (if x = n then Some v else node_value (heap c x))"
  by (simp_all add: put_hit_def)

lemma put_new_fields [simp]:
  "hash_table (put_new c s key v) = (hash_table c)[s := brk c]"
  "capacity (put_new c s key v) = capacity c" "brk (put_new c s key v) = Suc (brk c)"
  "node_key (heap (put_new c s key v) x) = (if x = brk c then c_copy MAX_FILENAME key else node_key (heap c x))"
  "node_value (heap (put_new c s key v) x) = (if x = brk c then Some v else node_value (heap c x))"
  by (simp_all add: put_new_def create_cache_node_def)

text \<open>The probe of a lookup that passes other keys' slots and then meets its own.\<close>

lemma cache_get_hit:
  assumes "0 < capacity c" and "s = (hash_string key (capacity c) + k) mod capacity c"
    and "\<And>j. j < k \<Longrightarrow> occupied_by_other c key ((hash_string key (capacity c) + j) mod capacity c)"
    and "table_pointer c s = n" "n \<noteq> 0" "node_key (heap c n) = key"
  shows "cache_get c key =
    Some (c\<lparr>heap := move_to_head (head_ptr c) (heap c) n\<rparr>, node_value (heap c n))"
proof -
  have "probe (capacity c) (occupied_by_other c key) (hash_string key (capacity c)) = Some s"
    unfolding assms(2) using assms by (intro probe_SomeI) (auto simp: occupied_by_other_def)
  then show ?thesis using assms by (simp add: cache_get_def Let_def)
qed

lemma put_then_get:
  assumes rep: "cache_rep c xs" and put: "cache_put c key v = Some c'" and len: "length key < MAX_FILENAME"
  shows "\<exists>c''. cache_get c' key = Some (c'', Some v)"
  using rep
proof (cases rule: cache_put_cases [of c xs key v])
  case (hit k)
  let ?s = "(hash_string key (capacity c) + k) mod capacity c"
  have c': "c' = put_hit c (table_pointer c ?s) v" using hit(5) put by simp
  have "occupied_by_other c' key s = occupied_by_other c key s" for s
    unfolding c' by (rule occupied_cong) simp_all
  then show ?thesis
    using hit rep_capacity [OF rep]
    by (subst cache_get_hit [of c' ?s key k "table_pointer c ?s"]) (simp_all add: c')
next
  case (new k)
  let ?s = "(hash_string key (capacity c) + k) mod capacity c"
  have c': "c' = put_new c ?s key v" using new(5) put by simp
  have cap: "0 < capacity c" and s: "?s < length (hash_table c)" using rep_capacity [OF rep] by auto
  have "occupied_by_other c' key ((hash_string key (capacity c) + j) mod capacity c)" if "j < k" for j
  proof -
    let ?t = "(hash_string key (capacity c) + j) mod capacity c"
    have occ: "occupied_by_other c key ?t" by (rule new(2) [OF that])
    then have "table_pointer c ?t \<in> set xs"
      using rep_slot [OF rep, of ?t] cap by (simp add: occupied_by_other_def)
    then have "table_pointer c ?t \<noteq> brk c" using rep_below_brk [OF rep] by fastforce
    moreover have "?s \<noteq> ?t" using occ new(3) by (auto simp: occupied_by_other_def)
    ultimately show ?thesis using occ unfolding c' occupied_by_other_def by simp
  qed
  moreover have "0 < brk c" using rep by (auto simp: cache_rep_def)
  ultimately show ?thesis
    using cap s len
    by (subst cache_get_hit [of c' ?s key k "brk c"]) (simp_all add: c' buffer_simps)
next
  case hang
  then show ?thesis using put by simp
qed

section \<open>The cache as a recency-ordered association list\<close>

definition cache_entries :: "'v lru_cache \<Rightarrow> nat list \<Rightarrow> (string \<times> 'v) list" where
  "cache_entries c xs = map (\<lambda>n. (node_key (heap c n), the (node_value (heap c n)))) xs"

fun lru_put :: "string \<Rightarrow> 'v \<Rightarrow> (string \<times> 'v) list \<Rightarrow> (string \<times> 'v) list" where
  "lru_put k v es = (k, v) # filter (\<lambda>e. fst e \<noteq> k) es"

fun lru_get :: "string \<Rightarrow> (string \<times> 'v) list \<Rightarrow> (string \<times> 'v) list \<times> 'v option" where
  "lru_get k es = (case map_of es k of None \<Rightarrow> (es, None)
     | Some v \<Rightarrow> ((k, v) # filter (\<lambda>e. fst e \<noteq> k) es, Some v))"

text \<open>
  Coherence: keys are distinct and every entry is reached from its hash slot over occupied
  slots. \<^verbatim>\<open>cache_remove\<close> does not keep it (it leaves a hole in the probe sequence).
\<close>

definition cache_coherent :: "'v lru_cache \<Rightarrow> nat list \<Rightarrow> bool" where
  "cache_coherent c xs \<longleftrightarrow> inj_on (\<lambda>n. node_key (heap c n)) (set xs) \<and>
     (\<forall>s < capacity c. table_pointer c s \<noteq> 0 \<longrightarrow>
        (\<exists>k < capacity c. s = (hash_string (node_key (heap c (table_pointer c s))) (capacity c) + k) mod capacity c \<and>
           (\<forall>j < k. table_pointer c ((hash_string (node_key (heap c (table_pointer c s))) (capacity c) + j) mod capacity c) \<noteq> 0)))"

lemma distinct_filter_nth:
  "distinct (filter P t) \<Longrightarrow> i < length t \<Longrightarrow> j < length t \<Longrightarrow> i \<noteq> j \<Longrightarrow> P (t ! i) \<Longrightarrow> t ! i \<noteq> t ! j"
proof (induction t arbitrary: i j)
  case Nil
  then show ?case by simp
next
  case (Cons x t)
  then show ?case by (cases i; cases j) (auto split: if_splits)
qed

lemma rep_slot_inj:
  assumes "cache_rep c xs" "s < capacity c" "s' < capacity c" "s \<noteq> s'" "table_pointer c s \<noteq> 0"
  shows "table_pointer c s \<noteq> table_pointer c s'"
proof -
  have "mset (filter (\<lambda>p. 0 < p) (hash_table c)) = mset xs" and "distinct xs"
    using assms(1) by (auto simp: cache_rep_def table_nodes_def chain_def mset_filter)
  then have "distinct (filter (\<lambda>p. 0 < p) (hash_table c))"
    using mset_eq_imp_distinct_iff by blast
  then show ?thesis
    using assms rep_capacity [OF assms(1)] by (intro distinct_filter_nth [where P = "\<lambda>p. 0 < p"]) auto
qed

lemma coherent_find:
  assumes rep: "cache_rep c xs" and coh: "cache_coherent c xs" and n: "n \<in> set xs"
  obtains k where "k < capacity c"
    "\<And>j. j < k \<Longrightarrow> occupied_by_other c (node_key (heap c n))
        ((hash_string (node_key (heap c n)) (capacity c) + j) mod capacity c)"
    "table_pointer c ((hash_string (node_key (heap c n)) (capacity c) + k) mod capacity c) = n" "n \<noteq> 0"
proof -
  let ?h = "hash_string (node_key (heap c n)) (capacity c)" and ?cap = "capacity c"
  obtain s where s: "s < ?cap" "table_pointer c s = n" "n \<noteq> 0"
    by (rule rep_node_slot [OF rep n])
  have h: "?h < ?cap" using rep_capacity [OF rep] by simp
  from coh s obtain k where k: "k < ?cap" "s = (?h + k) mod ?cap"
    "\<And>j. j < k \<Longrightarrow> table_pointer c ((?h + j) mod ?cap) \<noteq> 0"
    by (auto simp: cache_coherent_def)
  have "occupied_by_other c (node_key (heap c n)) ((?h + j) mod ?cap)" if "j < k" for j
  proof -
    let ?t = "(?h + j) mod ?cap"
    have t: "?t < ?cap" using h by simp
    have "?t \<noteq> s" using that k(1,2) mod_shift_inj [OF h, of j k] by auto
    then have "table_pointer c ?t \<noteq> n"
      using rep_slot_inj [OF rep t s(1)] k(3) [OF that] s(2) by auto
    moreover have "table_pointer c ?t \<in> set xs" by (rule rep_slot [OF rep t k(3) [OF that]])
    ultimately show ?thesis
      using coh n k(3) [OF that] by (auto simp: occupied_by_other_def cache_coherent_def inj_on_def)
  qed
  then show thesis using that [of k] k s by auto
qed

lemma map_of_entries:
  assumes "inj_on (\<lambda>n. node_key (heap c n)) (set xs)" and "n \<in> set xs" and "distinct xs"
  shows "map_of (cache_entries c xs) (node_key (heap c n)) = Some (the (node_value (heap c n)))"
proof (rule map_of_is_SomeI)
  show "distinct (map fst (cache_entries c xs))"
    using assms by (simp add: cache_entries_def comp_def distinct_map)
  show "(node_key (heap c n), the (node_value (heap c n))) \<in> set (cache_entries c xs)"
    using assms(2) by (auto simp: cache_entries_def)
qed

lemma entries_without:
  assumes "inj_on (\<lambda>n. node_key (heap c n)) (set xs)" and "n \<in> set xs" and "distinct xs"
  shows "cache_entries c (remove1 n xs) = filter (\<lambda>e. fst e \<noteq> node_key (heap c n)) (cache_entries c xs)"
proof -
  have "filter (\<lambda>m. m \<noteq> n) xs = filter (\<lambda>m. node_key (heap c m) \<noteq> node_key (heap c n)) xs"
    using assms(1,2) by (intro filter_cong) (auto simp: inj_on_def)
  then show ?thesis
    using assms(3) by (simp add: cache_entries_def filter_map comp_def distinct_remove1_removeAll
        removeAll_filter_not_eq eq_commute [of n])
qed

lemma entries_key_absent:
  "k \<notin> fst ` set (cache_entries c xs) \<Longrightarrow> filter (\<lambda>e. fst e \<noteq> k) (cache_entries c xs) = cache_entries c xs"
  by (rule filter_True) force

lemma rep_distinct: "cache_rep c xs \<Longrightarrow> distinct xs"
  by (simp add: cache_rep_def chain_def)

lemma coherent_cong:
  assumes "cache_coherent c xs" "hash_table c' = hash_table c" "capacity c' = capacity c"
    "\<And>x. node_key (heap c' x) = node_key (heap c x)" "set ys = set xs"
  shows "cache_coherent c' ys"
  using assms by (simp add: cache_coherent_def)

lemma set_touch: "n \<in> set xs \<Longrightarrow> distinct xs \<Longrightarrow> set (n # remove1 n xs) = set xs"
  by (auto simp: set_remove1_eq)

lemma get_refines:
  assumes rep: "cache_rep c xs" and coh: "cache_coherent c xs" and room: "length xs < capacity c"
  shows "\<exists>c' ys r. cache_get c key = Some (c', r) \<and> cache_rep c' ys \<and> cache_coherent c' ys \<and>
    capacity c' = capacity c \<and> (cache_entries c' ys, r) = lru_get key (cache_entries c xs)"
proof (cases "\<exists>n \<in> set xs. node_key (heap c n) = key")
  case True
  then obtain n where n: "n \<in> set xs" "node_key (heap c n) = key" by blast
  have inj: "inj_on (\<lambda>n. node_key (heap c n)) (set xs)" using coh by (simp add: cache_coherent_def)
  obtain k where k: "k < capacity c"
    "\<And>j. j < k \<Longrightarrow> occupied_by_other c key ((hash_string key (capacity c) + j) mod capacity c)"
    "table_pointer c ((hash_string key (capacity c) + k) mod capacity c) = n" "n \<noteq> 0"
    using coherent_find [OF rep coh n(1)] n(2) by metis
  let ?c = "c\<lparr>heap := move_to_head (head_ptr c) (heap c) n\<rparr>"
  have "cache_get c key = Some (?c, node_value (heap c n))"
    using rep_capacity [OF rep] k n(2) by (intro cache_get_hit [OF _ refl k(2)]) auto
  moreover have "cache_rep ?c (n # remove1 n xs)" by (rule rep_touch [OF rep n(1)])
  moreover have "cache_coherent ?c (n # remove1 n xs)"
    by (rule coherent_cong [OF coh]) (simp_all add: set_touch n(1) rep_distinct [OF rep] del: set_simps)
  moreover obtain v where v: "node_value (heap c n) = Some v"
    using rep n(1) by (auto simp: cache_rep_def)
  moreover have "cache_entries ?c (n # remove1 n xs) =
      (key, v) # filter (\<lambda>e. fst e \<noteq> key) (cache_entries c xs)"
    using entries_without [OF inj n(1) rep_distinct [OF rep]] n(2) v
    by (simp add: cache_entries_def)
  moreover have "map_of (cache_entries c xs) key = Some v"
    using map_of_entries [OF inj n(1) rep_distinct [OF rep]] n(2) v by simp
  ultimately show ?thesis
    by (intro exI [of _ ?c] exI [of _ "n # remove1 n xs"] exI [of _ "Some v"]) simp
next
  case False
  have h: "hash_string key (capacity c) < capacity c" using rep_capacity [OF rep] by simp
  have other: "occupied_by_other c key s \<longleftrightarrow> table_pointer c s \<noteq> 0" if "s < capacity c" for s
    using rep_slot [OF rep that] False by (auto simp: occupied_by_other_def)
  obtain s where "s < capacity c" "table_pointer c s = 0"
    using rep_table_full_iff [OF rep] room by auto
  then have "probe (capacity c) (occupied_by_other c key) (hash_string key (capacity c)) \<noteq> None"
    using other by (auto simp: probe_None [OF h])
  then obtain s where s: "probe (capacity c) (occupied_by_other c key) (hash_string key (capacity c)) = Some s"
    by auto
  then have "table_pointer c s = 0" using other by (auto elim: probe_SomeD [OF h])
  then have "cache_get c key = Some (c, None)" using s by (simp add: cache_get_def)
  moreover have "map_of (cache_entries c xs) key = None"
    using False by (auto simp: map_of_eq_None_iff cache_entries_def)
  ultimately show ?thesis using rep coh by auto
qed

lemma coherent_put_new:
  assumes rep: "cache_rep c xs" and coh: "cache_coherent c xs" and k: "k < capacity c"
    and occ: "\<And>j. j < k \<Longrightarrow> occupied_by_other c key ((hash_string key (capacity c) + j) mod capacity c)"
    and free: "table_pointer c ((hash_string key (capacity c) + k) mod capacity c) = 0"
    and absent: "\<And>n. n \<in> set xs \<Longrightarrow> node_key (heap c n) \<noteq> key" and len: "length key < MAX_FILENAME"
  shows "cache_coherent (put_new c ((hash_string key (capacity c) + k) mod capacity c) key v) (brk c # xs)"
proof -
  let ?s = "(hash_string key (capacity c) + k) mod capacity c"
  let ?c = "put_new c ?s key v"
  have cap: "0 < capacity c" "length (hash_table c) = capacity c" using rep_capacity [OF rep] by auto
  then have s: "?s < length (hash_table c)" by simp
  have brk0: "0 < brk c" using rep by (auto simp: cache_rep_def)
  have old: "n \<noteq> brk c" if "n \<in> set xs" for n using rep_below_brk [OF rep that] by simp
  have grow: "table_pointer ?c t \<noteq> 0" if "table_pointer c t \<noteq> 0" for t
    using that s brk0 by (cases "t = ?s") (auto simp: nth_list_update)
  have "inj_on (\<lambda>n. node_key (heap ?c n)) (set (brk c # xs))"
    using coh absent old len by (auto simp: inj_on_def cache_coherent_def buffer_simps)
  moreover have "\<exists>k' < capacity c. t = (hash_string (node_key (heap ?c (table_pointer ?c t))) (capacity c) + k') mod capacity c \<and>
      (\<forall>j < k'. table_pointer ?c ((hash_string (node_key (heap ?c (table_pointer ?c t))) (capacity c) + j) mod capacity c) \<noteq> 0)"
    if t: "t < capacity c" "table_pointer ?c t \<noteq> 0" for t
  proof (cases "t = ?s")
    case True
    then have "table_pointer ?c t = brk c" using s by simp
    then show ?thesis
      using True k occ grow len
      by (intro exI [of _ k]) (auto simp: occupied_by_other_def buffer_simps)
  next
    case False
    then have same: "table_pointer ?c t = table_pointer c t" by (simp add: nth_list_update_neq)
    then have "table_pointer c t \<in> set xs" using rep_slot [OF rep] t by simp
    then have "node_key (heap ?c (table_pointer ?c t)) = node_key (heap c (table_pointer c t))"
      using old same by auto
    then show ?thesis
      using coh t same grow unfolding cache_coherent_def by (metis (no_types, lifting))
  qed
  ultimately show ?thesis by (simp add: cache_coherent_def)
qed

lemma put_refines:
  assumes rep: "cache_rep c xs" and coh: "cache_coherent c xs" and len: "length key < MAX_FILENAME"
    and room: "length xs < capacity c"
  shows "\<exists>c' ys. cache_put c key v = Some c' \<and> cache_rep c' ys \<and> cache_coherent c' ys \<and>
    capacity c' = capacity c \<and> cache_entries c' ys = lru_put key v (cache_entries c xs)"
  using rep
proof (cases rule: cache_put_cases [of c xs key v])
  case (hit k)
  let ?n = "table_pointer c ((hash_string key (capacity c) + k) mod capacity c)"
  have n: "?n \<in> set xs" using rep_slot [OF rep _ hit(3)] rep_capacity [OF rep] by simp
  have inj: "inj_on (\<lambda>n. node_key (heap c n)) (set xs)" using coh by (simp add: cache_coherent_def)
  have "?n \<notin> set (remove1 ?n xs)" using rep_distinct [OF rep] by (simp add: set_remove1_eq)
  then have "cache_entries (put_hit c ?n v) (?n # remove1 ?n xs) =
      (key, v) # cache_entries c (remove1 ?n xs)"
    using hit(4) by (auto simp: cache_entries_def)
  then have "cache_entries (put_hit c ?n v) (?n # remove1 ?n xs) = lru_put key v (cache_entries c xs)"
    using entries_without [OF inj n rep_distinct [OF rep]] hit(4) by simp
  moreover have "cache_coherent (put_hit c ?n v) (?n # remove1 ?n xs)"
    by (rule coherent_cong [OF coh]) (simp_all add: set_touch n rep_distinct [OF rep] del: set_simps)
  ultimately show ?thesis
    using hit(5) put_hit_rep [OF rep n] by auto
next
  case (new k)
  let ?s = "(hash_string key (capacity c) + k) mod capacity c"
  have s: "?s < capacity c" using rep_capacity [OF rep] by simp
  have absent: "node_key (heap c n) \<noteq> key" if nxs: "n \<in> set xs" for n
  proof
    assume key: "node_key (heap c n) = key"
    obtain k' where k': "k' < capacity c"
      "\<And>j. j < k' \<Longrightarrow> occupied_by_other c key ((hash_string key (capacity c) + j) mod capacity c)"
      "table_pointer c ((hash_string key (capacity c) + k') mod capacity c) = n" "n \<noteq> 0"
      using coherent_find [OF rep coh nxs] key by metis
    show False
    proof (cases k k' rule: linorder_cases)
      case less
      with k'(2) [of k] new(3) show False by (simp add: occupied_by_other_def)
    next
      case equal
      with k' new(3) show False by simp
    next
      case greater
      with new(2) [of k'] k'(3) key show False by (simp add: occupied_by_other_def)
    qed
  qed
  have fresh: "n \<noteq> brk c" if "n \<in> set xs" for n using rep_below_brk [OF rep that] by simp
  have "cache_entries (put_new c ?s key v) (brk c # xs) = (key, v) # cache_entries c xs"
    using fresh len by (auto simp: cache_entries_def buffer_simps)
  also have "\<dots> = lru_put key v (cache_entries c xs)"
    using absent by (auto simp: cache_entries_def filter_map comp_def)
  finally show ?thesis
    using new(5) put_new_rep [OF rep s new(3)] coherent_put_new [OF rep coh new(1-3) absent len]
    by auto
next
  case hang
  then have "\<forall>s < capacity c. table_pointer c s \<noteq> 0" by (simp add: occupied_by_other_def)
  then show ?thesis using rep_table_full_iff [OF rep] room by simp
qed

section \<open>Sequences of cache operations\<close>

text \<open>The ids from the head sentinel to the tail sentinel, following \<^verbatim>\<open>next\<close>.\<close>

fun walk :: "'v node_heap \<Rightarrow> nat \<Rightarrow> nat \<Rightarrow> nat \<Rightarrow> nat list" where
  "walk h stop 0 p = []"
| "walk h stop (Suc fuel) p = (if p = stop then [] else p # walk h stop fuel (node_next (h p)))"

definition cache_ids :: "'v lru_cache \<Rightarrow> nat list" where
  "cache_ids c = walk (heap c) (tail_ptr c) (brk c) (node_next (heap c (head_ptr c)))"

definition cache_view :: "'v lru_cache \<Rightarrow> (string \<times> 'v) list" where
  "cache_view c = cache_entries c (cache_ids c)"

lemma walk_linked:
  "linked h (p # xs @ [q]) \<Longrightarrow> q \<notin> set xs \<Longrightarrow> length xs \<le> fuel \<Longrightarrow> walk h q fuel (node_next (h p)) = xs"
proof (induction xs arbitrary: p fuel)
  case Nil
  then show ?case by (cases fuel) auto
next
  case (Cons x xs)
  then obtain f where "fuel = Suc f" by (cases fuel) auto
  with Cons show ?case by auto
qed

lemma rep_ids: "cache_rep c xs \<Longrightarrow> cache_ids c = xs"
proof -
  assume rep: "cache_rep c xs"
  then have "set xs \<subseteq> {0..<brk c}" by (auto simp: cache_rep_def)
  then have "length xs \<le> brk c"
    using distinct_card [OF rep_distinct [OF rep]] card_mono [of "{0..<brk c}" "set xs"] by simp
  then show ?thesis
    using rep unfolding cache_ids_def cache_rep_def chain_def by (intro walk_linked) auto
qed

datatype 'v cache_op = CGet string | CPut string 'v | CDel string

fun op_key :: "'v cache_op \<Rightarrow> string" where
  "op_key (CGet k) = k" | "op_key (CPut k v) = k" | "op_key (CDel k) = k"

fun put_keys :: "'v cache_op list \<Rightarrow> string set" where
  "put_keys [] = {}"
| "put_keys (CPut k v # ops) = insert k (put_keys ops)"
| "put_keys (_ # ops) = put_keys ops"

fun is_del :: "'v cache_op \<Rightarrow> bool" where
  "is_del (CDel k) = True" | "is_del _ = False"

fun cache_run :: "'v cache_op list \<Rightarrow> 'v lru_cache \<Rightarrow> ('v lru_cache \<times> 'v option list) option" where
  "cache_run [] c = Some (c, [])"
| "cache_run (CGet k # ops) c =
     (case cache_get c k of None \<Rightarrow> None
      | Some (c', r) \<Rightarrow> map_option (\<lambda>(d, rs). (d, r # rs)) (cache_run ops c'))"
| "cache_run (CPut k v # ops) c =
     (case cache_put c k v of None \<Rightarrow> None | Some c' \<Rightarrow> cache_run ops c')"
| "cache_run (CDel k # ops) c =
     (case cache_remove c k of None \<Rightarrow> None | Some c' \<Rightarrow> cache_run ops c')"

fun lru_run :: "'v cache_op list \<Rightarrow> (string \<times> 'v) list \<Rightarrow> (string \<times> 'v) list \<times> 'v option list" where
  "lru_run [] es = (es, [])"
| "lru_run (CGet k # ops) es =
     (let (es1, r) = lru_get k es; (es2, rs) = lru_run ops es1 in (es2, r # rs))"
| "lru_run (CPut k v # ops) es = lru_run ops (lru_put k v es)"
| "lru_run (CDel k # ops) es = lru_run ops (filter (\<lambda>e. fst e \<noteq> k) es)"

lemma remove_rep:
  assumes rep: "cache_rep c xs" and r: "cache_remove c key = Some c'"
  shows "(\<exists>ys. cache_rep c' ys) \<and> capacity c' = capacity c"
proof -
  have h: "hash_string key (capacity c) < capacity c" using rep_capacity [OF rep] by simp
  from r obtain s where p: "probe (capacity c) (occupied_by_other c key) (hash_string key (capacity c)) = Some s"
    by (auto simp: cache_remove_def split: option.splits)
  have "s < capacity c" using probe_SomeD [OF h p] by blast
  then show ?thesis
    using rep rep_drop [OF rep, of s] r p by (auto simp: cache_remove_def Let_def split: if_splits)
qed

lemma get_rep:
  assumes rep: "cache_rep c xs" and g: "cache_get c key = Some (c', r)"
  shows "(\<exists>ys. cache_rep c' ys) \<and> capacity c' = capacity c"
proof -
  have h: "hash_string key (capacity c) < capacity c" using rep_capacity [OF rep] by simp
  from g obtain s where p: "probe (capacity c) (occupied_by_other c key) (hash_string key (capacity c)) = Some s"
    by (auto simp: cache_get_def split: option.splits)
  have "s < capacity c" using probe_SomeD [OF h p] by blast
  then show ?thesis
    using rep rep_touch [OF rep rep_slot [OF rep, of s]] g p
    by (auto simp: cache_get_def Let_def split: if_splits)
qed

lemma put_rep:
  assumes rep: "cache_rep c xs" and p: "cache_put c key v = Some c'"
  shows "(\<exists>ys. cache_rep c' ys) \<and> capacity c' = capacity c"
  using rep
proof (cases rule: cache_put_cases [of c xs key v])
  case (hit k)
  then show ?thesis using p put_hit_rep [OF rep rep_slot [OF rep _ hit(3)]] rep_capacity [OF rep] by auto
next
  case (new k)
  then show ?thesis using p put_new_rep [OF rep _ new(3)] rep_capacity [OF rep] by auto
qed (use p in simp)

lemma run_rep:
  "cache_rep c xs \<Longrightarrow> cache_run ops c = Some (c', outs) \<Longrightarrow>
   (\<exists>ys. cache_rep c' ys) \<and> capacity c' = capacity c"
proof (induction ops c arbitrary: xs c' outs rule: cache_run.induct)
  case (1 c)
  then show ?case by auto
next
  case (2 k ops c)
  then obtain c1 r rs where g: "cache_get c k = Some (c1, r)" "cache_run ops c1 = Some (c', rs)"
    by (auto split: option.splits)
  with get_rep [OF "2.prems"(1) g(1)] "2.IH" [OF g(1) refl] show ?case by metis
next
  case (3 k v ops c)
  then obtain c1 where g: "cache_put c k v = Some c1" "cache_run ops c1 = Some (c', outs)"
    by (auto split: option.splits)
  with put_rep [OF "3.prems"(1) g(1)] "3.IH" [OF g(1)] show ?case by metis
next
  case (4 k ops c)
  then obtain c1 where g: "cache_remove c k = Some c1" "cache_run ops c1 = Some (c', outs)"
    by (auto split: option.splits)
  with remove_rep [OF "4.prems"(1) g(1)] "4.IH" [OF g(1)] show ?case by metis
qed

lemma coherent_length:
  assumes "cache_rep c xs" and "cache_coherent c xs"
  shows "length xs = card (fst ` set (cache_entries c xs))"
proof -
  have "fst ` set (cache_entries c xs) = (\<lambda>n. node_key (heap c n)) ` set xs"
    by (force simp: cache_entries_def)
  then show ?thesis
    using assms distinct_card [OF rep_distinct [OF assms(1)]]
    by (simp add: card_image cache_coherent_def)
qed

lemma fst_lru_get: "fst ` set (fst (lru_get k es)) \<subseteq> fst ` set es"
  by (auto split: option.splits dest: map_of_SomeD intro: rev_image_eqI)

lemma fst_lru_put: "fst ` set (lru_put k v es) \<subseteq> insert k (fst ` set es)"
  by auto

lemma finite_put_keys [simp]: "finite (put_keys ops)"
  by (induction ops rule: put_keys.induct) auto

lemma run_refines:
  assumes "cache_rep c xs" and "cache_coherent c xs"
    and "list_all (\<lambda>op. length (op_key op) < MAX_FILENAME \<and> \<not> is_del op) ops"
    and "card (fst ` set (cache_entries c xs) \<union> put_keys ops) < capacity c"
  shows "map_option (\<lambda>(d, outs). (cache_view d, outs)) (cache_run ops c) =
         Some (lru_run ops (cache_entries c xs))"
  using assms
proof (induction ops arbitrary: c xs)
  case Nil
  then show ?case by (simp add: cache_view_def rep_ids)
next
  case (Cons op ops)
  have room: "length xs < capacity c"
    using Cons.prems(4) card_mono [of "fst ` set (cache_entries c xs) \<union> put_keys (op # ops)"
        "fst ` set (cache_entries c xs)"] coherent_length [OF Cons.prems(1,2)] by simp
  show ?case
  proof (cases op)
    case (CGet k)
    obtain c' ys r where s: "cache_get c k = Some (c', r)" "cache_rep c' ys" "cache_coherent c' ys"
      "capacity c' = capacity c" "(cache_entries c' ys, r) = lru_get k (cache_entries c xs)"
      using get_refines [OF Cons.prems(1,2) room] by metis
    have "fst ` set (cache_entries c' ys) \<subseteq> fst ` set (cache_entries c xs)"
      using fst_lru_get [of k "cache_entries c xs"] s(5) by (metis fst_conv)
    then have "fst ` set (cache_entries c' ys) \<union> put_keys ops \<subseteq>
        fst ` set (cache_entries c xs) \<union> put_keys (op # ops)"
      using CGet by auto
    then have "card (fst ` set (cache_entries c' ys) \<union> put_keys ops) < capacity c'"
      using Cons.prems(4) s(4) by (metis List.finite_set card_mono finite_Un finite_imageI
          finite_put_keys le_less_trans)
    then have "map_option (\<lambda>(d, outs). (cache_view d, outs)) (cache_run ops c') =
         Some (lru_run ops (cache_entries c' ys))"
      using Cons.IH [OF s(2,3)] Cons.prems(3) by simp
    then show ?thesis
      using s(1) s(5) [symmetric] CGet
      by (cases "cache_run ops c'") (auto simp del: lru_get.simps split: prod.splits)
  next
    case (CPut k v)
    obtain c' ys where s: "cache_put c k v = Some c'" "cache_rep c' ys" "cache_coherent c' ys"
      "capacity c' = capacity c" "cache_entries c' ys = lru_put k v (cache_entries c xs)"
      using put_refines [OF Cons.prems(1,2) _ room, of k v] Cons.prems(3) CPut by auto
    have "fst ` set (cache_entries c' ys) \<union> put_keys ops \<subseteq>
        fst ` set (cache_entries c xs) \<union> put_keys (op # ops)"
      using fst_lru_put [of k v "cache_entries c xs"] s(5) CPut by auto
    then have "card (fst ` set (cache_entries c' ys) \<union> put_keys ops) < capacity c'"
      using Cons.prems(4) s(4) by (metis List.finite_set card_mono finite_Un finite_imageI
          finite_put_keys le_less_trans)
    then show ?thesis
      using Cons.IH [OF s(2,3)] Cons.prems(3) s(1,5) CPut by simp
  qed (use Cons.prems(3) in simp)
qed

lemma init_cache_fields [simp]: "capacity (init_cache cap) = cap" "cache_entries c [] = []"
  by (simp_all add: init_cache_def cache_entries_def)

lemma coherent_init: "cache_coherent (init_cache cap) []"
  by (simp add: cache_coherent_def init_cache_def)

lemma full_table_hangs:
  assumes rep: "cache_rep c xs" and full: "length xs = capacity c"
    and absent: "\<And>n. n \<in> set xs \<Longrightarrow> node_key (heap c n) \<noteq> key"
  shows "cache_get c key = None" and "cache_put c key v = None" and "cache_remove c key = None"
proof -
  have occ: "occupied_by_other c key s" if "s < capacity c" for s
    using rep_table_full_iff [OF rep] full rep_slot [OF rep that] absent that
    by (auto simp: occupied_by_other_def)
  have h: "hash_string key (capacity c) < capacity c" using rep_capacity [OF rep] by simp
  have "probe (capacity c) (occupied_by_other c key) (hash_string key (capacity c)) = None"
    using occ by (simp add: probe_None [OF h])
  then show "cache_get c key = None" and "cache_remove c key = None"
    by (simp_all add: cache_get_def cache_remove_def)
  have slot: "(hash_string key (capacity c) + k) mod capacity c < capacity c" for k
    using h by simp
  show "cache_put c key v = None"
    using rep
  proof (cases rule: cache_put_cases [of c xs key v])
    case (hit k)
    then show ?thesis using occ [OF slot [of k]] by (simp add: occupied_by_other_def)
  next
    case (new k)
    then show ?thesis using occ [OF slot [of k]] by (simp add: occupied_by_other_def)
  qed
qed

lemma puts_fill:
  assumes "cache_rep c xs" and "cache_coherent c xs"
    and "distinct ks" and "fst ` set (cache_entries c xs) \<inter> set ks = {}"
    and "list_all (\<lambda>k. length k < MAX_FILENAME) ks" and "length xs + length ks \<le> capacity c"
  shows "\<exists>c' ys. cache_run (map (\<lambda>k. CPut k v) ks) c = Some (c', []) \<and> cache_rep c' ys \<and>
     cache_coherent c' ys \<and> capacity c' = capacity c \<and> length ys = length xs + length ks \<and>
     fst ` set (cache_entries c' ys) = fst ` set (cache_entries c xs) \<union> set ks"
  using assms
proof (induction ks arbitrary: c xs)
  case Nil
  then show ?case by auto
next
  case (Cons k ks)
  obtain c1 ys where s: "cache_put c k v = Some c1" "cache_rep c1 ys" "cache_coherent c1 ys"
    "capacity c1 = capacity c" "cache_entries c1 ys = lru_put k v (cache_entries c xs)"
    using put_refines [OF Cons.prems(1,2), of k v] Cons.prems(5,6) by auto
  have keys: "fst ` set (cache_entries c1 ys) = insert k (fst ` set (cache_entries c xs))"
    using s(5) by auto
  have "k \<notin> fst ` set (cache_entries c xs)" using Cons.prems(4) by auto
  then have "length ys = Suc (length xs)"
    using keys coherent_length [OF s(2,3)] coherent_length [OF Cons.prems(1,2)] by simp
  then show ?case
    using Cons.IH [OF s(2,3)] Cons.prems s(1,4) keys by auto
qed

section \<open>Properties\<close>

text \<open>
  C14. Below capacity the cache is an LRU map: any sequence of gets and puts whose puts use
  fewer distinct names than the table has slots returns, answers every get with the value
  last put, and leaves the recency list in exactly most-recently-used order.
\<close>

theorem cache_refines_lru:
  assumes "list_all (\<lambda>op. length (op_key op) < MAX_FILENAME \<and> \<not> is_del op) ops"
    and "card (put_keys ops) < cap"
  shows "map_option (\<lambda>(c, outs). (cache_view c, outs)) (cache_run ops (init_cache cap)) =
         Some (lru_run ops [])"
  using run_refines [OF rep_init coherent_init assms(1), of cap] assms(2)
  by simp

theorem cache_refines_lru_witness:
  "map_option (\<lambda>(c, outs). (cache_view c, outs))
     (cache_run [CPut ''a'' 1, CPut ''b'' 2, CGet ''a'', CPut ''b'' 3, CGet ''c''] (init_cache 100)) =
   Some ([(''b'', 3 :: nat), (''a'', 1)], [Some 1, None])"
  using cache_refines_lru [of "[CPut ''a'' (1 :: nat), CPut ''b'' 2, CGet ''a'', CPut ''b'' 3, CGet ''c'']" 100]
  by (simp del: cache_run.simps)

text \<open>
  A returning \<^verbatim>\<open>cache_put\<close> is visible to the next lookup of the same name, in every state
  reached by any sequence of operations, removals included.
\<close>

theorem cache_get_after_put:
  assumes "0 < cap" and "cache_run ops (init_cache cap) = Some (c, outs)"
    and "cache_put c key v = Some c'" and "length key < MAX_FILENAME"
  shows "\<exists>c''. cache_get c' key = Some (c'', Some v)"
  using run_rep [OF rep_init [OF assms(1)] assms(2)] put_then_get [OF _ assms(3,4)] by blast

theorem cache_get_after_put_witness:
  "\<exists>c''. cache_get (the (cache_put (init_cache 3) ''k'' (7 :: nat))) ''k'' = Some (c'', Some 7)"
proof -
  obtain c' where c': "cache_put (init_cache 3) ''k'' (7 :: nat) = Some c'"
    using put_refines [OF rep_init coherent_init, of 3 "''k''" "7 :: nat"] by (auto simp: init_cache_def)
  show ?thesis
    using cache_get_after_put [of 3 "[]" "init_cache 3" "[]" "''k''" 7 c'] c' by simp
qed

text \<open>
  In every state reached by any sequence of operations the size field equals the length
  of the recency list and is at most the capacity, and the table points to exactly the
  nodes of the list, each from one slot.
\<close>

theorem cache_invariant:
  assumes "0 < cap" and "cache_run ops (init_cache cap) = Some (c, outs)"
  shows "csize c = int (length (cache_ids c)) \<and> length (cache_ids c) \<le> cap \<and>
         table_nodes (hash_table c) = mset (cache_ids c) \<and> distinct (cache_ids c)"
proof -
  obtain ys where ys: "cache_rep c ys" and cap: "capacity c = cap"
    using run_rep [OF rep_init [OF assms(1)] assms(2)] by (auto simp: init_cache_def)
  show ?thesis
    using rep_length_le [OF ys] ys cap rep_distinct [OF ys] unfolding rep_ids [OF ys]
    by (simp add: cache_rep_def)
qed

theorem cache_invariant_witness:
  "csize (init_cache 5 :: nat lru_cache) = int (length (cache_ids (init_cache 5 :: nat lru_cache)))"
  using cache_invariant [of 5 "[]" "init_cache 5 :: nat lru_cache" "[]"] by simp

text \<open>
  The full table is a dead end: once as many distinct names as the capacity have been
  put, a lookup, an insertion or a removal of any other name never returns (and holds the
  cache mutex), so the eviction code is never reached.
\<close>

theorem full_cache_never_returns:
  assumes "distinct ks" and "length ks = cap" and "0 < cap" and "key \<notin> set ks"
    and "list_all (\<lambda>k. length k < MAX_FILENAME) ks"
  shows "\<exists>c. cache_run (map (\<lambda>k. CPut k v) ks) (init_cache cap) = Some (c, []) \<and>
         cache_get c key = None \<and> cache_put c key w = None \<and> cache_remove c key = None"
proof -
  have "length ([] :: nat list) + length ks \<le> capacity (init_cache cap)"
    and "fst ` set (cache_entries (init_cache cap) []) \<inter> set ks = {}"
    using assms(2) by simp_all
  from puts_fill [OF rep_init [OF assms(3)] coherent_init assms(1) this(2) assms(5) this(1), of v]
  obtain c ys where c: "cache_run (map (\<lambda>k. CPut k v) ks) (init_cache cap) = Some (c, [])"
    "cache_rep c ys" "capacity c = cap" "length ys = cap" "fst ` set (cache_entries c ys) = set ks"
    using assms(2) by auto
  have "node_key (heap c n) \<noteq> key" if "n \<in> set ys" for n
    using that c(5) assms(4) by (force simp: cache_entries_def)
  then show ?thesis
    using full_table_hangs [OF c(2)] c(1,3,4) by blast
qed

theorem full_cache_never_returns_witness:
  "\<exists>c. cache_run [CPut ''a'' (1 :: nat), CPut ''b'' 1] (init_cache 2) = Some (c, []) \<and>
       cache_get c ''c'' = None \<and> cache_put c ''c'' 5 = None \<and> cache_remove c ''c'' = None"
  using full_cache_never_returns [of "[''a'', ''b'']" 2 "''c''" "1 :: nat" 5]
  by (simp del: cache_run.simps)

text \<open>
  Removal breaks the probe sequence: with two names of equal hash value, removing the
  first makes the second unreachable, its own removal then does nothing, and once the first
  is put again a lookup of the removed second name returns its old value. An LRU map
  returns nothing there.
\<close>

theorem cache_remove_leaves_stale_entry:
  assumes "1 < cap" and "hash_string k1 cap = hash_string k2 cap" and "k1 \<noteq> k2"
    and "length k1 < MAX_FILENAME" and "length k2 < MAX_FILENAME"
  shows "map_option snd (cache_run [CPut k1 a, CPut k2 b, CDel k1, CDel k2, CPut k1 d, CGet k2]
           (init_cache cap)) = Some [Some b]
     \<and> snd (lru_run [CPut k1 a, CPut k2 b, CDel k1, CDel k2, CPut k1 d, CGet k2] []) = [None]"
proof -
  define h where "h = hash_string k2 cap"
  have h: "h < cap" and h1: "hash_string k1 cap = h" and h2: "hash_string k2 cap = h"
    using assms(1,2) by (simp_all add: h_def)
  have h': "Suc h mod cap < cap" "Suc h mod cap \<noteq> h" "h \<noteq> Suc h mod cap"
    using assms(1) h by (auto simp: mod_Suc)
  show ?thesis
    using h h' assms
    by (simp add: h1 h2 init_cache_def cache_put_def cache_remove_def cache_get_def put_search_def
        probe_def occupied_by_other_def while_option_unfold create_cache_node_def c_copy_def
        remove_node_def add_to_head_def move_to_head_def Let_def nth_list_update)
qed

theorem cache_remove_leaves_stale_entry_witness:
  "map_option snd (cache_run [CPut ''abb'' (1 :: nat), CPut ''acA'' 2, CDel ''abb'', CDel ''acA'',
       CPut ''abb'' 3, CGet ''acA''] (init_cache CACHE_SIZE)) = Some [Some 2]"
proof -
  have "hash_string ''abb'' CACHE_SIZE = hash_string ''acA'' CACHE_SIZE"
    by (simp add: hash_string_def hash_step_def)
  then show ?thesis
    using cache_remove_leaves_stale_entry [of CACHE_SIZE "''abb''" "''acA''" "1 :: nat" 2 3]
    by (simp del: cache_run.simps)
qed

end
