(* ===== verification/Messages.thy ===== *)
theory Messages
  imports Prelude
begin

text \<open>
  The wire format of \<^verbatim>\<open>common.c\<close>: the message record, \<^verbatim>\<open>serialize_message\<close> (fifteen fields
  printed with a vertical bar between them, the data last) and \<^verbatim>\<open>deserialize_message\<close> (the
  loop over the separators, with its buffer sizes), and \<^verbatim>\<open>trim_whitespace\<close>. The library
  functions the code calls are written out: \<^verbatim>\<open>%d\<close>, \<^verbatim>\<open>atoi\<close>, \<^verbatim>\<open>strchr\<close>.
\<close>

section \<open>Message types and the record\<close>

abbreviation MSG_REG_SS :: int where "MSG_REG_SS \<equiv> 0"
abbreviation MSG_REG_CLIENT :: int where "MSG_REG_CLIENT \<equiv> 1"
abbreviation MSG_CREATE :: int where "MSG_CREATE \<equiv> 2"
abbreviation MSG_READ :: int where "MSG_READ \<equiv> 3"
abbreviation MSG_WRITE :: int where "MSG_WRITE \<equiv> 4"
abbreviation MSG_DELETE :: int where "MSG_DELETE \<equiv> 5"
abbreviation MSG_INFO :: int where "MSG_INFO \<equiv> 6"
abbreviation MSG_VIEW :: int where "MSG_VIEW \<equiv> 7"
abbreviation MSG_LIST :: int where "MSG_LIST \<equiv> 8"
abbreviation MSG_ADDACCESS :: int where "MSG_ADDACCESS \<equiv> 9"
abbreviation MSG_REMACCESS :: int where "MSG_REMACCESS \<equiv> 10"
abbreviation MSG_STREAM :: int where "MSG_STREAM \<equiv> 11"
abbreviation MSG_EXEC :: int where "MSG_EXEC \<equiv> 12"
abbreviation MSG_UNDO :: int where "MSG_UNDO \<equiv> 13"
abbreviation MSG_LOCK_SENTENCE :: int where "MSG_LOCK_SENTENCE \<equiv> 14"
abbreviation MSG_UNLOCK_SENTENCE :: int where "MSG_UNLOCK_SENTENCE \<equiv> 15"
abbreviation MSG_ACK :: int where "MSG_ACK \<equiv> 16"
abbreviation MSG_NACK :: int where "MSG_NACK \<equiv> 17"
abbreviation MSG_DATA :: int where "MSG_DATA \<equiv> 18"
abbreviation MSG_ERROR :: int where "MSG_ERROR \<equiv> 19"
abbreviation MSG_STOP :: int where "MSG_STOP \<equiv> 20"
abbreviation MSG_CHECK_LOCKS :: int where "MSG_CHECK_LOCKS \<equiv> 21"
abbreviation MSG_CREATEFOLDER :: int where "MSG_CREATEFOLDER \<equiv> 22"
abbreviation MSG_MOVE :: int where "MSG_MOVE \<equiv> 23"
abbreviation MSG_VIEWFOLDER :: int where "MSG_VIEWFOLDER \<equiv> 24"
abbreviation MSG_CHECKPOINT :: int where "MSG_CHECKPOINT \<equiv> 25"
abbreviation MSG_VIEWCHECKPOINT :: int where "MSG_VIEWCHECKPOINT \<equiv> 26"
abbreviation MSG_REVERT :: int where "MSG_REVERT \<equiv> 27"
abbreviation MSG_LISTCHECKPOINTS :: int where "MSG_LISTCHECKPOINTS \<equiv> 28"
abbreviation MSG_REQUESTACCESS :: int where "MSG_REQUESTACCESS \<equiv> 29"
abbreviation MSG_VIEWREQUESTS :: int where "MSG_VIEWREQUESTS \<equiv> 30"
abbreviation MSG_APPROVEREQUEST :: int where "MSG_APPROVEREQUEST \<equiv> 31"
abbreviation MSG_DENYREQUEST :: int where "MSG_DENYREQUEST \<equiv> 32"
abbreviation MSG_SS_INFO :: int where "MSG_SS_INFO \<equiv> 33"
abbreviation MSG_CANCEL_WRITE :: int where "MSG_CANCEL_WRITE \<equiv> 34"
abbreviation MSG_COMMIT_WRITE :: int where "MSG_COMMIT_WRITE \<equiv> 35"

abbreviation ACCESS_NONE :: int where "ACCESS_NONE \<equiv> 0"
abbreviation ACCESS_READ :: int where "ACCESS_READ \<equiv> 1"
abbreviation ACCESS_WRITE :: int where "ACCESS_WRITE \<equiv> 2"
abbreviation ACCESS_READWRITE :: int where "ACCESS_READWRITE \<equiv> 3"

record message =
  m_type :: int
  m_status :: int
  m_sender :: string
  m_filename :: string
  m_foldername :: string
  m_checkpoint_tag :: string
  m_target_path :: string
  m_data :: string
  m_sentence_index :: int
  m_word_index :: int
  m_ss_id :: int
  m_client_port :: int
  m_nm_port :: int
  m_access :: int
  m_target_user :: string

definition init_message :: message where
  "init_message =
     \<lparr>m_type = MSG_ACK, m_status = SUCCESS, m_sender = [], m_filename = [], m_foldername = [],
      m_checkpoint_tag = [], m_target_path = [], m_data = [],
      m_sentence_index = - 1, m_word_index = - 1, m_ss_id = - 1,
      m_client_port = 0, m_nm_port = 0, m_access = ACCESS_NONE, m_target_user = []\<rparr>"

section \<open>Decimal numbers\<close>

text \<open>\<^verbatim>\<open>printf("%d")\<close>\<close>

definition digit_char :: "nat \<Rightarrow> char" where
  "digit_char d = char_of (48 + d)"

fun show_nat :: "nat \<Rightarrow> string" where
  "show_nat n = (if n < 10 then [digit_char n] else show_nat (n div 10) @ [digit_char (n mod 10)])"

definition show_int :: "int \<Rightarrow> string" where
  "show_int i = (if i < 0 then CHR ''-'' # show_nat (nat (- i)) else show_nat (nat i))"

text \<open>
  \<^verbatim>\<open>atoi\<close>, which in the C library is \<^verbatim>\<open>(int) strtol(s, NULL, 10)\<close>: blanks, a sign, digits;
  the value saturates at the 64-bit range and is then cut to 32 bits.
\<close>

definition is_digit :: "char \<Rightarrow> bool" where
  "is_digit c \<longleftrightarrow> 48 \<le> (of_char c :: nat) \<and> (of_char c :: nat) \<le> 57"

definition digit_val :: "char \<Rightarrow> nat" where
  "digit_val c = of_char c - 48"

definition c_isspace :: "char \<Rightarrow> bool" where
  "c_isspace c \<longleftrightarrow> c = SPACE \<or> 9 \<le> (of_char c :: nat) \<and> (of_char c :: nat) \<le> 13"

definition read_digits :: "string \<Rightarrow> int" where
  "read_digits s = int (foldl (\<lambda>a c. 10 * a + digit_val c) 0 (takeWhile is_digit s))"

definition to_int32 :: "int \<Rightarrow> int" where
  "to_int32 i = (i + 2 ^ 31) mod 2 ^ 32 - 2 ^ 31"

definition atoi :: "string \<Rightarrow> int" where
  "atoi s =
     (let body = dropWhile c_isspace s;
          v = (case body of
                 [] \<Rightarrow> 0
               | c # cs \<Rightarrow> if c = CHR ''-'' then - read_digits cs
                           else if c = CHR ''+'' then read_digits cs
                           else read_digits body)
      in to_int32 (max (- (2 ^ 63)) (min (2 ^ 63 - 1) v)))"

declare show_nat.simps [simp del]

lemma digit_char_code: "d < 10 \<Longrightarrow> (of_char (digit_char d) :: nat) = 48 + d"
  by (simp add: digit_char_def)

lemma digit_char_digit [simp]: "d < 10 \<Longrightarrow> is_digit (digit_char d)" "d < 10 \<Longrightarrow> digit_val (digit_char d) = d"
  by (simp_all add: is_digit_def digit_val_def digit_char_code)

lemma show_nat_digits: "\<forall>c \<in> set (show_nat n). is_digit c"
  by (induction n rule: show_nat.induct) (subst show_nat.simps, auto)

lemma show_nat_nonempty [simp]: "show_nat n \<noteq> []"
  by (subst show_nat.simps) auto

lemma show_nat_value: "foldl (\<lambda>a c. 10 * a + digit_val c) 0 (show_nat n) = n"
proof (induction n rule: show_nat.induct)
  case (1 n)
  show ?case
  proof (cases "n < 10")
    case True
    then show ?thesis by (simp add: show_nat.simps)
  next
    case False
    then show ?thesis using 1 by (subst show_nat.simps) simp
  qed
qed

lemma read_digits_show: "read_digits (show_nat n) = int n"
proof -
  have "takeWhile is_digit (show_nat n) = show_nat n"
    by (rule takeWhile_eq_all_conv [THEN iffD2, OF show_nat_digits])
  then show ?thesis unfolding read_digits_def by (simp only: show_nat_value)
qed

lemma digit_not_special: "is_digit c \<Longrightarrow> \<not> c_isspace c \<and> c \<noteq> CHR ''-'' \<and> c \<noteq> CHR ''+'' \<and> c \<noteq> CHR ''|'' \<and> c \<noteq> NUL"
  by (auto simp: is_digit_def c_isspace_def)

lemma show_nat_hd:
  obtains c cs where "show_nat n = c # cs" "is_digit c"
  using show_nat_digits [of n] by (cases "show_nat n") auto

lemma to_int32_id: "- (2 ^ 31) \<le> i \<Longrightarrow> i < 2 ^ 31 \<Longrightarrow> to_int32 i = i"
  by (simp add: to_int32_def)

lemma atoi_show:
  assumes "- (2 ^ 31) \<le> i" and "i < 2 ^ 31"
  shows "atoi (show_int i) = i"
proof (cases "i < 0")
  case True
  then have "atoi (show_int i) = to_int32 (max (- (2 ^ 63)) (min (2 ^ 63 - 1) i))"
    by (simp add: atoi_def show_int_def read_digits_show c_isspace_def)
  also have "\<dots> = i" using assms by (simp add: to_int32_def)
  finally show ?thesis .
next
  case False
  obtain c cs where c: "show_nat (nat i) = c # cs" "is_digit c" by (rule show_nat_hd)
  have "read_digits (c # cs) = i"
    using read_digits_show [of "nat i"] c(1) False by simp
  then have "atoi (show_int i) = to_int32 (max (- (2 ^ 63)) (min (2 ^ 63 - 1) i))"
    using c digit_not_special [OF c(2)] False by (simp add: atoi_def show_int_def)
  also have "\<dots> = i" using assms by (simp add: to_int32_def)
  finally show ?thesis .
qed

lemma show_int_chars: "c \<in> set (show_int i) \<Longrightarrow> c \<noteq> CHR ''|'' \<and> c \<noteq> NUL"
  using show_nat_digits digit_not_special by (fastforce simp: show_int_def split: if_splits)

lemma show_int_nonempty [simp]: "show_int i \<noteq> []"
  by (simp add: show_int_def)

lemma show_nat_length: "n < 10 ^ k \<Longrightarrow> 0 < k \<Longrightarrow> length (show_nat n) \<le> k"
proof (induction k arbitrary: n)
  case 0
  then show ?case by simp
next
  case (Suc k)
  show ?case
  proof (cases "n < 10")
    case True
    then show ?thesis by (simp add: show_nat.simps)
  next
    case False
    then have "0 < k" using Suc.prems(1) by (cases k) auto
    moreover have "n div 10 < 10 ^ k" using Suc.prems(1) by (simp add: less_mult_imp_div_less mult.commute)
    ultimately show ?thesis using Suc.IH [of "n div 10"] False by (subst show_nat.simps) simp
  qed
qed

lemma show_int_length: "- (2 ^ 31) \<le> i \<Longrightarrow> i < 2 ^ 31 \<Longrightarrow> length (show_int i) \<le> 11"
  using show_nat_length [of "nat (- i)" 10] show_nat_length [of "nat i" 10]
  by (auto simp: show_int_def nat_less_iff)

section \<open>Serialisation\<close>

abbreviation BAR :: char where "BAR \<equiv> CHR ''|''"

definition serialize_message :: "message \<Rightarrow> string" where
  "serialize_message msg =
     show_int (m_type msg) @ BAR # show_int (m_status msg) @ BAR # m_sender msg @ BAR #
     m_filename msg @ BAR # m_foldername msg @ BAR # m_target_path msg @ BAR #
     show_int (m_sentence_index msg) @ BAR # show_int (m_word_index msg) @ BAR #
     show_int (m_ss_id msg) @ BAR # show_int (m_client_port msg) @ BAR #
     show_int (m_nm_port msg) @ BAR # show_int (m_access msg) @ BAR #
     m_target_user msg @ BAR # m_checkpoint_tag msg @ BAR # m_data msg"

text \<open>
  The \<^verbatim>\<open>switch\<close> of the parsing loop on a token already cut to the token buffer. The writes
  of a terminator into a neighbouring field in cases 4, 5 and 13 hit bytes that are
  already zero.
\<close>

definition store_field :: "nat \<Rightarrow> string \<Rightarrow> message \<Rightarrow> message" where
  "store_field field token msg =
     (if token \<noteq> []
      then (if field = 0 then msg\<lparr>m_type := atoi token\<rparr>
            else if field = 1 then msg\<lparr>m_status := atoi token\<rparr>
            else if field = 2 then msg\<lparr>m_sender := c_copy MAX_USERNAME token\<rparr>
            else if field = 3 then msg\<lparr>m_filename := c_copy MAX_FILENAME token\<rparr>
            else if field = 4 then msg\<lparr>m_foldername := c_copy MAX_FILENAME token\<rparr>
            else if field = 5 then msg\<lparr>m_target_path := c_copy MAX_FILENAME token\<rparr>
            else if field = 6 then msg\<lparr>m_sentence_index := atoi token\<rparr>
            else if field = 7 then msg\<lparr>m_word_index := atoi token\<rparr>
            else if field = 8 then msg\<lparr>m_ss_id := atoi token\<rparr>
            else if field = 9 then msg\<lparr>m_client_port := atoi token\<rparr>
            else if field = 10 then msg\<lparr>m_nm_port := atoi token\<rparr>
            else if field = 11 then msg\<lparr>m_access := atoi token\<rparr>
            else if field = 12 then msg\<lparr>m_target_user := c_copy MAX_USERNAME token\<rparr>
            else if field = 13 then msg\<lparr>m_checkpoint_tag := c_copy MAX_USERNAME token\<rparr>
            else if field = 14 then msg\<lparr>m_data := c_copy MAX_BUFFER token\<rparr>
            else msg)
      else (if field = 2 then msg\<lparr>m_sender := []\<rparr>
            else if field = 3 then msg\<lparr>m_filename := []\<rparr>
            else if field = 10 then msg\<lparr>m_target_user := []\<rparr>
            else if field = 11 then msg\<lparr>m_data := []\<rparr>
            else msg))"

text \<open>\<^verbatim>\<open>strchr(p, '|')\<close>: the token before the separator and what follows it, if there is one.\<close>

definition next_token :: "nat \<Rightarrow> string \<Rightarrow> string \<times> string option" where
  "next_token field p =
     (if field = 14 then (p, None)
      else (takeWhile (\<lambda>c. c \<noteq> BAR) p,
            (case dropWhile (\<lambda>c. c \<noteq> BAR) p of [] \<Rightarrow> None | _ # rest \<Rightarrow> Some rest)))"

function deserialize_loop :: "nat \<Rightarrow> string \<Rightarrow> message \<Rightarrow> message" where
  "deserialize_loop field p msg =
     (if field < 15
      then (let (token, rest) = next_token field p;
                msg' = store_field field (take (MAX_BUFFER - 1) token) msg
            in case rest of None \<Rightarrow> msg' | Some p' \<Rightarrow> deserialize_loop (field + 1) p' msg')
      else msg)"
  by pat_completeness auto
termination by (relation "measure (\<lambda>(field, p, msg). 15 - field)") auto

definition deserialize_message :: "string \<Rightarrow> message" where
  "deserialize_message buffer = deserialize_loop 0 (c_str buffer) init_message"

declare deserialize_loop.simps [simp del]

text \<open>What the types of the struct allow: 32-bit integers and terminated buffers.\<close>

definition int32 :: "int \<Rightarrow> bool" where
  "int32 i \<longleftrightarrow> - (2 ^ 31) \<le> i \<and> i < 2 ^ 31"

definition buffer_ok :: "nat \<Rightarrow> string \<Rightarrow> bool" where
  "buffer_ok n s \<longleftrightarrow> length s < n \<and> NUL \<notin> set s"

definition message_ok :: "message \<Rightarrow> bool" where
  "message_ok m \<longleftrightarrow>
     list_all int32 [m_type m, m_status m, m_sentence_index m, m_word_index m, m_ss_id m,
                     m_client_port m, m_nm_port m, m_access m] \<and>
     list_all (buffer_ok MAX_USERNAME) [m_sender m, m_target_user m, m_checkpoint_tag m] \<and>
     list_all (buffer_ok MAX_FILENAME) [m_filename m, m_foldername m] \<and>
     buffer_ok MAX_PATH (m_target_path m) \<and> buffer_ok MAX_BUFFER (m_data m)"

definition bar_free :: "message \<Rightarrow> bool" where
  "bar_free m \<longleftrightarrow>
     list_all (\<lambda>s. BAR \<notin> set s) [m_sender m, m_filename m, m_foldername m, m_target_path m,
                                  m_target_user m, m_checkpoint_tag m]"

section \<open>Reading back what was written\<close>

fun join_fields :: "string list \<Rightarrow> string" where
  "join_fields [] = []"
| "join_fields [t] = t"
| "join_fields (t # ts) = t @ BAR # join_fields ts"

definition message_fields :: "message \<Rightarrow> string list" where
  "message_fields msg =
     [show_int (m_type msg), show_int (m_status msg), m_sender msg, m_filename msg,
      m_foldername msg, m_target_path msg, show_int (m_sentence_index msg),
      show_int (m_word_index msg), show_int (m_ss_id msg), show_int (m_client_port msg),
      show_int (m_nm_port msg), show_int (m_access msg), m_target_user msg,
      m_checkpoint_tag msg, m_data msg]"

lemma serialize_join: "serialize_message msg = join_fields (message_fields msg)"
  by (simp add: serialize_message_def message_fields_def)

fun store_fields :: "nat \<Rightarrow> string list \<Rightarrow> message \<Rightarrow> message" where
  "store_fields field [] msg = msg"
| "store_fields field (t # ts) msg =
     store_fields (field + 1) ts (store_field field (take (MAX_BUFFER - 1) t) msg)"

lemma takeWhile_bar [simp]: "BAR \<notin> set t \<Longrightarrow> takeWhile (\<lambda>c. c \<noteq> BAR) (t @ BAR # r) = t"
  by (induction t) auto

lemma dropWhile_bar [simp]: "BAR \<notin> set t \<Longrightarrow> dropWhile (\<lambda>c. c \<noteq> BAR) (t @ BAR # r) = BAR # r"
  by (induction t) auto

lemma deserialize_join:
  assumes "field + length ts = 15" and "ts \<noteq> []" and "\<forall>t \<in> set (butlast ts). BAR \<notin> set t"
  shows "deserialize_loop field (join_fields ts) msg = store_fields field ts msg"
  using assms
proof (induction ts arbitrary: field msg rule: join_fields.induct)
  case 1
  then show ?case by simp
next
  case (2 t)
  then show ?case
    by (subst deserialize_loop.simps) (simp add: next_token_def)
next
  case (3 t u ts)
  then show ?case
    by (subst deserialize_loop.simps) (simp add: next_token_def)
qed

text \<open>Storing a string field into a message where it is still empty.\<close>

lemma c_copy_nil [simp]: "c_copy n [] = []"
  by (simp add: c_copy_def)

lemma store_string:
  "m_sender msg = [] \<Longrightarrow> store_field 2 t msg = msg\<lparr>m_sender := c_copy MAX_USERNAME t\<rparr>"
  "m_filename msg = [] \<Longrightarrow> store_field 3 t msg = msg\<lparr>m_filename := c_copy MAX_FILENAME t\<rparr>"
  "m_foldername msg = [] \<Longrightarrow> store_field 4 t msg = msg\<lparr>m_foldername := c_copy MAX_FILENAME t\<rparr>"
  "m_target_path msg = [] \<Longrightarrow> store_field 5 t msg = msg\<lparr>m_target_path := c_copy MAX_FILENAME t\<rparr>"
  "m_target_user msg = [] \<Longrightarrow> store_field 12 t msg = msg\<lparr>m_target_user := c_copy MAX_USERNAME t\<rparr>"
  "m_checkpoint_tag msg = [] \<Longrightarrow> store_field 13 t msg = msg\<lparr>m_checkpoint_tag := c_copy MAX_USERNAME t\<rparr>"
  "m_data msg = [] \<Longrightarrow> store_field 14 t msg = msg\<lparr>m_data := c_copy MAX_BUFFER t\<rparr>"
  by (cases t; simp add: store_field_def)+

lemma take_show_int: "int32 i \<Longrightarrow> take 8191 (show_int i) = show_int i"
  using show_int_length [of i] by (simp add: int32_def)

lemma store_int:
  assumes "int32 i"
  shows "store_field 0 (show_int i) msg = msg\<lparr>m_type := i\<rparr>"
    "store_field 1 (show_int i) msg = msg\<lparr>m_status := i\<rparr>"
    "store_field 6 (show_int i) msg = msg\<lparr>m_sentence_index := i\<rparr>"
    "store_field 7 (show_int i) msg = msg\<lparr>m_word_index := i\<rparr>"
    "store_field 8 (show_int i) msg = msg\<lparr>m_ss_id := i\<rparr>"
    "store_field 9 (show_int i) msg = msg\<lparr>m_client_port := i\<rparr>"
    "store_field 10 (show_int i) msg = msg\<lparr>m_nm_port := i\<rparr>"
    "store_field 11 (show_int i) msg = msg\<lparr>m_access := i\<rparr>"
  using assms by (simp_all add: store_field_def atoi_show int32_def)

lemma c_copy_take:
  "c_copy MAX_USERNAME (take 8191 t) = c_copy MAX_USERNAME t"
  "c_copy MAX_FILENAME (take 8191 t) = c_copy MAX_FILENAME t"
  "c_copy MAX_BUFFER (take 8191 t) = c_copy MAX_BUFFER t"
  by (simp_all add: c_copy_def)

lemma store_all_fields:
  assumes "list_all int32 [a, b, g, h, i, j, k, l]"
  shows "store_fields 0 [show_int a, show_int b, c, d, e, f, show_int g, show_int h, show_int i,
           show_int j, show_int k, show_int l, m, n, q] init_message =
     \<lparr>m_type = a, m_status = b, m_sender = c_copy MAX_USERNAME c, m_filename = c_copy MAX_FILENAME d,
      m_foldername = c_copy MAX_FILENAME e, m_checkpoint_tag = c_copy MAX_USERNAME n,
      m_target_path = c_copy MAX_FILENAME f, m_data = c_copy MAX_BUFFER q,
      m_sentence_index = g, m_word_index = h, m_ss_id = i,
      m_client_port = j, m_nm_port = k, m_access = l, m_target_user = c_copy MAX_USERNAME m\<rparr>"
  using assms
  by (simp add: init_message_def take_show_int store_int store_string c_copy_take del: One_nat_def)

lemma join_nul_free: "\<forall>t \<in> set ts. NUL \<notin> set t \<Longrightarrow> NUL \<notin> set (join_fields ts)"
  by (induction ts rule: join_fields.induct) auto

lemma show_int_free [simp]: "NUL \<notin> set (show_int i)" "BAR \<notin> set (show_int i)"
  using show_int_chars [of _ i] by blast+

lemma serialize_nul_free: "message_ok m \<Longrightarrow> NUL \<notin> set (serialize_message m)"
  unfolding serialize_join
  by (rule join_nul_free) (simp add: message_fields_def message_ok_def buffer_ok_def)

lemma deserialize_serialize:
  assumes "message_ok m" and "bar_free m"
  shows "deserialize_message (serialize_message m) =
         m\<lparr>m_target_path := c_copy MAX_FILENAME (m_target_path m)\<rparr>"
proof -
  have "\<forall>t \<in> set (butlast (message_fields m)). BAR \<notin> set t"
    using assms(2) by (simp add: message_fields_def bar_free_def)
  then have "deserialize_message (serialize_message m) = store_fields 0 (message_fields m) init_message"
    using c_str_no_nul [OF serialize_nul_free [OF assms(1)]] deserialize_join [of 0 "message_fields m"]
    by (simp add: deserialize_message_def serialize_join message_fields_def)
  then show ?thesis
    using assms(1)
    by (simp add: message_fields_def store_all_fields message_ok_def c_copy_fits buffer_ok_def
        del: store_fields.simps)
qed

lemma serialize_length:
  assumes "message_ok m"
  shows "0 < length (serialize_message m) \<and> length (serialize_message m) < MAX_BUFFER * 2"
proof -
  have "length (show_int i) \<le> 11" if "int32 i" for i
    using that show_int_length by (simp add: int32_def)
  then have "list_all (\<lambda>i. length (show_int i) \<le> 11)
      [m_type m, m_status m, m_sentence_index m, m_word_index m, m_ss_id m, m_client_port m,
       m_nm_port m, m_access m]"
    using assms by (simp add: message_ok_def)
  then show ?thesis
    using assms by (simp add: serialize_message_def message_ok_def buffer_ok_def)
qed

section \<open>Received messages are well-formed\<close>

lemma atoi_int32 [simp]: "int32 (atoi s)"
  by (simp add: atoi_def int32_def to_int32_def Let_def)

lemma buffer_ok_copy:
  "NUL \<notin> set s \<Longrightarrow> 0 < n \<Longrightarrow> buffer_ok n (c_copy n s)" "NUL \<notin> set s \<Longrightarrow> buffer_ok MAX_PATH (c_copy MAX_FILENAME s)"
  by (auto simp: buffer_ok_def c_copy_def dest: in_set_takeD)

lemma store_field_ok: "message_ok msg \<Longrightarrow> NUL \<notin> set t \<Longrightarrow> message_ok (store_field f t msg)"
  unfolding store_field_def by (simp add: message_ok_def buffer_ok_copy) (simp add: buffer_ok_def)

lemma deserialize_loop_ok: "message_ok msg \<Longrightarrow> NUL \<notin> set p \<Longrightarrow> message_ok (deserialize_loop f p msg)"
proof (induction f p msg rule: deserialize_loop.induct)
  case (1 f p msg)
  obtain t rest where tok: "next_token f p = (t, rest)" by fastforce
  have t: "NUL \<notin> set t"
    using tok "1.prems"(2) by (auto simp: next_token_def dest: set_takeWhileD split: if_splits)
  have rest: "NUL \<notin> set p'" if "rest = Some p'" for p'
  proof -
    have "set p' \<subseteq> set (dropWhile (\<lambda>c. c \<noteq> BAR) p)"
      using tok that by (auto simp: next_token_def split: if_splits list.splits)
    then show ?thesis using "1.prems"(2) set_dropWhileD by fastforce
  qed
  have step: "message_ok (store_field f (take (MAX_BUFFER - 1) t) msg)"
    using "1.prems"(1) t by (intro store_field_ok) (auto dest: in_set_takeD)
  show ?case
    using "1.IH" [OF _ tok [symmetric] refl] "1.prems"(1) tok step rest
    by (subst deserialize_loop.simps) (auto simp: Let_def split: option.split)
qed

lemma deserialize_message_ok: "message_ok (deserialize_message buffer)"
proof -
  have "message_ok init_message" by (simp add: message_ok_def init_message_def int32_def buffer_ok_def)
  then show ?thesis unfolding deserialize_message_def by (rule deserialize_loop_ok) simp
qed

text \<open>
  C37. Whatever bytes arrive, the message parsed from them is well-formed: every number is in
  the range of an \<^verbatim>\<open>int\<close> and every string is terminated inside the field that holds it, so a
  message that is sent on fits the buffer of the next receiver.
\<close>

theorem received_message_ok:
  "message_ok (deserialize_message buffer) \<and>
   length (serialize_message (deserialize_message buffer)) < MAX_BUFFER * 2"
  using deserialize_message_ok serialize_length [OF deserialize_message_ok] by blast

text \<open>Which fields one step of the loop leaves alone.\<close>

lemma store_field_frame:
  "m_filename (store_field f t msg) = (if f = 3 then c_copy MAX_FILENAME t else m_filename msg)"
  "f \<noteq> 4 \<Longrightarrow> m_foldername (store_field f t msg) = m_foldername msg"
  "f \<noteq> 5 \<Longrightarrow> m_target_path (store_field f t msg) = m_target_path msg"
  "f \<noteq> 11 \<Longrightarrow> f \<noteq> 14 \<Longrightarrow> m_data (store_field f t msg) = m_data msg"
  "t \<noteq> [] \<Longrightarrow> m_foldername (store_field 4 t msg) = c_copy MAX_FILENAME t"
  "t \<noteq> [] \<Longrightarrow> m_target_path (store_field 5 t msg) = c_copy MAX_FILENAME t"
  "t \<noteq> [] \<Longrightarrow> m_data (store_field 14 t msg) = c_copy MAX_BUFFER t"
  by (cases t; simp add: store_field_def)+

section \<open>Trimming\<close>

definition is_blank :: "char \<Rightarrow> bool" where
  "is_blank c \<longleftrightarrow> c = SPACE \<or> c = TAB \<or> c = NEWLINE \<or> c = CR"

text \<open>\<^verbatim>\<open>while (end > str && blank(*end)) end--\<close>, on the part that starts at \<^verbatim>\<open>str\<close>.\<close>

function trim_end :: "string \<Rightarrow> string" where
  "trim_end s = (if 1 < length s \<and> is_blank (last s) then trim_end (butlast s) else s)"
  by pat_completeness auto
termination by (relation "measure length") auto

text \<open>
  The leading loop moves a copy of the pointer; what the caller's buffer holds afterwards
  still starts with the blanks.
\<close>

definition trim_whitespace :: "string \<Rightarrow> string" where
  "trim_whitespace s =
     (let lead = takeWhile is_blank s; str = dropWhile is_blank s
      in if str = [] then s else lead @ trim_end str)"

declare trim_end.simps [simp del]

lemma trim_end_strip:
  "s \<noteq> [] \<Longrightarrow> \<not> is_blank (hd s) \<Longrightarrow> trim_end s = rev (dropWhile is_blank (rev s))"
proof (induction s rule: trim_end.induct)
  case (1 s)
  show ?case
  proof (cases "1 < length s \<and> is_blank (last s)")
    case True
    then obtain b x where s: "s = b @ [x]" "b \<noteq> []" by (cases s rule: rev_cases) auto
    then have "trim_end b = rev (dropWhile is_blank (rev b))"
      using 1 True by simp
    then show ?thesis using True s by (subst trim_end.simps) simp
  next
    case False
    then have "\<not> is_blank (last s)" using "1.prems" by (cases s) auto
    then show ?thesis
      using False "1.prems" by (subst trim_end.simps) (cases s rule: rev_cases, auto)
  qed
qed

section \<open>Properties\<close>

text \<open>
  C36. A message whose strings hold no separator is read back from its serialised form
  unchanged, whatever its data, except that a target path of 256 characters or more comes
  back cut to 255 characters although the field has room for 511.
\<close>

theorem message_roundtrip:
  assumes "message_ok m" and "bar_free m"
  shows "deserialize_message (serialize_message m) =
         m\<lparr>m_target_path := take 255 (m_target_path m)\<rparr>"
  using deserialize_serialize [OF assms] by (simp add: c_copy_def)

theorem message_roundtrip_witness:
  "deserialize_message (serialize_message (init_message\<lparr>m_type := 4, m_filename := ''notes.txt'',
     m_sentence_index := 2, m_data := ''1 a|b''\<rparr>)) =
   init_message\<lparr>m_type := 4, m_filename := ''notes.txt'', m_sentence_index := 2, m_data := ''1 a|b''\<rparr>"
  using message_roundtrip [of "init_message\<lparr>m_type := 4, m_filename := ''notes.txt'',
     m_sentence_index := 2, m_data := ''1 a|b''\<rparr>"]
  by (simp add: message_ok_def bar_free_def init_message_def int32_def buffer_ok_def)

text \<open>
  Nothing escapes the separator: a message for the file \<^verbatim>\<open>a|b\<close> arrives as one for the
  file \<^verbatim>\<open>a\<close> in the folder \<^verbatim>\<open>b\<close>, with the sent folder as its target path and the checkpoint
  tag in front of its data.
\<close>

theorem separator_shifts_fields:
  assumes "message_ok m" and "bar_free (m\<lparr>m_filename := a @ b\<rparr>)" and "m_filename m = a @ BAR # b"
    and "b \<noteq> []" and "m_foldername m \<noteq> []"
  shows "let r = deserialize_message (serialize_message m)
         in m_filename r = a \<and> m_foldername r = b \<and> m_target_path r = m_foldername m \<and>
            m_data r = take 8191 (m_checkpoint_tag m @ BAR # m_data m)"
proof -
  let ?ts = "[show_int (m_type m), show_int (m_status m), m_sender m, a, b, m_foldername m,
      m_target_path m, show_int (m_sentence_index m), show_int (m_word_index m),
      show_int (m_ss_id m), show_int (m_client_port m), show_int (m_nm_port m),
      show_int (m_access m), m_target_user m, m_checkpoint_tag m @ BAR # m_data m]"
  have "\<forall>t \<in> set (butlast ?ts). BAR \<notin> set t"
    using assms(2) by (simp add: bar_free_def)
  moreover have "serialize_message m = join_fields ?ts"
    using assms(3) by (simp add: serialize_message_def)
  ultimately have "deserialize_message (serialize_message m) = store_fields 0 ?ts init_message"
    using c_str_no_nul [OF serialize_nul_free [OF assms(1)]] deserialize_join [of 0 ?ts]
    by (simp add: deserialize_message_def)
  then show ?thesis
    using assms
    by (simp add: store_field_frame c_copy_take c_copy_fits message_ok_def buffer_ok_def init_message_def
        del: One_nat_def) (simp add: c_copy_def)
qed

theorem separator_shifts_fields_witness:
  "m_filename (deserialize_message (serialize_message
     (init_message\<lparr>m_filename := ''a|b'', m_foldername := ''docs''\<rparr>))) = ''a''"
  using separator_shifts_fields [of "init_message\<lparr>m_filename := ''a|b'', m_foldername := ''docs''\<rparr>" "''a''" "''b''"]
  by (simp add: message_ok_def bar_free_def init_message_def int32_def buffer_ok_def Let_def)

text \<open>
  Trimming a string that has a visible character removes exactly the blanks at its end
  and none at its start; a string of blanks is left as it is.
\<close>

theorem trim_only_trailing:
  "trim_whitespace s =
     (if list_all is_blank s then s else rev (dropWhile is_blank (rev s)))"
proof (cases "list_all is_blank s")
  case True
  then show ?thesis by (simp add: trim_whitespace_def list_all_iff Let_def)
next
  case False
  let ?l = "takeWhile is_blank s" and ?d = "dropWhile is_blank s"
  have d: "?d \<noteq> []" "\<not> is_blank (hd ?d)"
    using False hd_dropWhile [of is_blank s] by (auto simp: list_all_iff dropWhile_eq_Nil_conv)
  have "hd ?d \<in> set (rev ?d)" using d by simp
  then have "dropWhile is_blank (rev ?d @ rev ?l) = dropWhile is_blank (rev ?d) @ rev ?l"
    using d(2) by (rule dropWhile_append1)
  moreover have "rev s = rev ?d @ rev ?l" by (metis rev_append takeWhile_dropWhile_id)
  ultimately have "rev (dropWhile is_blank (rev s)) = ?l @ trim_end ?d"
    using trim_end_strip [OF d] by simp
  then show ?thesis unfolding if_not_P [OF False] using d(1) by (simp only: trim_whitespace_def Let_def if_False)
qed

end
