(* ===== verification/Transport.thy ===== *)
theory Transport
  imports Messages
begin

text \<open>
  \<^verbatim>\<open>send_message\<close> and \<^verbatim>\<open>recv_message\<close> of \<^verbatim>\<open>common.c\<close>: a four-byte length in host order, then
  the serialised text, moved by as many \<^verbatim>\<open>send\<close> and \<^verbatim>\<open>recv\<close> calls as the kernel needs. The
  kernel is a script of call results, one consumed per call; a script that ends while the
  code still waits is a call that does not return (\<^const>\<open>None\<close>). The wire is the list of the
  bytes in flight.
\<close>

section \<open>Kernel results and framing\<close>

text \<open>
  \<^verbatim>\<open>Moved k\<close>: the call transferred \<^verbatim>\<open>k\<close> bytes (0 from \<^verbatim>\<open>recv\<close>: the peer has closed);
  \<^verbatim>\<open>Interrupted\<close>: -1 with \<^verbatim>\<open>EINTR\<close>; \<^verbatim>\<open>Broken\<close>: -1 with any other error.
\<close>

datatype io_result = Moved nat | Interrupted | Broken

definition int_bytes :: "32 word \<Rightarrow> string" where
  "int_bytes w = map (\<lambda>i. char_of (unat (drop_bit (8 * i) w) mod 256)) [0, 1, 2, 3]"

definition bytes_int :: "string \<Rightarrow> int" where
  "bytes_int bs = to_int32 (int (foldr (\<lambda>c a. of_char c + 256 * a) (take 4 bs) (0 :: nat)))"

fun send_loop :: "io_result list \<Rightarrow> string \<Rightarrow> (string \<times> int \<times> io_result list) option" where
  "send_loop rs [] = Some ([], 0, rs)"
| "send_loop [] (b # bs) = None"
| "send_loop (Moved k # rs) (b # bs) =
     map_option (\<lambda>(wire, ret, rs'). (take k (b # bs) @ wire, ret, rs')) (send_loop rs (drop k (b # bs)))"
| "send_loop (Interrupted # rs) (b # bs) = send_loop rs (b # bs)"
| "send_loop (Broken # rs) (b # bs) = Some ([], - 1, rs)"

text \<open>Only the sign of the result of sending the length is looked at.\<close>

fun send_message :: "io_result list \<Rightarrow> message \<Rightarrow> (string \<times> int \<times> io_result list) option" where
  "send_message [] m = None"
| "send_message (Moved k # rs) m =
     (let buffer = serialize_message m in
      map_option (\<lambda>(wire, ret, rs'). (take k (int_bytes (word_of_nat (length buffer))) @ wire, ret, rs'))
        (send_loop rs buffer))"
| "send_message (r # rs) m = Some ([], - 1, rs)"

fun recv_loop ::
  "io_result list \<Rightarrow> nat \<Rightarrow> string \<Rightarrow> (string option \<times> string \<times> io_result list) option" where
  "recv_loop rs 0 wire = Some (Some [], wire, rs)"
| "recv_loop [] (Suc n) wire = None"
| "recv_loop (Moved k # rs) (Suc n) wire =
     (if k = 0 then Some (None, wire, rs)
      else map_option (\<lambda>(got, wire', rs'). (map_option (\<lambda>b. take k wire @ b) got, wire', rs'))
             (recv_loop rs (Suc n - k) (drop k wire)))"
| "recv_loop (r # rs) (Suc n) wire = Some (None, wire, rs)"

text \<open>
  \<^verbatim>\<open>stack\<close> is what the uninitialised \<^verbatim>\<open>int len\<close> holds before the call: a short first \<^verbatim>\<open>recv\<close>
  overwrites only its first bytes. The result is the message, or \<^const>\<open>None\<close> for -1.
\<close>

fun recv_message ::
  "string \<Rightarrow> io_result list \<Rightarrow> string \<Rightarrow> (message option \<times> string \<times> io_result list) option" where
  "recv_message stack [] wire = None"
| "recv_message stack (Moved k # rs) wire =
     (if k = 0 then Some (None, wire, rs)
      else let len = bytes_int (take k wire @ drop k stack) in
        if len \<ge> int (MAX_BUFFER * 2) \<or> len \<le> 0 then Some (None, drop k wire, rs)
        else map_option (\<lambda>(got, wire', rs'). (map_option deserialize_message got, wire', rs'))
               (recv_loop rs (nat len) (drop k wire)))"
| "recv_message stack (r # rs) wire = Some (None, wire, rs)"

section \<open>Framing lemmas\<close>

lemma length_int_bytes [simp]: "length (int_bytes w) = 4"
  by (simp add: int_bytes_def)

lemma bytes_int_bytes:
  assumes "n < 65536"
  shows "bytes_int (int_bytes (word_of_nat n) @ later) = int n"
proof -
  have u: "unat (word_of_nat n :: 32 word) = n"
    using assms by (simp add: unat_of_nat)
  have z: "n div 65536 = 0" "n div 16777216 = 0" "n div 256 mod 256 = n div 256"
    using assms by (simp_all add: div_eq_0_iff less_mult_imp_div_less)
  have "int_bytes (word_of_nat n) = [char_of (n mod 256), char_of (n div 256), char_of (0 :: nat), char_of (0 :: nat)]"
    unfolding int_bytes_def unat_drop_bit_eq u by (simp add: drop_bit_eq_div z)
  then have "foldr (\<lambda>c a. of_char c + 256 * a) (take 4 (int_bytes (word_of_nat n) @ later)) (0 :: nat) =
        n mod 256 + 256 * (n div 256)"
    using z(3) by (simp add: mod_mod_trivial)
  also have "\<dots> = n" by simp
  finally show ?thesis using assms unfolding bytes_int_def by (simp add: to_int32_def)
qed

text \<open>Scripts that move exactly \<^verbatim>\<open>n\<close> bytes, in any number of pieces.\<close>

fun delivers :: "nat \<Rightarrow> io_result list \<Rightarrow> bool" where
  "delivers n [] \<longleftrightarrow> n = 0"
| "delivers n (Moved k # rs) \<longleftrightarrow> k \<le> n \<and> 0 < n \<and> delivers (n - k) rs"
| "delivers n (Interrupted # rs) \<longleftrightarrow> 0 < n \<and> delivers n rs"
| "delivers n (Broken # rs) \<longleftrightarrow> False"

fun receives :: "nat \<Rightarrow> io_result list \<Rightarrow> bool" where
  "receives n [] \<longleftrightarrow> n = 0"
| "receives n (Moved k # rs) \<longleftrightarrow> 0 < k \<and> k \<le> n \<and> receives (n - k) rs"
| "receives n (r # rs) \<longleftrightarrow> False"

lemma send_loop_delivers:
  "delivers (length buf) rs \<Longrightarrow> send_loop rs buf = Some (buf, 0, [])"
proof (induction rs buf rule: send_loop.induct)
  case (1 rs)
  then show ?case by (cases rs rule: list.exhaust [case_product io_result.exhaust]) (auto elim: delivers.elims)
qed (auto simp: Suc_diff_le)

lemma recv_loop_receives:
  "receives n rs \<Longrightarrow> n \<le> length wire \<Longrightarrow>
   recv_loop (rs @ later) n wire = Some (Some (take n wire), drop n wire, later)"
proof (induction rs arbitrary: n wire)
  case Nil
  then show ?case by (cases later) auto
next
  case (Cons r rs)
  from Cons.prems(1) obtain k where r: "r = Moved k" "0 < k" "k \<le> n" "receives (n - k) rs"
    by (cases r) auto
  then obtain n' where n: "n = Suc n'" by (cases n) auto
  have "take k wire @ take (n - k) (drop k wire) = take n wire"
    using r(3) by (simp flip: take_add)
  then show ?case
    using Cons.IH [OF r(4), of "drop k wire"] Cons.prems(2) r n by simp
qed

section \<open>Properties\<close>

text \<open>
  C39. A message whose fields hold no separator is received as its round trip through the wire format, and exactly
  its bytes are taken from the stream, so that messages sent in a row are received in a row. The body may move in
  any pieces on both sides, with interrupted calls between them on the sending side; the four bytes of
  the length have to move in one call on each side, since the code gives up a shorter one.
\<close>

theorem transport_delivers:
  assumes "message_ok m" and "bar_free m"
    and "delivers (length (serialize_message m)) ss" and "receives (length (serialize_message m)) rs"
  shows "\<exists>wire. send_message (Moved 4 # ss) m = Some (wire, 0, []) \<and>
           recv_message stack (Moved 4 # rs @ later) (wire @ rest) =
           Some (Some (m\<lparr>m_target_path := take 255 (m_target_path m)\<rparr>), rest, later)"
proof -
  let ?b = "serialize_message m"
  let ?hd = "int_bytes (word_of_nat (length ?b))"
  have len: "0 < length ?b" "length ?b < 16384" using serialize_length [OF assms(1)] by simp_all
  have "send_message (Moved 4 # ss) m = Some (?hd @ ?b, 0, [])"
    using send_loop_delivers [OF assms(3)] by (simp add: Let_def)
  moreover have "recv_message stack (Moved 4 # rs @ later) ((?hd @ ?b) @ rest) =
      Some (Some (deserialize_message ?b), rest, later)"
    using len bytes_int_bytes [of "length ?b"] recv_loop_receives [OF assms(4), of "?b @ rest"]
    by (simp add: Let_def)
  moreover have "deserialize_message ?b = m\<lparr>m_target_path := take 255 (m_target_path m)\<rparr>"
    using deserialize_serialize [OF assms(1,2)] by (simp add: c_copy_def)
  ultimately show ?thesis
    by (intro exI [of _ "?hd @ ?b"] conjI) (simp_all only:)
qed

theorem transport_delivers_witness:
  "\<exists>wire. send_message [Moved 4, Moved 10, Interrupted, Moved 18] init_message = Some (wire, 0, []) \<and>
     recv_message ''old!'' [Moved 4, Moved 20, Moved 8, Broken] (wire @ ''next'') =
     Some (Some init_message, ''next'', [Broken])"
  using transport_delivers [of init_message "[Moved 10, Interrupted, Moved 18]" "[Moved 20, Moved 8]" "''old!''" "[Broken]" "''next''"]
  by (simp add: message_ok_def bar_free_def init_message_def int32_def buffer_ok_def serialize_message_def
      show_int_def show_nat.simps del: send_message.simps recv_message.simps)

text \<open>
  The receive buffer is never overrun: whatever bytes and call results arrive, a message
  is only built from between 1 and 16383 payload bytes; any other announced length makes the
  call fail with nothing read after the length.
\<close>

theorem frame_length_guard:
  "case recv_message stack (Moved k # rs) wire of
     None \<Rightarrow> True
   | Some (None, wire', rs') \<Rightarrow> True
   | Some (Some m, wire', rs') \<Rightarrow>
       0 < k \<and> 0 < bytes_int (take k wire @ drop k stack) \<and>
       bytes_int (take k wire @ drop k stack) < 16384"
  by (auto simp: Let_def split: option.splits)

end
