(* ===== verification/TextParse.thy ===== *)
theory TextParse
  imports Prelude
begin

text \<open>
  The text layer of the storage server (\<^verbatim>\<open>file_ops.c\<close>): a file is parsed into sentences of
  tokens, where runs of blanks, newlines and sentence delimiters are tokens of their own,
  and written back by a rule that puts blanks between tokens. The allocation sizes of the
  arrays play no role here, because every store into them is preceded by the growth check.
\<close>

section \<open>Characters and tokens\<close>

type_synonym sentence = "string list"
type_synonym file_content = "sentence list"

definition is_space_char :: "char \<Rightarrow> bool" where
  "is_space_char c \<longleftrightarrow> c = SPACE \<or> c = TAB \<or> c = CR"

definition is_space_token :: "string \<Rightarrow> bool" where
  "is_space_token token \<longleftrightarrow> token \<noteq> [] \<and> list_all is_space_char token"

definition is_newline_token :: "string \<Rightarrow> bool" where
  "is_newline_token token \<longleftrightarrow> token = [NEWLINE]"

definition should_skip_for_indexing :: "string \<Rightarrow> bool" where
  "should_skip_for_indexing token \<longleftrightarrow> is_space_token token \<or> is_newline_token token"

definition is_delimiter :: "char \<Rightarrow> bool" where
  "is_delimiter c \<longleftrightarrow> c = CHR ''.'' \<or> c = CHR ''!'' \<or> c = CHR ''?''"

text \<open>\<^verbatim>\<open>is_delimiter(token[0])\<close>; the first character of an empty token is its terminator.\<close>

definition starts_delim :: "string \<Rightarrow> bool" where
  "starts_delim token \<longleftrightarrow> (case token of [] \<Rightarrow> False | c # _ \<Rightarrow> is_delimiter c)"

section \<open>Parsing\<close>

text \<open>
  The loop of \<^verbatim>\<open>parse_file\<close>: the rest of the file, the word buffer, the words of the current
  sentence and the finished sentences. \<^verbatim>\<open>strdup\<close> cuts a token at a NUL byte. A trailing
  empty sentence is not counted.
\<close>

definition flush_word :: "string \<Rightarrow> sentence \<Rightarrow> sentence" where
  "flush_word word words = (if word = [] then words else words @ [c_str word])"

function parse_loop :: "string \<Rightarrow> string \<Rightarrow> sentence \<Rightarrow> file_content \<Rightarrow> file_content" where
  "parse_loop [] word cur sents =
     (let cur' = flush_word word cur in if cur' = [] then sents else sents @ [cur'])"
| "parse_loop (c # cs) word cur sents =
     (if is_space_char c
      then parse_loop (dropWhile is_space_char cs) []
             (flush_word word cur @ [take (MAX_WORD - 1) (c # takeWhile is_space_char cs)]) sents
      else if c = NEWLINE
      then parse_loop cs [] (flush_word word cur @ [[NEWLINE]]) sents
      else if is_delimiter c
      then parse_loop cs [] [] (sents @ [flush_word word cur @ [[c]]])
      else let word' = word @ [c] in
        if length word' \<ge> MAX_WORD - 1
        then parse_loop cs [] (cur @ [c_str word']) sents
        else parse_loop cs word' cur sents)"
  by pat_completeness auto
termination
  by (relation "measure (\<lambda>(s, _). length s)") (auto simp: le_imp_less_Suc length_dropWhile_le)

definition parse_file :: "string \<Rightarrow> file_content" where
  "parse_file bytes = parse_loop bytes [] [] []"

section \<open>Writing\<close>

definition word_gap :: "string \<Rightarrow> string \<Rightarrow> string" where
  "word_gap cur nxt =
     (if is_space_token cur \<or> is_space_token nxt \<or> is_newline_token cur \<or> is_newline_token nxt then []
      else if starts_delim cur \<or> starts_delim nxt then []
      else [SPACE])"

definition sentence_gap :: "sentence \<Rightarrow> sentence \<Rightarrow> string" where
  "sentence_gap s nxt =
     (if s = [] then []
      else if is_newline_token (last s) \<or> is_space_token (last s) then []
      else (case nxt of
              [] \<Rightarrow> [SPACE]
            | first_next # _ \<Rightarrow>
                if is_space_token first_next \<or> is_newline_token first_next then [] else [SPACE]))"

fun write_words :: "sentence \<Rightarrow> string" where
  "write_words [] = []"
| "write_words [w] = w"
| "write_words (w # v # ws) = w @ word_gap w v @ write_words (v # ws)"

fun write_file_content :: "file_content \<Rightarrow> string" where
  "write_file_content [] = []"
| "write_file_content [s] = write_words s"
| "write_file_content (s # t # ss) = write_words s @ sentence_gap s t @ write_file_content (t # ss)"

text \<open>
  \<^verbatim>\<open>file_content_to_string\<close>: the same layout into an 8192-byte buffer. A token that does not
  fit is skipped with its gap, but the blank between sentences is stored without a check;
  \<^const>\<open>None\<close> is a store outside the buffer.
\<close>

fun string_words :: "sentence \<Rightarrow> string \<Rightarrow> string" where
  "string_words [] result = result"
| "string_words (w # ws) result =
     (if length result + length w + 2 < MAX_BUFFER
      then string_words ws (result @ w @ (case ws of [] \<Rightarrow> [] | v # _ \<Rightarrow> word_gap w v))
      else string_words ws result)"

fun string_sentences :: "file_content \<Rightarrow> string \<Rightarrow> string option" where
  "string_sentences [] result = (if length result < MAX_BUFFER then Some result else None)"
| "string_sentences (s # ss) result =
     (let r = string_words s result;
          r' = r @ (case ss of [] \<Rightarrow> [] | t # _ \<Rightarrow> sentence_gap s t)
      in if length r' \<le> MAX_BUFFER then string_sentences ss r' else None)"

definition file_content_to_string :: "file_content \<Rightarrow> string option" where
  "file_content_to_string fc = string_sentences fc []"

section \<open>Statistics\<close>

fun stats_loop :: "string \<Rightarrow> bool \<Rightarrow> nat \<Rightarrow> nat \<Rightarrow> nat \<times> nat" where
  "stats_loop [] in_word words chars = ((if in_word then words + 1 else words), chars)"
| "stats_loop (c # cs) in_word words chars =
     (if c = SPACE \<or> c = TAB \<or> c = NEWLINE \<or> c = CR \<or> is_delimiter c
      then stats_loop cs False (if in_word then words + 1 else words) (chars + 1)
      else stats_loop cs True words (chars + 1))"

definition get_file_stats :: "string option \<Rightarrow> nat \<times> nat" where
  "get_file_stats bytes = (case bytes of None \<Rightarrow> (0, 0) | Some s \<Rightarrow> stats_loop s False 0 0)"

section \<open>The token stream\<close>

text \<open>
  The parser, seen without its grouping into sentences, is a lexer. A sentence ends exactly
  after a delimiter token.
\<close>

definition ordinary :: "char \<Rightarrow> bool" where
  "ordinary c \<longleftrightarrow> \<not> is_space_char c \<and> c \<noteq> NEWLINE \<and> \<not> is_delimiter c"

definition is_delim_token :: "string \<Rightarrow> bool" where
  "is_delim_token t \<longleftrightarrow> length t = 1 \<and> starts_delim t"

function lex :: "string \<Rightarrow> string \<Rightarrow> string list" where
  "lex [] word = flush_word word []"
| "lex (c # cs) word =
     (if is_space_char c
      then flush_word word [] @ take 127 (c # takeWhile is_space_char cs) # lex (dropWhile is_space_char cs) []
      else if c = NEWLINE \<or> is_delimiter c then flush_word word [] @ [c] # lex cs []
      else if length word \<ge> 126 then c_str (word @ [c]) # lex cs []
      else lex cs (word @ [c]))"
  by pat_completeness auto
termination
  by (relation "measure (\<lambda>(s, _). length s)") (auto simp: le_imp_less_Suc length_dropWhile_le)

fun group :: "sentence \<Rightarrow> string list \<Rightarrow> file_content" where
  "group cur [] = (if cur = [] then [] else [cur])"
| "group cur (t # ts) = (if is_delim_token t then (cur @ [t]) # group [] ts else group (cur @ [t]) ts)"

lemma delim_not_space: "is_delimiter c \<Longrightarrow> \<not> is_space_char c \<and> c \<noteq> NEWLINE \<and> c \<noteq> NUL"
  by (auto simp: is_delimiter_def is_space_char_def)

lemma starts_delim_simps [simp]: "\<not> starts_delim []" "starts_delim (c # cs) \<longleftrightarrow> is_delimiter c"
  by (simp_all add: starts_delim_def)

lemma delim_token_simps [simp]:
  "\<not> is_delim_token []" "is_delim_token [c] \<longleftrightarrow> is_delimiter c" "\<not> is_delim_token (c # d # cs)"
  by (simp_all add: is_delim_token_def)

lemma c_str_subset: "set (c_str s) \<subseteq> set s"
  by (auto simp: c_str_def dest: set_takeWhileD)

lemma ordinary_no_delim:
  "list_all ordinary w \<Longrightarrow> \<not> starts_delim (c_str w) \<and> \<not> is_delim_token (c_str w)"
  using c_str_subset [of w]
  by (cases "c_str w") (auto simp: list_all_iff ordinary_def is_delim_token_def)

lemma group_flush [simp]:
  "list_all ordinary w \<Longrightarrow> group cur (flush_word w [] @ ts) = group (flush_word w cur) ts"
  using ordinary_no_delim [of w] by (simp add: flush_word_def)

lemma space_run_not_delim: "is_space_char c \<Longrightarrow> \<not> is_delim_token (take 127 (c # cs))"
  by (cases cs) (auto dest: delim_not_space simp: take_Cons')

lemma parse_lex:
  "list_all ordinary w \<Longrightarrow> parse_loop s w cur sents = sents @ group cur (lex s w)"
proof (induction s w cur sents rule: parse_loop.induct)
  case (1 word cur sents)
  then show ?case using group_flush [OF 1, of cur "[]"] by (simp add: Let_def)
next
  case (2 c cs word cur sents)
  show ?case
  proof (cases "ordinary c")
    case True
    then have w: "list_all ordinary (word @ [c])" using "2.prems" by simp
    have c: "\<not> is_space_char c" "c \<noteq> NEWLINE" "\<not> is_delimiter c"
      using True by (simp_all add: ordinary_def)
    show ?thesis
      using 2 w c ordinary_no_delim [OF w] by (simp add: Let_def)
  next
    case False
    then consider "is_space_char c" | "\<not> is_space_char c" "c = NEWLINE"
      | "\<not> is_space_char c" "c \<noteq> NEWLINE" "is_delimiter c"
      by (auto simp: ordinary_def)
    then show ?thesis
    proof cases
      case 1
      then show ?thesis using 2(1) "2.prems" space_run_not_delim [OF 1] by simp
    next
      case c: 2
      have "\<not> is_delimiter NEWLINE" by (simp add: is_delimiter_def)
      then show ?thesis using 2(2) "2.prems" c by simp
    next
      case 3
      then show ?thesis using 2(3) "2.prems" by simp
    qed
  qed
qed

lemma parse_file_lex: "parse_file s = group [] (lex s [])"
  by (simp add: parse_file_def parse_lex)

section \<open>Rendering the token stream\<close>

definition is_blank_token :: "string \<Rightarrow> bool" where
  "is_blank_token t \<longleftrightarrow> is_space_token t \<or> is_newline_token t"

definition flat_gap :: "string \<Rightarrow> string \<Rightarrow> string" where
  "flat_gap t u =
     (if is_blank_token t \<or> is_blank_token u then []
      else if is_delim_token t then [SPACE]
      else if is_delim_token u then [] else [SPACE])"

fun render :: "string list \<Rightarrow> string" where
  "render [] = []"
| "render [t] = t"
| "render (t # u # ts) = t @ flat_gap t u @ render (u # ts)"

lemma word_gap_flat:
  "(starts_delim t \<longrightarrow> is_delim_token t) \<Longrightarrow> \<not> is_delim_token t \<Longrightarrow>
   (starts_delim u \<longrightarrow> is_delim_token u) \<Longrightarrow> word_gap t u = flat_gap t u"
  by (auto simp: word_gap_def flat_gap_def is_blank_token_def is_delim_token_def)

lemma render_append:
  "xs \<noteq> [] \<Longrightarrow> ys \<noteq> [] \<Longrightarrow> render (xs @ ys) = render xs @ flat_gap (last xs) (hd ys) @ render ys"
proof (induction xs rule: render.induct)
  case (2 t)
  then show ?case by (cases ys) auto
qed auto

lemma render_words:
  "list_all (\<lambda>t. starts_delim t \<longrightarrow> is_delim_token t) ws \<Longrightarrow>
   list_all (\<lambda>t. \<not> is_delim_token t) (butlast ws) \<Longrightarrow> write_words ws = render ws"
  by (induction ws rule: write_words.induct) (simp_all add: word_gap_flat)

lemma delim_not_blank: "is_delim_token t \<Longrightarrow> \<not> is_blank_token t"
  by (cases t rule: list.exhaust; cases "tl t")
     (auto simp: is_delim_token_def is_blank_token_def is_space_token_def is_newline_token_def dest: delim_not_space)

lemma group_hd:
  "cur @ ts \<noteq> [] \<Longrightarrow>
   group cur ts \<noteq> [] \<and> hd (group cur ts) \<noteq> [] \<and> hd (hd (group cur ts)) = hd (cur @ ts)"
  by (induction ts arbitrary: cur) (auto simp: hd_append split: if_splits)

lemma concat_group: "concat (group cur ts) = cur @ ts"
  by (induction ts arbitrary: cur) auto

lemma write_group:
  assumes "list_all (\<lambda>t. starts_delim t \<longrightarrow> is_delim_token t) (cur @ ts)"
    and "list_all (\<lambda>t. \<not> is_delim_token t) cur"
  shows "write_file_content (group cur ts) = render (cur @ ts)"
  using assms
proof (induction ts arbitrary: cur)
  case Nil
  then have "list_all (\<lambda>t. \<not> is_delim_token t) (butlast cur)"
    by (auto simp: list_all_iff dest: in_set_butlastD)
  then show ?case using Nil render_words [of cur] by auto
next
  case (Cons t ts)
  show ?case
  proof (cases "is_delim_token t")
    case False
    then show ?thesis using Cons.IH [of "cur @ [t]"] Cons.prems by simp
  next
    case True
    have s: "write_words (cur @ [t]) = render (cur @ [t])"
      using Cons.prems by (intro render_words) simp_all
    have rest: "write_file_content (group [] ts) = render ts"
      using Cons.IH [of "[]"] Cons.prems by simp
    show ?thesis
    proof (cases "ts = []")
      case True
      with s \<open>is_delim_token t\<close> show ?thesis by simp
    next
      case False
      then obtain g gs where g: "group [] ts = g # gs" "g \<noteq> []" "hd g = hd ts"
        using group_hd [of "[]" ts] by (cases "group [] ts") auto
      have "sentence_gap (cur @ [t]) g = flat_gap t (hd ts)"
        using g(2,3) delim_not_blank [OF True] True
        by (cases g) (auto simp: sentence_gap_def flat_gap_def is_blank_token_def)
      then show ?thesis
        using True g s rest False render_append [of "cur @ [t]" ts] by simp
    qed
  qed
qed

lemma lex_starts_delim:
  "list_all ordinary w \<Longrightarrow> list_all (\<lambda>t. starts_delim t \<longrightarrow> is_delim_token t) (lex s w)"
proof (induction s w rule: lex.induct)
  case (1 word)
  then show ?case using ordinary_no_delim [of word] by (simp add: flush_word_def)
next
  case (2 c cs word)
  have f: "list_all (\<lambda>t. starts_delim t \<longrightarrow> is_delim_token t) (flush_word word [])"
    using ordinary_no_delim [OF "2.prems"] by (simp add: flush_word_def)
  show ?case
  proof (cases "ordinary c")
    case True
    then have w: "list_all ordinary (word @ [c])" using "2.prems" by simp
    have "\<not> is_space_char c" "c \<noteq> NEWLINE" "\<not> is_delimiter c"
      using True by (simp_all add: ordinary_def)
    then show ?thesis using 2 w ordinary_no_delim [OF w] by simp
  next
    case False
    then show ?thesis
      using 2 f delim_not_space [of c] by (auto simp: ordinary_def take_Cons')
  qed
qed

lemma write_parse: "write_file_content (parse_file s) = render (lex s [])"
  using write_group [of "[]" "lex s []"] lex_starts_delim [of "[]" s] by (simp add: parse_file_lex)

section \<open>What survives a parse and write\<close>

definition visible :: "char \<Rightarrow> bool" where
  "visible c \<longleftrightarrow> \<not> is_space_char c"

lemma space_not_visible [simp]: "\<not> visible SPACE"
  by (simp add: visible_def is_space_char_def)

lemma render_visible: "filter visible (render ts) = filter visible (concat ts)"
  by (induction ts rule: render.induct) (auto simp: flat_gap_def)

lemma filter_space_run: "filter visible (take n (takeWhile is_space_char s)) = []"
  by (auto simp: filter_empty_conv visible_def dest: in_set_takeD set_takeWhileD)

lemma filter_dropWhile_space: "filter visible (dropWhile is_space_char s) = filter visible s"
  by (induction s) (auto simp: visible_def)

lemma concat_flush: "NUL \<notin> set w \<Longrightarrow> concat (flush_word w []) = w"
  by (simp add: flush_word_def c_str_no_nul)

lemma lex_visible:
  "NUL \<notin> set w \<Longrightarrow> NUL \<notin> set s \<Longrightarrow> filter visible (concat (lex s w)) = filter visible (w @ s)"
proof (induction s w rule: lex.induct)
  case (1 word)
  then show ?case by (simp add: concat_flush)
next
  case (2 c cs word)
  have "NUL \<notin> set (dropWhile is_space_char cs)" using "2.prems"(2) by (auto dest: set_dropWhileD)
  moreover have "\<not> visible c" if "is_space_char c" using that by (simp add: visible_def)
  ultimately show ?case
    using 2 by (auto simp: concat_flush c_str_no_nul take_Cons' filter_space_run filter_dropWhile_space)
qed

section \<open>Well-spaced text\<close>

text \<open>
  Text that the parser and writer leave alone: a delimiter is followed by a blank, a
  newline or the end of the file, and neither a run of blanks nor a run of ordinary
  characters is longer than 127.
\<close>

fun delims_spaced :: "string \<Rightarrow> bool" where
  "delims_spaced (c # d # cs) \<longleftrightarrow>
     (is_delimiter c \<longrightarrow> is_space_char d \<or> d = NEWLINE) \<and> delims_spaced (d # cs)"
| "delims_spaced cs \<longleftrightarrow> True"

fun longest_run :: "(char \<Rightarrow> bool) \<Rightarrow> nat \<Rightarrow> string \<Rightarrow> nat" where
  "longest_run P k [] = k"
| "longest_run P k (c # cs) = (if P c then longest_run P (Suc k) cs else max k (longest_run P 0 cs))"

definition well_spaced :: "string \<Rightarrow> bool" where
  "well_spaced s \<longleftrightarrow>
     delims_spaced s \<and> longest_run is_space_char 0 s \<le> 127 \<and> longest_run ordinary 0 s \<le> 127"

lemma longest_run_ge: "k \<le> longest_run P k s"
  by (induction P k s rule: longest_run.induct) auto

lemma longest_run_all: "list_all P t \<Longrightarrow> longest_run P k (t @ r) = longest_run P (k + length t) r"
  by (induction t arbitrary: k) auto

lemma longest_run_none:
  "list_all (\<lambda>c. \<not> P c) t \<Longrightarrow> t \<noteq> [] \<Longrightarrow> longest_run P k (t @ r) = max k (longest_run P 0 r)"
proof (induction t arbitrary: k)
  case (Cons c t)
  then show ?case by (cases "t = []") auto
qed simp

lemma delims_spaced_append:
  "list_all (\<lambda>c. \<not> is_delimiter c) t \<Longrightarrow> delims_spaced (t @ r) = delims_spaced r"
proof (induction t)
  case (Cons c t)
  then show ?case by (cases "t @ r") auto
qed simp

text \<open>The tokens the lexer produces from NUL-free text, and how they can be adjacent.\<close>

definition lexeme :: "string \<Rightarrow> bool" where
  "lexeme t \<longleftrightarrow> is_delim_token t \<or> is_newline_token t \<or> is_space_token t \<and> length t \<le> 127 \<or>
     t \<noteq> [] \<and> list_all ordinary t \<and> length t \<le> 127"

fun lexemes :: "string list \<Rightarrow> bool" where
  "lexemes (t # u # ts) \<longleftrightarrow> lexeme t \<and> \<not> (is_space_token t \<and> is_space_token u) \<and> lexemes (u # ts)"
| "lexemes [t] \<longleftrightarrow> lexeme t"
| "lexemes [] \<longleftrightarrow> True"

lemma lexemes_Cons:
  "lexemes (t # ts) \<longleftrightarrow> lexeme t \<and> (ts \<noteq> [] \<longrightarrow> \<not> (is_space_token t \<and> is_space_token (hd ts))) \<and> lexemes ts"
  by (cases ts) auto

lemma lexemes_hd: "lexemes (t # ts) \<Longrightarrow> lexeme t"
  by (simp add: lexemes_Cons)

lemma word_not_space: "list_all ordinary w \<Longrightarrow> \<not> is_space_token w"
  by (cases w) (auto simp: is_space_token_def ordinary_def)

lemma lex_hd_not_space:
  "list_all ordinary w \<Longrightarrow> NUL \<notin> set w \<Longrightarrow> NUL \<notin> set s \<Longrightarrow> w \<noteq> [] \<or> (s \<noteq> [] \<longrightarrow> \<not> is_space_char (hd s)) \<Longrightarrow>
   lex s w \<noteq> [] \<Longrightarrow> \<not> is_space_token (hd (lex s w))"
proof (induction s w rule: lex.induct)
  case (1 word)
  then show ?case by (auto simp: flush_word_def c_str_no_nul word_not_space split: if_splits)
next
  case (2 c cs word)
  have w: "\<not> is_space_token (hd (flush_word word []))" if "word \<noteq> []"
    using that 2 by (simp add: flush_word_def c_str_no_nul word_not_space)
  show ?case
  proof (cases "ordinary c")
    case True
    then have "list_all ordinary (word @ [c])" using "2.prems" by simp
    moreover from this have "\<not> is_space_token (c_str (word @ [c]))"
      using "2.prems" by (simp add: c_str_no_nul word_not_space)
    moreover have "\<not> is_space_char c" "c \<noteq> NEWLINE" "\<not> is_delimiter c"
      using True by (simp_all add: ordinary_def)
    ultimately show ?thesis using 2 by auto
  next
    case False
    have "\<not> is_space_char c \<Longrightarrow> \<not> is_space_token [c]" by (simp add: is_space_token_def)
    then show ?thesis
      using 2 w False by (cases "word = []") (auto simp: ordinary_def flush_word_def)
  qed
qed

lemma lexemes_word: "w \<noteq> [] \<Longrightarrow> list_all ordinary w \<Longrightarrow> length w \<le> 127 \<Longrightarrow> NUL \<notin> set w \<Longrightarrow>
    lexemes ts \<Longrightarrow> lexemes (flush_word w [] @ ts)"
  by (simp add: flush_word_def c_str_no_nul lexemes_Cons word_not_space) (simp add: lexeme_def)

lemma lexemes_flush: "list_all ordinary w \<Longrightarrow> length w \<le> 127 \<Longrightarrow> NUL \<notin> set w \<Longrightarrow>
    lexemes ts \<Longrightarrow> lexemes (flush_word w [] @ ts)"
  by (cases "w = []") (simp_all add: lexemes_word, simp add: flush_word_def)

lemma space_run_lexeme:
  "is_space_char c \<Longrightarrow> is_space_token (take 127 (c # takeWhile is_space_char cs)) \<and>
   length (take 127 (c # takeWhile is_space_char cs)) \<le> 127"
  by (auto simp: is_space_token_def take_Cons' list_all_iff dest: in_set_takeD set_takeWhileD)

lemma lex_lexemes:
  "list_all ordinary w \<Longrightarrow> length w < 127 \<Longrightarrow> NUL \<notin> set w \<Longrightarrow> NUL \<notin> set s \<Longrightarrow> lexemes (lex s w)"
proof (induction s w rule: lex.induct)
  case (1 word)
  then show ?case using lexemes_flush [of word "[]"] by simp
next
  case (2 c cs word)
  show ?case
  proof (cases "ordinary c")
    case True
    then have w: "list_all ordinary (word @ [c])" using "2.prems" by simp
    have c: "\<not> is_space_char c" "c \<noteq> NEWLINE" "\<not> is_delimiter c"
      using True by (simp_all add: ordinary_def)
    show ?thesis
      using 2 w c lexemes_word [of "word @ [c]" "lex cs []"]
      by (auto simp: flush_word_def not_le)
  next
    case False
    show ?thesis
    proof (cases "is_space_char c")
      case True
      let ?run = "take 127 (c # takeWhile is_space_char cs)" and ?cs = "dropWhile is_space_char cs"
      have nul: "NUL \<notin> set ?cs" using "2.prems" by (auto dest: set_dropWhileD)
      have hd: "lex ?cs [] \<noteq> [] \<Longrightarrow> \<not> is_space_token (hd (lex ?cs []))"
        using lex_hd_not_space [of "[]" ?cs] nul hd_dropWhile [of is_space_char cs] by auto
      have "lexemes (?run # lex ?cs [])"
        using 2(1) [OF True] nul space_run_lexeme [OF True, of cs] hd
        by (auto simp: lexemes_Cons lexeme_def simp del: take_Suc_Cons)
      then show ?thesis using lexemes_flush [of word] 2 True by simp
    next
      case ns: False
      have "lexemes ([c] # lex cs [])"
        using False ns 2 by (auto simp: lexemes_Cons lexeme_def ordinary_def is_newline_token_def is_space_token_def)
      then show ?thesis using lexemes_flush [of word] 2 ns False by (auto simp: ordinary_def)
    qed
  qed
qed

lemma render_hd: "t \<noteq> [] \<Longrightarrow> render (t # ts) \<noteq> [] \<and> hd (render (t # ts)) = hd t"
  by (cases ts) auto

lemma longest_run_stop:
  "(r \<noteq> [] \<longrightarrow> \<not> P (hd r)) \<Longrightarrow> longest_run P k r = max k (longest_run P 0 r)"
  by (cases r) auto

text \<open>The four kinds of lexeme, by their characters.\<close>

lemma lexeme_cases [consumes 1, case_names delim newline space word]:
  assumes "lexeme t"
  obtains c where "t = [c]" "is_delimiter c" "\<not> is_space_char c" "c \<noteq> NEWLINE"
  | "t = [NEWLINE]"
  | "is_space_token t" "t \<noteq> []" "list_all is_space_char t" "length t \<le> 127"
  | "t \<noteq> []" "list_all ordinary t" "length t \<le> 127"
  using assms delim_not_space
  by (auto simp: lexeme_def is_delim_token_def is_newline_token_def is_space_token_def
      length_Suc_conv numeral_2_eq_2)

lemma class_facts:
  "is_space_char c \<Longrightarrow> \<not> ordinary c \<and> \<not> is_delimiter c \<and> c \<noteq> NEWLINE"
  "is_delimiter c \<Longrightarrow> \<not> ordinary c"
  "\<not> ordinary NEWLINE" "\<not> is_delimiter NEWLINE" "\<not> is_space_char NEWLINE"
  "is_space_char SPACE" "\<not> ordinary SPACE" "\<not> is_delimiter SPACE"
  by (auto simp: ordinary_def is_delimiter_def is_space_char_def)

lemma gap_cases:
  "flat_gap t u = [] \<and> (is_blank_token t \<or> is_blank_token u \<or> \<not> is_delim_token t \<and> is_delim_token u) \<or>
   flat_gap t u = [SPACE] \<and> \<not> is_blank_token t \<and> \<not> is_blank_token u"
  by (auto simp: flat_gap_def)

lemma lexeme_hd:
  assumes "lexeme u"
  shows "u \<noteq> []" and "is_space_token u \<longleftrightarrow> is_space_char (hd u)"
    and "is_newline_token u \<longleftrightarrow> hd u = NEWLINE" and "is_delim_token u \<longleftrightarrow> is_delimiter (hd u)"
  using assms
  by (cases u rule: lexeme_cases;
      force simp: is_space_token_def is_newline_token_def is_delim_token_def starts_delim_def
        class_facts ordinary_def neq_Nil_conv length_Suc_conv)+

lemma word_token:
  assumes "list_all ordinary w" and "w \<noteq> []"
  shows "\<not> is_blank_token w" and "\<not> is_delim_token w"
  using assms
  by (cases w; auto simp: is_blank_token_def is_space_token_def is_newline_token_def is_delim_token_def
      ordinary_def)+

lemma lexeme_no_delim: "lexeme t \<Longrightarrow> \<not> is_delim_token t \<Longrightarrow> list_all (\<lambda>c. \<not> is_delimiter c) t"
  by (cases t rule: lexeme_cases) (auto simp: class_facts list_all_iff ordinary_def)

lemma lexeme_no_space: "lexeme t \<Longrightarrow> \<not> is_space_token t \<Longrightarrow> list_all (\<lambda>c. \<not> is_space_char c) t"
  by (cases t rule: lexeme_cases) (auto simp: class_facts list_all_iff ordinary_def)

lemma lexeme_space: "lexeme t \<Longrightarrow> is_space_token t \<Longrightarrow> list_all is_space_char t \<and> length t \<le> 127"
  by (erule lexeme_cases)
     (use word_token(1) [of t] in \<open>auto simp: is_space_token_def is_blank_token_def class_facts\<close>)

lemma lexeme_not_word: "lexeme t \<Longrightarrow> is_blank_token t \<or> is_delim_token t \<Longrightarrow> list_all (\<lambda>c. \<not> ordinary c) t"
  by (erule lexeme_cases) (use word_token [of t] in \<open>auto simp: class_facts list_all_iff\<close>)

lemma lexeme_word: "lexeme t \<Longrightarrow> \<not> is_blank_token t \<Longrightarrow> \<not> is_delim_token t \<Longrightarrow> list_all ordinary t \<and> length t \<le> 127"
  by (auto simp: lexeme_def is_blank_token_def)

lemma gap_no_delim: "list_all (\<lambda>c. \<not> is_delimiter c) (flat_gap t u)"
  by (simp add: flat_gap_def class_facts)

lemma render_delims: "lexemes ts \<Longrightarrow> delims_spaced (render ts)"
proof (induction ts rule: render.induct)
  case (2 t)
  then have "lexeme t" by simp
  then show ?case
    using delims_spaced_append [of t "[]"]
    by (cases rule: lexeme_cases) (auto simp: class_facts list_all_iff ordinary_def)
next
  case (3 t u ts)
  then have t: "lexeme t" and u: "lexeme u" and IH: "delims_spaced (render (u # ts))"
    by (auto dest: lexemes_hd)
  obtain d r where r: "render (u # ts) = d # r" "d = hd u"
    using render_hd [OF lexeme_hd(1) [OF u], of ts] by (cases "render (u # ts)") auto
  show ?case
  proof (cases "is_delim_token t")
    case True
    then obtain c where "t = [c]" "is_delimiter c"
      by (auto simp: is_delim_token_def starts_delim_def length_Suc_conv)
    then show ?thesis
      using gap_cases [of t u] IH r lexeme_hd [OF u] delim_not_blank [OF True]
      by (auto simp: is_blank_token_def class_facts)
  next
    case False
    then show ?thesis
      using IH delims_spaced_append [of "t @ flat_gap t u" "render (u # ts)"]
        lexeme_no_delim [OF t False] gap_no_delim [of t u] by simp
  qed
qed simp

lemma render_space_runs: "lexemes ts \<Longrightarrow> longest_run is_space_char 0 (render ts) \<le> 127"
proof (induction ts rule: render.induct)
  case (2 t)
  then have "lexeme t" by simp
  then show ?case
    using longest_run_all [of is_space_char t 0 "[]"] longest_run_none [of is_space_char t 0 "[]"]
    by (cases rule: lexeme_cases) (auto simp: class_facts list_all_iff ordinary_def)
next
  case (3 t u ts)
  let ?r = "render (u # ts)"
  from 3 have t: "lexeme t" and u: "lexeme u" and IH: "longest_run is_space_char 0 ?r \<le> 127"
    and adj: "\<not> (is_space_token t \<and> is_space_token u)" by (auto dest: lexemes_hd)
  have r: "?r \<noteq> []" "hd ?r = hd u" using render_hd [OF lexeme_hd(1) [OF u]] by simp_all
  show ?case
  proof (cases "is_space_token t")
    case True
    have "flat_gap t u = []" using True by (simp add: flat_gap_def is_blank_token_def)
    moreover have "list_all is_space_char t" "length t \<le> 127"
      using lexeme_space [OF t True] by simp_all
    moreover have "longest_run is_space_char (length t) ?r = max (length t) (longest_run is_space_char 0 ?r)"
      using adj True r lexeme_hd(2) [OF u] by (intro longest_run_stop) simp
    ultimately show ?thesis using IH by (simp add: longest_run_all)
  next
    case False
    then have "list_all (\<lambda>c. \<not> is_space_char c) t" by (rule lexeme_no_space [OF t])
    moreover have "longest_run is_space_char 0 (flat_gap t u @ ?r) \<le> 127"
      using gap_cases [of t u]
    proof
      assume "flat_gap t u = [SPACE] \<and> \<not> is_blank_token t \<and> \<not> is_blank_token u"
      then show ?thesis
        using longest_run_stop [of ?r is_space_char 1] IH r lexeme_hd(2) [OF u]
        by (simp add: class_facts is_blank_token_def)
    qed (use IH in simp)
    ultimately show ?thesis
      using lexeme_hd(1) [OF t] by (simp add: longest_run_none)
  qed
qed simp

lemma render_word_runs: "lexemes ts \<Longrightarrow> longest_run ordinary 0 (render ts) \<le> 127"
proof (induction ts rule: render.induct)
  case (2 t)
  then have "lexeme t" by simp
  then show ?case
    using longest_run_all [of ordinary t 0 "[]"] longest_run_none [of ordinary t 0 "[]"]
    by (cases rule: lexeme_cases) (auto simp: class_facts list_all_iff)
next
  case (3 t u ts)
  let ?r = "render (u # ts)"
  from 3 have t: "lexeme t" and u: "lexeme u" and IH: "longest_run ordinary 0 ?r \<le> 127"
    by (auto dest: lexemes_hd)
  have r: "?r \<noteq> []" "hd ?r = hd u" using render_hd [OF lexeme_hd(1) [OF u]] by simp_all
  have g: "longest_run ordinary k (flat_gap t u @ ?r) \<le> 127"
    if "k \<le> 127" "k = 0 \<or> \<not> is_blank_token t \<and> \<not> is_delim_token t" for k
    using gap_cases [of t u]
  proof
    assume "flat_gap t u = [SPACE] \<and> \<not> is_blank_token t \<and> \<not> is_blank_token u"
    then show ?thesis using that IH by (simp add: class_facts)
  next
    assume "flat_gap t u = [] \<and> (is_blank_token t \<or> is_blank_token u \<or> \<not> is_delim_token t \<and> is_delim_token u)"
    then show ?thesis
      using that IH r lexeme_hd [OF u] longest_run_stop [of ?r ordinary k]
      by (auto simp: is_blank_token_def class_facts)
  qed
  show ?case
  proof (cases "is_blank_token t \<or> is_delim_token t")
    case True
    then show ?thesis
      using g [of 0] lexeme_hd(1) [OF t] lexeme_not_word [OF t] by (simp add: longest_run_none)
  next
    case False
    then show ?thesis
      using g [of "length t"] lexeme_word [OF t] by (simp add: longest_run_all)
  qed
qed simp

lemma render_well_spaced: "lexemes ts \<Longrightarrow> well_spaced (render ts)"
  by (simp add: well_spaced_def render_delims render_space_runs render_word_runs)

lemma render_blank: "is_blank_token b \<Longrightarrow> render (b # ts) = b @ render ts"
  by (cases ts) (auto simp: flat_gap_def)

lemma render_flush:
  assumes "list_all ordinary w" and "NUL \<notin> set w" and "is_blank_token u \<or> is_delim_token u"
  shows "render (flush_word w [] @ u # ts) = w @ render (u # ts)"
proof (cases "w = []")
  case False
  then have "flat_gap w u = []"
    using assms(3) word_token [OF assms(1) False] by (auto simp: flat_gap_def)
  then show ?thesis using False assms(2) by (simp add: flush_word_def c_str_no_nul)
qed (simp add: flush_word_def)

lemma lex_first:
  "\<not> ordinary d \<Longrightarrow> \<exists>t ts. lex (d # r) [] = t # ts \<and>
     (is_blank_token t \<and> (is_space_char d \<or> d = NEWLINE) \<or> is_delim_token t \<and> is_delimiter d)"
  using space_run_lexeme [of d r]
  by (cases "is_space_char d")
     (auto simp: flush_word_def is_blank_token_def is_newline_token_def ordinary_def)

lemma longest_run_prefix: "k + length (takeWhile P s) \<le> longest_run P k s"
proof (induction s arbitrary: k)
  case (Cons c s)
  then show ?case using Cons [of "Suc k"] longest_run_ge [of k P "c # s"] by auto
qed simp

lemma longest_run_dropWhile: "longest_run Q 0 (dropWhile P s) \<le> longest_run Q k s"
proof (induction s arbitrary: k)
  case (Cons c s)
  have mono: "i \<le> j \<Longrightarrow> longest_run Q i t \<le> longest_run Q j t" for i j t
    by (induction t arbitrary: i j) auto
  show ?case
    using Cons [of "Suc k"] Cons [of 0] mono [of 0 k "c # s"] by (auto simp: le_max_iff_disj)
qed simp

lemma delims_spaced_dropWhile: "delims_spaced s \<Longrightarrow> delims_spaced (dropWhile P s)"
proof (induction s)
  case (Cons c s)
  then show ?case by (cases s) auto
qed simp

lemma render_lex:
  assumes "list_all ordinary w" and "length w < 127" and "NUL \<notin> set w" and "NUL \<notin> set s"
    and "delims_spaced s" and "longest_run is_space_char 0 s \<le> 127"
    and "longest_run ordinary (length w) s \<le> 127"
  shows "render (lex s w) = w @ s"
  using assms
proof (induction s w rule: lex.induct)
  case (1 word)
  then show ?case by (simp add: flush_word_def c_str_no_nul)
next
  case (2 c cs word)
  have ds: "delims_spaced cs" using "2.prems"(5) by (cases cs) auto
  show ?case
  proof (cases "ordinary c")
    case True
    then have w: "list_all ordinary (word @ [c])" using "2.prems" by simp
    have c: "\<not> is_space_char c" "c \<noteq> NEWLINE" "\<not> is_delimiter c"
      using True by (simp_all add: ordinary_def)
    show ?thesis
    proof (cases "length word \<ge> 126")
      case False
      then show ?thesis using 2 w c ds True by simp
    next
      case full: True
      have stop: "cs = [] \<or> \<not> ordinary (hd cs)"
        using full "2.prems"(7) True longest_run_prefix [of "Suc (length word)" ordinary cs]
        by (cases cs) auto
      have IH: "render (lex cs []) = cs"
        using 2 full c ds True longest_run_dropWhile [of ordinary "\<lambda>_. False" cs "Suc (length word)"]
        by (simp add: dropWhile_eq_self_iff)
      have "render ((word @ [c]) # lex cs []) = word @ c # cs"
      proof (cases cs)
        case (Cons d r)
        with stop obtain t ts where t: "lex cs [] = t # ts" "is_blank_token t \<or> is_delim_token t"
          using lex_first [of d r] by auto
        then have "flat_gap (word @ [c]) t = []" using word_token [OF w] by (auto simp: flat_gap_def)
        then show ?thesis using t IH by simp
      qed (simp add: flush_word_def)
      then show ?thesis using full c "2.prems" by (simp add: c_str_no_nul)
    qed
  next
    case False
    show ?thesis
    proof (cases "is_space_char c")
      case sp: True
      let ?rest = "dropWhile is_space_char cs"
      have "length (takeWhile is_space_char cs) \<le> 126"
        using "2.prems"(6) sp longest_run_prefix [of "Suc 0" is_space_char cs] by simp
      then have run: "take 127 (c # takeWhile is_space_char cs) = c # takeWhile is_space_char cs" by simp
      have "NUL \<notin> set ?rest" using "2.prems" by (auto dest: set_dropWhileD)
      moreover have "longest_run is_space_char 0 ?rest \<le> 127" "longest_run ordinary 0 ?rest \<le> 127"
        using "2.prems"(6,7) sp False longest_run_dropWhile [of is_space_char is_space_char cs 1]
          longest_run_dropWhile [of ordinary is_space_char cs 0] by simp_all
      ultimately have IH: "render (lex ?rest []) = ?rest"
        using 2(1) [OF sp] ds delims_spaced_dropWhile by simp
      have b: "is_blank_token (c # takeWhile is_space_char cs)"
        using space_run_lexeme [OF sp, of cs] run by (simp add: is_blank_token_def)
      show ?thesis
        using sp run render_flush [OF "2.prems"(1,3), of "c # takeWhile is_space_char cs"] b render_blank [OF b] IH by simp
    next
      case ns: False
      then have c: "c = NEWLINE \<or> is_delimiter c" using False by (simp add: ordinary_def)
      have IH: "render (lex cs []) = cs"
        using 2(2) [OF ns c] "2.prems" ns False ds by simp
      have "render ([c] # lex cs []) = c # cs"
      proof (cases "is_delimiter c \<and> cs \<noteq> []")
        case True
        then obtain d r where d: "cs = d # r" "is_space_char d \<or> d = NEWLINE"
          using "2.prems"(5) by (cases cs) auto
        then obtain t ts where "lex cs [] = t # ts" "is_blank_token t"
          using lex_first [of d r] class_facts by auto
        then show ?thesis using IH by (simp add: flat_gap_def)
      next
        case False
        then show ?thesis
          using c IH render_blank [of "[c]"] by (auto simp: flush_word_def is_blank_token_def is_newline_token_def)
      qed
      moreover have "is_blank_token [c] \<or> is_delim_token [c]"
        using c by (auto simp: is_blank_token_def is_newline_token_def)
      ultimately show ?thesis
        using render_flush [OF "2.prems"(1,3), of "[c]"] ns c by simp
    qed
  qed
qed

lemma write_parse_id: "NUL \<notin> set s \<Longrightarrow> well_spaced s \<Longrightarrow> write_file_content (parse_file s) = s"
  using render_lex [of "[]" s] by (simp add: write_parse well_spaced_def)

lemma write_parse_well_spaced: "NUL \<notin> set s \<Longrightarrow> well_spaced (write_file_content (parse_file s))"
  using lex_lexemes [of "[]" s] by (simp add: write_parse render_well_spaced)

lemma write_parse_visible:
  "NUL \<notin> set s \<Longrightarrow> filter visible (write_file_content (parse_file s)) = filter visible s"
  using lex_visible [of "[]" s] by (simp add: write_parse render_visible)

lemma write_parse_nul: "NUL \<notin> set s \<Longrightarrow> NUL \<notin> set (write_file_content (parse_file s))"
proof -
  have v: "visible NUL" by (simp add: visible_def is_space_char_def)
  assume "NUL \<notin> set s"
  then have "NUL \<notin> set (filter visible (write_file_content (parse_file s)))"
    using write_parse_visible [of s] by simp
  then show ?thesis using v by simp
qed

section \<open>The bounded string buffer and the statistics\<close>

lemma string_words_fits:
  "length result + length (write_words ws) + 2 < MAX_BUFFER \<Longrightarrow>
   string_words ws result = result @ write_words ws"
proof (induction ws arbitrary: result rule: write_words.induct)
  case (3 w v ws)
  then show ?case using 3(1) [of "result @ w @ word_gap w v"] by simp
qed auto

lemma string_sentences_fits:
  "length result + length (write_file_content fc) + 2 < MAX_BUFFER \<Longrightarrow>
   string_sentences fc result = Some (result @ write_file_content fc)"
proof (induction fc arbitrary: result rule: write_file_content.induct)
  case (2 s)
  then show ?case using string_words_fits [of result s] by (simp add: Let_def)
next
  case (3 s t ss)
  then show ?case
    using string_words_fits [of result s] 3(1) [of "result @ write_words s @ sentence_gap s t"]
    by (simp add: Let_def)
qed auto

lemma to_string_fits:
  "length (write_file_content fc) + 2 < MAX_BUFFER \<Longrightarrow> file_content_to_string fc = Some (write_file_content fc)"
  using string_sentences_fits [of "[]" fc] by (simp add: file_content_to_string_def)

text \<open>The places where an ordinary character follows the start or another character.\<close>

definition word_starts :: "char \<Rightarrow> string \<Rightarrow> nat" where
  "word_starts prev s = length (filter (\<lambda>(p, c). \<not> ordinary p \<and> ordinary c) (zip (prev # s) s))"

lemma stats_loop_eq:
  "stats_loop s (ordinary prev) words chars =
   (words + (if ordinary prev then 1 else 0) + word_starts prev s, chars + length s)"
proof (induction s arbitrary: prev words chars)
  case (Cons c cs)
  have "(c = SPACE \<or> c = TAB \<or> c = NEWLINE \<or> c = CR \<or> is_delimiter c) \<longleftrightarrow> \<not> ordinary c"
    by (auto simp: ordinary_def is_space_char_def)
  then show ?case
    using Cons [of c] by (cases "ordinary c") (simp_all add: word_starts_def)
qed (simp add: word_starts_def)

section \<open>Properties\<close>

text \<open>
  C32. Parsing a file and writing it back keeps every character that is not a blank, in
  order: only spaces, tabs and carriage returns are added or dropped.
\<close>

theorem parse_write_preserves_text:
  assumes "NUL \<notin> set s"
  shows "filter visible (write_file_content (parse_file s)) = filter visible s"
  using write_parse_visible [OF assms] .

theorem parse_write_preserves_text_witness:
  "filter visible (write_file_content (parse_file ''pi = 3.14! ok'')) = ''pi=3.14!ok''"
  using parse_write_preserves_text [of "''pi = 3.14! ok''"]
  by (simp add: visible_def is_space_char_def)

text \<open>
  C33. A file is reproduced exactly if and only if it is well spaced; every other file is
  changed by the first write, and no further by the second.
\<close>

theorem parse_write_normal_form:
  assumes "NUL \<notin> set s"
  shows "(write_file_content (parse_file s) = s \<longleftrightarrow> well_spaced s) \<and>
         write_file_content (parse_file (write_file_content (parse_file s))) =
         write_file_content (parse_file s)"
  using write_parse_id [of s] write_parse_id [OF write_parse_nul [OF assms]]
    write_parse_well_spaced [OF assms] assms by metis

theorem parse_write_normal_form_witness:
  "write_file_content (parse_file ''pi = 3.14'') \<noteq> ''pi = 3.14''"
  using parse_write_normal_form [of "''pi = 3.14''"]
  by (simp add: well_spaced_def is_delimiter_def is_space_char_def)

text \<open>
  \<^verbatim>\<open>get_file_stats\<close> counts every byte, and one word for each maximal run of characters
  that are neither blank, newline nor delimiter.
\<close>

theorem file_stats_correct:
  "get_file_stats (Some s) = (word_starts SPACE s, length s) \<and> get_file_stats None = (0, 0)"
proof -
  have "ordinary SPACE \<longleftrightarrow> False" by (simp add: ordinary_def is_space_char_def)
  then show ?thesis using stats_loop_eq [of s SPACE 0 0] by (simp add: get_file_stats_def)
qed

end
