(* ===== verification/TextInsert.thy ===== *)
theory TextInsert
  imports TextParse
begin

text \<open>
  \<^verbatim>\<open>split_by_delimiters\<close> and \<^verbatim>\<open>insert_word_in_sentence\<close> of \<^verbatim>\<open>file_ops.c\<close>. The splitter has two
  fixed limits, its 128-byte word buffer and the capacity of its output array, which it
  does not always check: \<^const>\<open>None\<close> is a store outside one of them.
\<close>

section \<open>Splitting the inserted text\<close>

text \<open>Storing the word buffer: the array is grown after the store, not before.\<close>

definition flush_part :: "string \<Rightarrow> string list \<Rightarrow> nat \<Rightarrow> (string list \<times> nat) option" where
  "flush_part buf parts cap =
     (if buf = [] then Some (parts, cap)
      else if length parts < cap
      then Some (parts @ [buf], if length parts + 1 \<ge> cap then cap * 2 else cap)
      else None)"

text \<open>Storing a blank run, a newline or a delimiter: the array is grown before the store.\<close>

definition grow_cap :: "string list \<Rightarrow> nat \<Rightarrow> nat" where
  "grow_cap parts cap = (if length parts \<ge> cap then cap * 2 else cap)"

function split_loop :: "string \<Rightarrow> string \<Rightarrow> string list \<Rightarrow> nat \<Rightarrow> string list option" where
  "split_loop [] buf parts cap = Some (if buf = [] then parts else parts @ [buf])"
| "split_loop (c # cs) buf parts cap =
     (if is_space_char c
      then (case flush_part buf parts cap of
              None \<Rightarrow> None
            | Some (ps, cap') \<Rightarrow>
                split_loop (dropWhile is_space_char cs) []
                  (ps @ [take (MAX_WORD - 1) (c # takeWhile is_space_char cs)]) (grow_cap ps cap'))
      else if c = NEWLINE \<or> is_delimiter c
      then (case flush_part buf parts cap of
              None \<Rightarrow> None
            | Some (ps, cap') \<Rightarrow> split_loop cs [] (ps @ [[c]]) (grow_cap ps cap'))
      else if length buf < MAX_WORD - 1 then split_loop cs (buf @ [c]) parts cap
      else None)"
  by pat_completeness auto
termination
  by (relation "measure (\<lambda>(s, _). length s)") (auto simp: le_imp_less_Suc length_dropWhile_le)

definition split_by_delimiters :: "string \<Rightarrow> string list option" where
  "split_by_delimiters word = split_loop word [] [] 10"

text \<open>
  Within the limits the splitter produces the tokens the parser would.
\<close>

lemma flush_part_Some: "flush_part buf parts cap = Some (ps, cap') \<Longrightarrow> NUL \<notin> set buf \<Longrightarrow> ps = parts @ flush_word buf []"
  by (auto simp: flush_part_def flush_word_def c_str_no_nul split: if_splits)

lemma flush_lex:
  assumes "NUL \<notin> set buf" and "length buf \<le> 127" and "\<not> ordinary c"
  shows "(if length buf = 127 then buf # lex (c # cs) [] else lex (c # cs) buf) =
         flush_word buf [] @ lex (c # cs) []"
  using assms by (auto simp: flush_word_def c_str_no_nul ordinary_def)

lemma split_is_lex:
  "split_loop s buf parts cap = Some ps \<Longrightarrow> NUL \<notin> set buf \<Longrightarrow> NUL \<notin> set s \<Longrightarrow> length buf \<le> 127 \<Longrightarrow>
   ps = parts @ (if length buf = 127 then buf # lex s [] else lex s buf)"
proof (induction s buf parts cap rule: split_loop.induct)
  case (1 buf parts cap)
  then show ?case by (auto simp: flush_word_def c_str_no_nul)
next
  case (2 c cs buf parts cap)
  show ?case
  proof (cases "ordinary c")
    case True
    have c: "\<not> is_space_char c" "c \<noteq> NEWLINE" "\<not> is_delimiter c"
      using True by (simp_all add: ordinary_def)
    then have len: "length buf < 127" using 2 by (auto split: if_splits)
    then have "ps = parts @ (if length (buf @ [c]) = 127 then (buf @ [c]) # lex cs [] else lex cs (buf @ [c]))"
      using 2 c by auto
    then show ?thesis using len c "2.prems" by (auto simp: c_str_no_nul not_le)
  next
    case False
    obtain ps' cap' where f: "flush_part buf parts cap = Some (ps', cap')"
      using "2.prems"(1) False
      by (cases "flush_part buf parts cap"; cases "is_space_char c") (auto simp: ordinary_def)
    have "ps' = parts @ flush_word buf []" using flush_part_Some [OF f] 2 by simp
    moreover have "ps = ps' @ lex (c # cs) []"
    proof (cases "is_space_char c")
      case True
      have "NUL \<notin> set (dropWhile is_space_char cs)" using "2.prems" by (auto dest: set_dropWhileD)
      then show ?thesis
        using 2(1) [OF True f refl] "2.prems"(1) True f by (simp add: flush_word_def)
    next
      case ns: False
      then have k: "c = NEWLINE \<or> is_delimiter c" using False by (simp add: ordinary_def)
      show ?thesis
        using 2(2) [OF ns k f refl] "2.prems"(1,3) ns k f by (simp add: flush_word_def)
    qed
    ultimately show ?thesis
      using flush_lex [OF "2.prems"(2,4) False, of cs] by simp
  qed
qed

lemma split_lex:
  "split_by_delimiters w = Some parts \<Longrightarrow> NUL \<notin> set w \<Longrightarrow> parts = lex w []"
  using split_is_lex [of w "[]" "[]" 10 parts] by (simp add: split_by_delimiters_def)

lemma split_long_word:
  "128 \<le> longest_run ordinary (length buf) s \<Longrightarrow> length buf \<le> 127 \<Longrightarrow> split_loop s buf parts cap = None"
proof (induction s buf parts cap rule: split_loop.induct)
  case (2 c cs buf parts cap)
  show ?case
  proof (cases "ordinary c")
    case True
    then show ?thesis using 2 by (auto simp: ordinary_def)
  next
    case False
    then have run: "128 \<le> longest_run ordinary 0 cs" using "2.prems" by simp
    have rest: "128 \<le> longest_run ordinary 0 (dropWhile is_space_char cs)"
      using run
    proof (induction cs)
      case (Cons d ds)
      then show ?case by (auto simp: class_facts split: if_splits)
    qed simp
    have k: "is_space_char c \<or> c = NEWLINE \<or> is_delimiter c" using False by (auto simp: ordinary_def)
    show ?thesis
      using 2(1,2) run rest k by (cases "flush_part buf parts cap") auto
  qed
qed simp

lemma flush_part_within:
  "length (parts @ flush_word buf []) \<le> 10 \<Longrightarrow> 10 \<le> cap \<Longrightarrow> NUL \<notin> set buf \<Longrightarrow>
   \<exists>cap'. flush_part buf parts cap = Some (parts @ flush_word buf [], cap') \<and> 10 \<le> cap'"
  by (cases "buf = []") (auto simp: flush_part_def flush_word_def c_str_no_nul)

lemma split_within:
  "longest_run ordinary (length buf) s \<le> 127 \<Longrightarrow> NUL \<notin> set buf \<Longrightarrow> NUL \<notin> set s \<Longrightarrow> 10 \<le> cap \<Longrightarrow>
   length parts + length (if length buf = 127 then buf # lex s [] else lex s buf) \<le> 10 \<Longrightarrow>
   split_loop s buf parts cap \<noteq> None"
proof (induction s buf parts cap rule: split_loop.induct)
  case (2 c cs buf parts cap)
  have buf: "length buf \<le> 127" using "2.prems"(1) longest_run_ge [of "length buf" ordinary "c # cs"] by simp
  show ?case
  proof (cases "ordinary c")
    case True
    then have c: "\<not> is_space_char c" "c \<noteq> NEWLINE" "\<not> is_delimiter c"
      by (simp_all add: ordinary_def)
    have len: "length buf < 127"
      using "2.prems"(1) True longest_run_ge [of "Suc (length buf)" ordinary cs] by simp
    have "length parts + length (if length (buf @ [c]) = 127 then (buf @ [c]) # lex cs [] else lex cs (buf @ [c])) \<le> 10"
      using "2.prems"(5) len c by (auto split: if_splits)
    then show ?thesis using 2 True c len by auto
  next
    case False
    then have k: "is_space_char c \<or> c = NEWLINE \<or> is_delimiter c" by (auto simp: ordinary_def)
    let ?r = "if is_space_char c then take 127 (c # takeWhile is_space_char cs) else [c]"
    let ?cs = "if is_space_char c then dropWhile is_space_char cs else cs"
    have total: "length parts + length (flush_word buf [] @ ?r # lex ?cs []) \<le> 10"
      using "2.prems"(5) k buf by (auto simp: flush_word_def split: if_splits)
    then obtain cap' where f: "flush_part buf parts cap = Some (parts @ flush_word buf [], cap')" "10 \<le> cap'"
      using flush_part_within [of parts buf cap] "2.prems" by auto
    have g: "10 \<le> grow_cap (parts @ flush_word buf []) cap'"
      using f(2) by (simp add: grow_cap_def)
    have run: "longest_run ordinary 0 ?cs \<le> 127"
      using "2.prems"(1) False longest_run_dropWhile [of ordinary is_space_char cs 0] by (auto split: if_splits)
    have nul: "NUL \<notin> set ?cs" using "2.prems"(3) by (auto dest: set_dropWhileD)
    show ?thesis
    proof (cases "is_space_char c")
      case True
      then show ?thesis using 2(1) [OF True f(1) refl] f(1) g run nul total by simp
    next
      case ns: False
      then show ?thesis using 2(2) [OF ns _ f(1) refl] f(1) g run nul total k by simp
    qed
  qed
qed simp

section \<open>Insertion\<close>

text \<open>The array index just after the \<^verbatim>\<open>k\<close>-th token that is neither blank nor newline.\<close>

fun index_after :: "nat \<Rightarrow> sentence \<Rightarrow> nat" where
  "index_after 0 ws = 0"
| "index_after (Suc k) [] = 0"
| "index_after (Suc k) (w # ws) =
     Suc (if should_skip_for_indexing w then index_after (Suc k) ws else index_after k ws)"

definition real_word_count :: "sentence \<Rightarrow> nat" where
  "real_word_count ws = length (filter (\<lambda>w. \<not> should_skip_for_indexing w) ws)"

definition insert_index :: "int \<Rightarrow> sentence \<Rightarrow> nat" where
  "insert_index word_idx ws =
     (if word_idx = 1 then 0
      else if word_idx = int (real_word_count ws) + 1 then length ws
      else index_after (nat (word_idx - 1)) ws)"

text \<open>The last part that is a delimiter, if other parts follow it.\<close>

definition last_delimiter :: "string list \<Rightarrow> nat option" where
  "last_delimiter parts =
     (case find_index starts_delim (rev parts) of
        None \<Rightarrow> None
      | Some 0 \<Rightarrow> None
      | Some (Suc k) \<Rightarrow> Some (length parts - 1 - Suc k))"

text \<open>
  The loop over the parts: each is put at the insertion point; at the splitting delimiter
  the rest of the sentence moves to the next slot, and the insertion point with it.
\<close>

fun insert_parts :: "string list \<Rightarrow> nat \<Rightarrow> nat option \<Rightarrow> file_content \<Rightarrow> nat \<Rightarrow> nat \<Rightarrow> file_content" where
  "insert_parts [] i split sents cur a = sents"
| "insert_parts (p # ps) i split sents cur a =
     (let ws = take a (sents ! cur) @ [p] @ drop a (sents ! cur); a' = a + 1 in
      if split = Some i
      then insert_parts ps (i + 1) split
             (sents[cur := take a' ws, cur + 1 := sents ! (cur + 1) @ drop a' ws]) (cur + 1) 0
      else insert_parts ps (i + 1) split (sents[cur := ws]) cur a')"

text \<open>
  The initialised slots and the sentence count once the target sentence has a slot. In the
  special case of one empty sentence the count stays behind the slot that is written.
\<close>

definition target_slot :: "file_content \<Rightarrow> nat \<Rightarrow> file_content \<times> nat" where
  "target_slot fc i =
     (if i = length fc
      then (fc @ [[]], if length fc = 1 \<and> fc ! 0 = [] then length fc else length fc + 1)
      else (fc, length fc))"

text \<open>The content after the call and the return value.\<close>

definition insert_word_in_sentence ::
  "file_content \<Rightarrow> int \<Rightarrow> int \<Rightarrow> string \<Rightarrow> (file_content \<times> int) option" where
  "insert_word_in_sentence fc sent_idx word_idx word =
     (if sent_idx < 0 \<or> sent_idx > int (length fc) then Some (fc, - 1)
      else
        let i = nat sent_idx;
            (sents, count) = target_slot fc i;
            ws = sents ! i
        in if word_idx < 1 \<or> word_idx > int (real_word_count ws) + 1 then Some (take count sents, - 1)
           else (case split_by_delimiters word of
                   None \<Rightarrow> None
                 | Some parts \<Rightarrow>
                     if parts = [] then Some (take count sents, 0)
                     else let split = last_delimiter parts;
                              new = length (filter starts_delim parts) + (if split = None then 0 else 1);
                              room = take (i + 1) sents @ replicate new [] @ drop (i + 1) sents
                          in Some (take (count + new) (insert_parts parts 0 split room i (insert_index word_idx ws)),
                                   int new)))"

lemma insert_parts_plain:
  "(\<forall>k. split = Some k \<longrightarrow> k < i) \<Longrightarrow> cur < length sents \<Longrightarrow> a \<le> length (sents ! cur) \<Longrightarrow>
   insert_parts ps i split sents cur a =
   sents[cur := take a (sents ! cur) @ ps @ drop a (sents ! cur)]"
proof (induction ps arbitrary: i sents a)
  case (Cons p ps)
  let ?ws = "take a (sents ! cur) @ [p] @ drop a (sents ! cur)"
  have "insert_parts ps (i + 1) split (sents[cur := ?ws]) cur (a + 1) =
      sents[cur := take (a + 1) ?ws @ ps @ drop (a + 1) ?ws]"
    using Cons.IH [of "i + 1" "sents[cur := ?ws]" "a + 1"] Cons.prems by (simp add: less_SucI)
  then show ?case using Cons.prems by (auto simp: Let_def)
qed simp

lemma insert_parts_split:
  "i \<le> k \<Longrightarrow> k < i + length ps \<Longrightarrow> cur + 1 < length sents \<Longrightarrow> a \<le> length (sents ! cur) \<Longrightarrow>
   sents ! (cur + 1) = [] \<Longrightarrow>
   insert_parts ps i (Some k) sents cur a =
   sents[cur := take a (sents ! cur) @ take (Suc (k - i)) ps,
         cur + 1 := drop (Suc (k - i)) ps @ drop a (sents ! cur)]"
proof (induction ps arbitrary: i sents a)
  case (Cons p ps)
  let ?ws = "take a (sents ! cur) @ [p] @ drop a (sents ! cur)"
  show ?case
  proof (cases "k = i")
    case True
    then show ?thesis
      using Cons.prems insert_parts_plain [of "Some k" "i + 1" "cur + 1"
          "sents[cur := take (a + 1) ?ws, cur + 1 := drop (a + 1) ?ws]" 0 ps]
      by (simp add: Let_def)
  next
    case False
    then have "Suc (k - i) = Suc (Suc (k - (i + 1)))" using Cons.prems by simp
    then show ?thesis
      using False Cons.prems Cons.IH [of "i + 1" "sents[cur := ?ws]" "a + 1"]
      by (simp add: Let_def)
  qed
qed simp

lemma index_after_le: "index_after k ws \<le> length ws"
  by (induction k ws rule: index_after.induct) auto

lemma insert_index_le: "insert_index word_idx ws \<le> length ws"
  by (simp add: insert_index_def index_after_le)

lemma last_delimiter_bound: "last_delimiter parts = Some k \<Longrightarrow> k < length parts"
  by (auto simp: last_delimiter_def dest: find_index_SomeD split: option.splits nat.splits)

lemma last_delimiter_None: "filter starts_delim parts = [] \<Longrightarrow> last_delimiter parts = None"
  using find_index_None [of starts_delim "rev parts"]
  by (auto simp: last_delimiter_def filter_empty_conv)

text \<open>Where the parts go: into the sentence, or into it and the next slot.\<close>

lemma insert_parts_result:
  assumes "i < length sents" and "a \<le> length (sents ! i)"
    and "parts \<noteq> []"
    and "new = length (filter starts_delim parts) + (if last_delimiter parts = None then 0 else 1)"
  obtains s1 s2 m where
    "insert_parts parts 0 (last_delimiter parts) (take (i + 1) sents @ replicate new [] @ drop (i + 1) sents) i a =
       take i sents @ s1 # s2 @ replicate m [] @ drop (i + 1) sents"
    "length s2 + m = new" "s1 @ concat s2 = take a (sents ! i) @ parts @ drop a (sents ! i)" "length s2 \<le> 1"
proof -
  let ?room = "take (i + 1) sents @ replicate new [] @ drop (i + 1) sents"
  have ti: "take (i + 1) sents = take i sents @ [sents ! i]"
    using assms(1) by (simp add: take_Suc_conv_app_nth)
  then have ti': "take (Suc i) sents = take i sents @ [sents ! i]" by simp
  have cur: "?room ! i = sents ! i" using assms(1) by (simp add: ti nth_append)
  have len: "length (take i sents) = i" using assms(1) by simp
  show thesis
  proof (cases "last_delimiter parts")
    case None
    have "insert_parts parts 0 None ?room i a = ?room[i := take a (sents ! i) @ parts @ drop a (sents ! i)]"
      using insert_parts_plain [of None 0 i ?room a parts] assms cur by simp
    also have "\<dots> = take i sents @ (take a (sents ! i) @ parts @ drop a (sents ! i)) # [] @ replicate new [] @ drop (i + 1) sents"
      using len ti' unfolding ti by (simp add: list_update_append)
    finally show thesis using that [of _ "[]" new] None by simp
  next
    case (Some k)
    then have new: "new = Suc (new - 1)" using assms(4) by simp
    have "k < length parts" using Some by (rule last_delimiter_bound)
    have room: "?room = take i sents @ [sents ! i, []] @ replicate (new - 1) [] @ drop (i + 1) sents"
      using ti' by (subst new) simp
    have empty_next: "?room ! (i + 1) = []" and l: "i + 1 < length ?room"
      using len assms(1) new by (simp_all add: room nth_append)
    have "insert_parts parts 0 (Some k) ?room i a =
        ?room[i := take a (sents ! i) @ take (Suc k) parts, i + 1 := drop (Suc k) parts @ drop a (sents ! i)]"
      using insert_parts_split [of 0 k parts i ?room a] \<open>k < length parts\<close> l empty_next assms cur by simp
    also have "\<dots> = take i sents @ (take a (sents ! i) @ take (Suc k) parts) #
        [drop (Suc k) parts @ drop a (sents ! i)] @ replicate (new - 1) [] @ drop (i + 1) sents"
      using len unfolding room by (simp add: list_update_append)
    finally show thesis
      using that [of _ "[drop (Suc k) parts @ drop a (sents ! i)]" "new - 1"] Some new by simp
  qed
qed

section \<open>Properties\<close>

text \<open>
  A sentence index is valid up to one past the end, a word index from one up to one past the
  words of that sentence. Appending behind a single empty sentence is the special
  case of the code, in which the sentence count is not advanced; the storage server never
  gets there, since it only appends to a file that has text.
\<close>

definition target_sentence :: "file_content \<Rightarrow> int \<Rightarrow> sentence" where
  "target_sentence fc sent_idx = (if nat sent_idx = length fc then [] else fc ! nat sent_idx)"

lemma target_slot_sentence:
  assumes "target_slot fc (nat sent_idx) = (sents, count)"
  shows "sents ! nat sent_idx = target_sentence fc sent_idx" and "concat (take count sents) = concat fc"
  using assms by (auto simp: target_slot_def target_sentence_def nth_append split: if_splits)

definition valid_position :: "file_content \<Rightarrow> int \<Rightarrow> int \<Rightarrow> bool" where
  "valid_position fc sent_idx word_idx \<longleftrightarrow>
     0 \<le> sent_idx \<and> sent_idx \<le> int (length fc) \<and>
     1 \<le> word_idx \<and> word_idx \<le> int (real_word_count (target_sentence fc sent_idx)) + 1"

lemma insert_result:
  assumes "valid_position fc sent_idx word_idx" and "\<not> (fc = [[]] \<and> sent_idx = 1)" and "split_by_delimiters word = Some parts"
    and "parts \<noteq> []"
  obtains s1 s2 m new where
    "insert_word_in_sentence fc sent_idx word_idx word =
       Some (take (nat sent_idx) fc @ s1 # s2 @ replicate m [] @ drop (nat sent_idx + 1) fc, int new)"
    "length s2 + m = new" "length s2 \<le> 1"
    "new = length (filter starts_delim parts) + (if last_delimiter parts = None then 0 else 1)"
    "s1 @ concat s2 = take (insert_index word_idx (target_sentence fc sent_idx)) (target_sentence fc sent_idx)
       @ parts @ drop (insert_index word_idx (target_sentence fc sent_idx)) (target_sentence fc sent_idx)"
proof -
  define i ws where "i = nat sent_idx" and "ws = target_sentence fc sent_idx"
  define sents where "sents = (if i = length fc then fc @ [[]] else fc)"
  define new where "new = length (filter starts_delim parts) + (if last_delimiter parts = None then 0 else 1)"
  define room where "room = take (i + 1) sents @ replicate new [] @ drop (i + 1) sents"
  have i: "i < length sents" "i \<le> length fc"
    using assms(1) by (auto simp: valid_position_def sents_def i_def)
  have ws: "sents ! i = ws" by (simp add: target_sentence_def sents_def i_def ws_def)
  have special: "\<not> (i = length fc \<and> length fc = 1 \<and> fc ! 0 = [])"
    using assms(1,2) by (cases fc) (auto simp: i_def valid_position_def)
  from insert_parts_result [OF i(1) insert_index_le assms(4) new_def, of word_idx]
  obtain s1 s2 m where r:
    "insert_parts parts 0 (last_delimiter parts) room i (insert_index word_idx ws) =
       take i sents @ s1 # s2 @ replicate m [] @ drop (i + 1) sents"
    "length s2 + m = new" "length s2 \<le> 1"
    "s1 @ concat s2 = take (insert_index word_idx ws) ws @ parts @ drop (insert_index word_idx ws) ws"
    unfolding ws room_def by metis
  have parts: "take i sents = take i fc" "drop (i + 1) sents = drop (i + 1) fc"
    using i(2) by (auto simp: sents_def)
  have len: "length (take i fc @ s1 # s2 @ replicate m [] @ drop (i + 1) fc) = length sents + new"
    using r(2) i by (auto simp: sents_def)
  have "insert_word_in_sentence fc sent_idx word_idx word =
      Some (take (length sents + new) (insert_parts parts 0 (last_delimiter parts) room i (insert_index word_idx ws)), int new)"
    using assms(1,3,4) special ws i
    unfolding insert_word_in_sentence_def target_slot_def valid_position_def room_def new_def sents_def ws_def [symmetric] i_def [symmetric]
    by (cases "i = length fc"; cases "length fc = 1 \<and> fc ! 0 = []") (auto simp: Let_def)
  also have "\<dots> = Some (take i fc @ s1 # s2 @ replicate m [] @ drop (i + 1) fc, int new)"
    unfolding r(1) parts by (simp only: take_all [OF eq_imp_le [OF len]])
  finally show thesis
    by (rule that [unfolded i_def [symmetric] ws_def [symmetric], OF _ r(2,3) new_def r(4)])
qed

lemma render_any_visible:
  "filter visible (write_words ws) = filter visible (concat ws)"
  by (induction ws rule: write_words.induct) (auto simp: word_gap_def)

lemma write_visible: "filter visible (write_file_content fc) = filter visible (concat (concat fc))"
proof (induction fc rule: write_file_content.induct)
  case (3 s t ss)
  have "filter visible (sentence_gap s t) = []"
    by (auto simp: sentence_gap_def split: list.splits)
  then show ?case using 3 by (simp add: render_any_visible)
qed (simp_all add: render_any_visible)

lemma target_split:
  assumes "0 \<le> sent_idx" and "sent_idx \<le> int (length fc)"
  shows "concat fc = concat (take (nat sent_idx) fc) @ target_sentence fc sent_idx @ concat (drop (nat sent_idx + 1) fc)"
proof (cases "nat sent_idx = length fc")
  case False
  then have "nat sent_idx < length fc" using assms by auto
  then have "fc = take (nat sent_idx) fc @ fc ! nat sent_idx # drop (nat sent_idx + 1) fc"
    by (simp add: id_take_nth_drop)
  then have "concat fc = concat (take (nat sent_idx) fc @ fc ! nat sent_idx # drop (nat sent_idx + 1) fc)"
    by (rule arg_cong)
  then show ?thesis using False by (simp add: target_sentence_def)
qed (simp add: target_sentence_def)

text \<open>
  C31. An insertion at a valid position succeeds whenever the splitter stays inside its
  buffers; it puts the tokens of the new text, as the parser would read them, between the
  two halves of the target sentence, loses and reorders no other token, and leaves every
  other sentence whole, shifted by the returned number of new sentences.
\<close>

theorem insert_exact:
  assumes "valid_position fc sent_idx word_idx" and "\<not> (fc = [[]] \<and> sent_idx = 1)" and "NUL \<notin> set word"
    and "longest_run ordinary 0 word \<le> 127" and "length (lex word []) \<le> 10" and "word \<noteq> []"
  shows "\<exists>fc' new. insert_word_in_sentence fc sent_idx word_idx word = Some (fc', int new) \<and>
     concat fc' = concat (take (nat sent_idx) fc) @
       take (insert_index word_idx (target_sentence fc sent_idx)) (target_sentence fc sent_idx) @ lex word [] @
       drop (insert_index word_idx (target_sentence fc sent_idx)) (target_sentence fc sent_idx) @
       concat (drop (nat sent_idx + 1) fc) \<and>
     take (nat sent_idx) fc' = take (nat sent_idx) fc \<and>
     drop (nat sent_idx + 1 + new) fc' = drop (nat sent_idx + 1) fc"
proof -
  obtain parts where p: "split_by_delimiters word = Some parts"
    using split_within [of "[]" word 10 "[]"] assms(3-5) by (auto simp: split_by_delimiters_def)
  have parts: "parts = lex word []" by (rule split_lex [OF p assms(3)])
  have "parts \<noteq> []"
  proof
    assume "parts = []"
    then have "filter visible word = []" and "lex word [] = []"
      using parts lex_visible [of "[]" word] assms(3) by simp_all
    then show False using assms(6) by (cases word) (auto simp: flush_word_def visible_def split: if_splits)
  qed
  from insert_result [OF assms(1,2) p this] obtain s1 s2 m new where r:
    "insert_word_in_sentence fc sent_idx word_idx word =
       Some (take (nat sent_idx) fc @ s1 # s2 @ replicate m [] @ drop (nat sent_idx + 1) fc, int new)"
    "length s2 + m = new"
    "s1 @ concat s2 = take (insert_index word_idx (target_sentence fc sent_idx)) (target_sentence fc sent_idx)
       @ parts @ drop (insert_index word_idx (target_sentence fc sent_idx)) (target_sentence fc sent_idx)"
    by metis
  have i: "nat sent_idx \<le> length fc" using assms(1) by (auto simp: valid_position_def)
  let ?fc = "take (nat sent_idx) fc @ s1 # s2 @ replicate m [] @ drop (nat sent_idx + 1) fc"
  have "concat ?fc = concat (take (nat sent_idx) fc) @ (s1 @ concat s2) @ concat (drop (nat sent_idx + 1) fc)"
    by simp
  moreover have "take (nat sent_idx) ?fc = take (nat sent_idx) fc" using i by simp
  moreover have "drop (nat sent_idx + 1 + new) ?fc = drop (nat sent_idx + 1) fc" using i r(2) by auto
  ultimately show ?thesis
    using r(1) unfolding r(3) parts by (intro exI [of _ ?fc] exI [of _ new]) simp
qed

theorem insert_exact_witness:
  "\<exists>fc' new. insert_word_in_sentence (parse_file ''One two. Three.'') 0 2 ''and'' = Some (fc', int new) \<and>
     concat fc' = [''One'', ''and'', '' '', ''two'', ''.'', '' '', ''Three'', ''.'']"
proof -
  have p: "parse_file ''One two. Three.'' = [[''One'', '' '', ''two'', ''.''], ['' '', ''Three'', ''.'']]"
    by (simp add: parse_file_def flush_word_def is_space_char_def is_delimiter_def c_str_def)
  show ?thesis
    using insert_exact [of "parse_file ''One two. Three.''" 0 2 "''and''"]
    by (simp add: p valid_position_def target_sentence_def real_word_count_def should_skip_for_indexing_def
        is_space_token_def is_newline_token_def ordinary_def is_space_char_def is_delimiter_def
        flush_word_def c_str_def insert_index_def numeral_2_eq_2)
      blast
qed

text \<open>
  At any other position the insertion fails with -1 and the tokens of the content are
  unchanged.
\<close>

theorem insert_rejects:
  assumes "\<not> valid_position fc sent_idx word_idx"
  shows "\<exists>fc'. insert_word_in_sentence fc sent_idx word_idx word = Some (fc', - 1) \<and> concat fc' = concat fc"
proof (cases "sent_idx < 0 \<or> sent_idx > int (length fc)")
  case True
  then show ?thesis by (auto simp: insert_word_in_sentence_def)
next
  case False
  obtain sents count where "target_slot fc (nat sent_idx) = (sents, count)" by fastforce
  then show ?thesis
    using target_slot_sentence False assms by (auto simp: insert_word_in_sentence_def valid_position_def Let_def)
qed

theorem insert_rejects_witness:
  "\<exists>fc'. insert_word_in_sentence [[''One'', ''.'']] 0 4 ''x'' = Some (fc', - 1) \<and> concat fc' = [''One'', ''.'']"
  using insert_rejects [of "[[''One'', ''.'']]" 0 4 "''x''"]
  by (simp add: valid_position_def target_sentence_def real_word_count_def should_skip_for_indexing_def
      is_space_token_def is_newline_token_def is_space_char_def)

text \<open>
  The splitter trusts its input: text with a run of 128 ordinary characters is stored
  past the end of the word buffer, and seven words separated by blanks past the end of the
  part array.
\<close>

theorem insert_overruns_buffers:
  assumes "valid_position fc sent_idx word_idx"
    and "128 \<le> longest_run ordinary 0 word \<or> word = ''a b c d e f g''"
  shows "insert_word_in_sentence fc sent_idx word_idx word = None"
proof -
  have "split_by_delimiters ''a b c d e f g'' = None"
    by (simp add: split_by_delimiters_def flush_part_def grow_cap_def is_space_char_def is_delimiter_def)
  then have "split_by_delimiters word = None"
    using assms(2) split_long_word [of "[]" word "[]" 10] by (auto simp: split_by_delimiters_def)
  moreover obtain sents count where "target_slot fc (nat sent_idx) = (sents, count)" by fastforce
  ultimately show ?thesis
    using target_slot_sentence assms(1) by (auto simp: insert_word_in_sentence_def valid_position_def Let_def)
qed

theorem insert_overruns_buffers_witness:
  "insert_word_in_sentence [] 0 1 (replicate 128 CHR ''x'') = None"
proof -
  have "longest_run ordinary k (replicate n CHR ''x'') = k + n" for k n
    by (induction n arbitrary: k) (auto simp: ordinary_def is_space_char_def is_delimiter_def)
  then show ?thesis
    using insert_overruns_buffers [of "[]" 0 1 "replicate 128 CHR ''x''"]
    by (simp add: valid_position_def target_sentence_def real_word_count_def)
qed

end
