(* ===== verification/TextSentences.thy ===== *)
theory TextSentences
  imports TextInsert
begin

text \<open>
  How parsing acts on pieces of a file: the parser starts afresh after a delimiter, so the
  sentences of a concatenation are the sentences of its parts, and their number can be read
  off the text. These lemmas carry the correctness of the commit, which cuts the edited copy
  of a file into sentences again.
\<close>

section \<open>Parsing a concatenation\<close>

lemma ordinary_snoc:
  "list_all ordinary w \<Longrightarrow> \<not> is_space_char c \<Longrightarrow> c \<noteq> NEWLINE \<Longrightarrow> \<not> is_delimiter c \<Longrightarrow> list_all ordinary (w @ [c])"
  by (simp add: ordinary_def [of c])

lemma takeWhile_before:
  "\<not> P d \<Longrightarrow> takeWhile P (x @ d # y) = takeWhile P x \<and> dropWhile P (x @ d # y) = dropWhile P x @ d # y"
  by (induction x) auto

lemma lex_append: "is_delimiter d \<Longrightarrow> lex (x @ d # y) w = lex (x @ [d]) w @ lex y []"
proof (induction x w rule: lex.induct)
  case (1 word)
  then show ?case using delim_not_space [of d] by (simp add: flush_word_def)
next
  case (2 c cs word)
  have d: "\<not> is_space_char d" using delim_not_space [OF "2.prems"] by simp
  show ?case
    using 2 takeWhile_before [of is_space_char d cs y, OF d] takeWhile_before [of is_space_char d cs "[]", OF d]
    by simp
qed

lemma lex_last_delim: "is_delimiter d \<Longrightarrow> lex (x @ [d]) w \<noteq> [] \<and> last (lex (x @ [d]) w) = [d]"
proof (induction x w rule: lex.induct)
  case (1 word)
  then show ?case using delim_not_space [of d] by (simp add: flush_word_def)
next
  case (2 c cs word)
  have d: "\<not> is_space_char d" using delim_not_space [OF "2.prems"] by simp
  show ?case using 2 takeWhile_before [of is_space_char d cs "[]", OF d] by simp
qed

lemma group_append:
  "ts \<noteq> [] \<Longrightarrow> is_delim_token (last ts) \<Longrightarrow> group cur (ts @ us) = group cur ts @ group [] us"
  by (induction ts arbitrary: cur) (auto split: if_splits)

lemma parse_append:
  assumes "is_delimiter d"
  shows "parse_file (x @ d # y) = parse_file (x @ [d]) @ parse_file y"
proof -
  have "lex (x @ [d]) [] \<noteq> []" "is_delim_token (last (lex (x @ [d]) []))"
    using lex_last_delim [OF assms, of x "[]"] assms by simp_all
  then show ?thesis
    unfolding parse_file_lex by (subst lex_append [OF assms, of x y]) (rule group_append)
qed

lemma parse_empty [simp]: "parse_file [] = []"
  by (simp add: parse_file_def flush_word_def)

lemma parse_split:
  "x = [] \<or> is_delimiter (last x) \<Longrightarrow> parse_file (x @ y) = parse_file x @ parse_file y"
  using parse_append [of "last x" "butlast x" y]
  by (cases x rule: rev_cases) (auto simp: parse_file_def flush_word_def)

lemma lex_nil_iff: "lex t w = [] \<longleftrightarrow> t = [] \<and> w = []"
  by (induction t w rule: lex.induct) (auto simp: flush_word_def)

lemma parse_nil_iff [simp]: "parse_file t = [] \<longleftrightarrow> t = []"
proof -
  have "lex t [] = [] \<longleftrightarrow> t = []" by (simp add: lex_nil_iff)
  then show ?thesis using group_hd [of "[]" "lex t []"] by (auto simp: parse_file_lex)
qed

section \<open>Counting sentences\<close>

definition delims :: "string \<Rightarrow> string" where
  "delims t = filter is_delimiter t"

lemma delims_simps [simp]:
  "delims [] = []" "delims (c # t) = (if is_delimiter c then c # delims t else delims t)"
  "delims (s @ t) = delims s @ delims t"
  by (simp_all add: delims_def)

lemma delims_visible: "delims (filter visible t) = delims t"
  by (induction t) (auto simp: visible_def dest: delim_not_space)

lemma no_delims_parse:
  assumes "delims t = []" and "t \<noteq> []"
  shows "parse_file t = [lex t []]"
proof -
  have "list_all (\<lambda>u. \<not> is_delim_token u) (lex t w)" if "delims t = []" "list_all ordinary w" for t w
    using that
  proof (induction t w rule: lex.induct)
    case (1 word)
    then show ?case using ordinary_no_delim [of word] by (simp add: flush_word_def)
  next
    case (2 c cs word)
    have f: "list_all (\<lambda>u. \<not> is_delim_token u) (flush_word word [])"
      using ordinary_no_delim [OF "2.prems"(2)] by (simp add: flush_word_def)
    have c: "\<not> is_delimiter c" "delims cs = []" using "2.prems"(1) by (auto split: if_splits)
    have dw: "delims (dropWhile is_space_char cs) = []"
      using c(2) by (auto simp: delims_def filter_empty_conv dest: set_dropWhileD)
    have w: "list_all ordinary (word @ [c])" if "\<not> is_space_char c" "c \<noteq> NEWLINE"
      by (rule ordinary_snoc [OF "2.prems"(2) that c(1)])
    show ?case
      using 2 c f dw w ordinary_no_delim [OF w] space_run_not_delim [of c "takeWhile is_space_char cs"]
      by (auto simp del: take_Suc_Cons)
  qed
  from this [OF assms(1), of "[]"] have n: "list_all (\<lambda>u. \<not> is_delim_token u) (lex t [])" by simp
  have g: "list_all (\<lambda>u. \<not> is_delim_token u) ts \<Longrightarrow> group cur ts = (if cur @ ts = [] then [] else [cur @ ts])" for cur ts
    by (induction ts arbitrary: cur) auto
  show ?thesis using g [OF n, of "[]"] assms(2) by (simp add: parse_file_lex lex_nil_iff)
qed

text \<open>Cutting a text after its first delimiter.\<close>

lemma first_delim:
  assumes "delims t \<noteq> []"
  obtains x d y where "t = x @ d # y" "is_delimiter d" "delims x = []"
proof -
  have "\<exists>c \<in> set t. is_delimiter c" using assms by (auto simp: delims_def filter_empty_conv)
  from split_list_first_prop [OF this] show thesis
    using that by (auto simp: delims_def filter_empty_conv)
qed

lemma one_sentence:
  assumes "is_delimiter d" and "delims x = []"
  shows "parse_file (x @ [d]) = [lex (x @ [d]) []]"
proof -
  have l: "lex (x @ [d]) [] = butlast (lex (x @ [d]) []) @ [[d]]"
    using lex_last_delim [OF assms(1), of x "[]"] by (metis append_butlast_last_id)
  have n: "list_all (\<lambda>u. \<not> is_delim_token u) (butlast (lex (x @ [d]) w))" if "list_all ordinary w" "delims x = []" for w x
    using that
  proof (induction x w rule: lex.induct)
    case (1 word)
    then show ?case
      using ordinary_no_delim [of word] delim_not_space [OF assms(1)] assms(1) by (simp add: flush_word_def)
  next
    case (2 c cs word)
    have f: "list_all (\<lambda>u. \<not> is_delim_token u) (flush_word word [])"
      using ordinary_no_delim [OF "2.prems"(1)] by (simp add: flush_word_def)
    have c: "\<not> is_delimiter c" "delims cs = []" using "2.prems"(2) by (auto split: if_splits)
    have dw: "delims (dropWhile is_space_char cs) = []"
      using c(2) by (auto simp: delims_def filter_empty_conv dest: set_dropWhileD)
    have w: "list_all ordinary (word @ [c])" if "\<not> is_space_char c" "c \<noteq> NEWLINE"
      by (rule ordinary_snoc [OF "2.prems"(1) that c(1)])
    have tw: "takeWhile is_space_char (cs @ [d]) = takeWhile is_space_char cs"
      "dropWhile is_space_char (cs @ [d]) = dropWhile is_space_char cs @ [d]"
      using takeWhile_before [of is_space_char d cs "[]"] delim_not_space [OF assms(1)] by simp_all
    have ne: "lex (z @ [d]) v \<noteq> []" for z v using lex_last_delim [OF assms(1)] by blast
    show ?case
      using 2 c f dw w ne ordinary_no_delim [OF w] space_run_not_delim [of c "takeWhile is_space_char cs"]
      by (auto simp: tw butlast_append simp del: take_Suc_Cons)
  qed
  have g: "list_all (\<lambda>u. \<not> is_delim_token u) ts \<Longrightarrow> group cur (ts @ [[d]]) = [cur @ ts @ [[d]]]" for cur ts
    using assms(1) by (induction ts arbitrary: cur) auto
  show ?thesis
    unfolding parse_file_lex using g [OF n [of "[]" x], of "[]"] assms(2) l by simp
qed

lemma parse_length:
  "length (parse_file t) = length (delims t) + (if t = [] \<or> is_delimiter (last t) then 0 else 1)"
proof (induction "length t" arbitrary: t rule: less_induct)
  case less
  show ?case
  proof (cases "delims t = []")
    case True
    then have "t \<noteq> [] \<Longrightarrow> \<not> is_delimiter (last t)" by (auto simp: delims_def filter_empty_conv)
    then show ?thesis using True no_delims_parse [OF True] by auto
  next
    case False
    then obtain x d y where t: "t = x @ d # y" "is_delimiter d" "delims x = []" by (rule first_delim)
    then show ?thesis
      using less [of y] parse_append [OF t(2), of x y] one_sentence [OF t(2,3)] by auto
  qed
qed

text \<open>The text of a file around one of its sentences.\<close>

definition around :: "string \<Rightarrow> nat \<Rightarrow> string \<Rightarrow> string \<Rightarrow> string \<Rightarrow> bool" where
  "around s i X M Y \<longleftrightarrow>
     s = X @ M @ Y \<and> parse_file X = take i (parse_file s) \<and> parse_file M = [parse_file s ! i] \<and>
     parse_file s ! i = lex M [] \<and> parse_file Y = drop (i + 1) (parse_file s) \<and>
     (X = [] \<or> is_delimiter (last X)) \<and> M \<noteq> [] \<and> (Y \<noteq> [] \<longrightarrow> is_delimiter (last M))"

lemma aroundD:
  assumes "around s i X M Y"
  shows "X @ M @ Y = s" and "parse_file X = take i (parse_file s)" and "parse_file s ! i = lex M []"
    and "parse_file Y = drop (i + 1) (parse_file s)" and "NUL \<notin> set s \<Longrightarrow> NUL \<notin> set X \<and> NUL \<notin> set M \<and> NUL \<notin> set Y"
  using assms by (auto simp: around_def)

lemma sentence_text: "i < length (parse_file s) \<Longrightarrow> \<exists>X M Y. around s i X M Y"
proof (induction "length s" arbitrary: s i rule: less_induct)
  case less
  show ?case
  proof (cases "delims s = []")
    case True
    then have "s \<noteq> []" using less.prems by auto
    then have "around s i [] s []"
      using no_delims_parse [OF True] less.prems by (simp add: around_def)
    then show ?thesis by blast
  next
    case False
    then obtain x d y where t: "s = x @ d # y" "is_delimiter d" "delims x = []" by (rule first_delim)
    have p: "parse_file s = lex (x @ [d]) [] # parse_file y"
      using parse_append [OF t(2), of x y] one_sentence [OF t(2,3)] t(1) by simp
    show ?thesis
    proof (cases i)
      case 0
      then have "around s i [] (x @ [d]) y"
        using p t one_sentence [OF t(2,3)] by (simp add: around_def)
      then show ?thesis by blast
    next
      case (Suc j)
      then have "length y < length s" "j < length (parse_file y)" using less.prems p t(1) by simp_all
      from less.hyps [OF this] obtain X M Y where r: "around y j X M Y" by blast
      have "parse_file (x @ d # X) = parse_file (x @ [d]) @ parse_file X" by (rule parse_append [OF t(2)])
      then have "parse_file (x @ d # X) = take i (parse_file s)"
        using one_sentence [OF t(2,3)] r by (simp add: p Suc around_def)
      moreover have "s = (x @ d # X) @ M @ Y" using t(1) r by (simp add: around_def)
      moreover have "is_delimiter (last (x @ d # X))" using t(2) r by (auto simp: around_def)
      moreover have "parse_file s ! i = parse_file y ! j" "drop (i + 1) (parse_file s) = drop (j + 1) (parse_file y)"
        by (simp_all add: p Suc)
      ultimately have "around s i (x @ d # X) M Y"
        using r unfolding around_def by metis
      then show ?thesis by blast
    qed
  qed
qed

section \<open>Writing sentences in front of others\<close>

lemma write_append:
  "a \<noteq> [] \<Longrightarrow> b \<noteq> [] \<Longrightarrow>
   write_file_content (a @ b) = write_file_content a @ sentence_gap (last a) (hd b) @ write_file_content b"
proof (induction a rule: write_file_content.induct)
  case (2 s)
  then show ?case by (cases b) auto
qed auto

lemma sentence_gap_blank: "list_all is_space_char (sentence_gap s t)"
  by (auto simp: sentence_gap_def is_space_char_def split: list.splits)

lemma spaces_delims: "list_all is_space_char g \<Longrightarrow> delims g = [] \<and> filter visible g = []"
  using delim_not_space by (auto simp: delims_def filter_empty_conv list_all_iff visible_def)

text \<open>The end of a written file: a delimiter exactly when the text ends with one.\<close>

lemma lex_last:
  assumes "t \<noteq> []" and w: "list_all ordinary w"
  shows "is_delim_token (last (lex t w)) \<longleftrightarrow> is_delimiter (last t)"
proof -
  obtain x d where t: "t = x @ [d]" using assms(1) by (cases t rule: rev_cases) auto
  show ?thesis
  proof (cases "is_delimiter d")
    case True
    then show ?thesis using lex_last_delim [OF True, of x w] t by simp
  next
    case False
    have "\<not> is_delim_token (last (lex (x @ [d]) w))"
      using w False
    proof (induction x w rule: lex.induct)
      case (1 word)
      then show ?case
        using ordinary_no_delim [of "word @ [d]"] ordinary_snoc [of word d]
        by (auto simp: flush_word_def)
    next
      case (2 c cs word)
      have w: "list_all ordinary (word @ [c])" if "ordinary c" using that "2.prems" by simp
      have ne: "lex (z @ [d]) v \<noteq> []" for z v by (simp add: lex_nil_iff)
      have sp: "dropWhile is_space_char (cs @ [d]) =
          (if \<forall>c \<in> set cs. is_space_char c then (if is_space_char d then [] else [d])
           else dropWhile is_space_char cs @ [d])"
        by (auto simp: dropWhile_append)
      have one: "\<not> is_delim_token (last (lex [d] []))" if "\<not> is_space_char d"
        using that "2.prems"(2) by (simp add: flush_word_def is_delim_token_def starts_delim_def c_str_def class_facts)
      show ?case
      proof (cases "ordinary c")
        case True
        then have "\<not> is_space_char c" "c \<noteq> NEWLINE" "\<not> is_delimiter c" by (simp_all add: ordinary_def)
        then show ?thesis using 2 w [OF True] ne by simp
      next
        case nord: False
        show ?thesis
        proof (cases "is_space_char c")
          case True
          have e: "dropWhile is_space_char cs = []" if "\<forall>c \<in> set cs. is_space_char c"
            using that by (induction cs) auto
          show ?thesis
            using 2(1) [OF True] "2.prems"(2) True sp ne one e space_run_not_delim [OF True, of "takeWhile is_space_char (cs @ [d])"]
            by (auto simp: flush_word_def simp del: take_Suc_Cons split: if_splits)
        next
          case ns: False
          then have "c = NEWLINE \<or> is_delimiter c" using nord by (simp add: ordinary_def)
          then show ?thesis using 2(2) [OF ns] "2.prems"(2) ns ne by auto
        qed
      qed
    qed
    then show ?thesis using False t by simp
  qed
qed

lemma render_last: "ts \<noteq> [] \<Longrightarrow> last ts \<noteq> [] \<Longrightarrow> render ts \<noteq> [] \<and> last (render ts) = last (last ts)"
  by (induction ts rule: render.induct) (auto split: if_splits)

lemma lexeme_last_delim: "lexeme t \<Longrightarrow> is_delimiter (last t) \<longleftrightarrow> is_delim_token t"
proof (cases "is_delim_token t")
  case True
  then show ?thesis by (auto simp: is_delim_token_def starts_delim_def length_Suc_conv)
next
  case False
  assume t: "lexeme t"
  have "last t \<in> set t" using lexeme_hd(1) [OF t] by simp
  then show ?thesis using lexeme_no_delim [OF t False] False by (auto simp: list_all_iff)
qed

lemma lexemes_last: "lexemes ts \<Longrightarrow> ts \<noteq> [] \<Longrightarrow> lexeme (last ts)"
  by (induction ts rule: lexemes.induct) auto

lemma write_last:
  assumes "NUL \<notin> set t" and "t \<noteq> []"
  shows "write_file_content (parse_file t) \<noteq> [] \<and>
         (is_delimiter (last (write_file_content (parse_file t))) \<longleftrightarrow> is_delimiter (last t))"
proof -
  have ne: "lex t [] \<noteq> []" using assms(2) by (simp add: lex_nil_iff)
  have l: "lexeme (last (lex t []))"
    using lexemes_last [OF lex_lexemes ne] assms(1) by simp
  show ?thesis
    using render_last [OF ne lexeme_hd(1) [OF l]] lexeme_last_delim [OF l] lex_last [OF assms(2), of "[]"]
    by (simp add: write_parse)
qed

lemma write_delims: "NUL \<notin> set t \<Longrightarrow> delims (write_file_content (parse_file t)) = delims t"
  using write_parse_visible [of t] delims_visible by metis

text \<open>
  Text without a delimiter in front of a written file does not change the number of its
  sentences: it joins the first one.
\<close>

lemma parse_write_length:
  assumes "NUL \<notin> set t" and "delims g = []" and "t \<noteq> []"
  shows "length (parse_file (g @ write_file_content (parse_file t))) = length (parse_file t)"
  using write_last [OF assms(1,3)] write_delims [OF assms(1)] assms(2,3)
  by (simp add: parse_length)

section \<open>Cutting an edited copy into sentences again\<close>

lemma visible_nul: "NUL \<in> set t \<longleftrightarrow> NUL \<in> set (filter visible t)"
  by (auto simp: visible_def is_space_char_def)

lemma visible_nul_free:
  assumes "filter visible t = filter visible u" and "NUL \<notin> set u"
  shows "NUL \<notin> set t"
proof -
  have "NUL \<notin> set (filter visible u)" using assms(2) by (rule contrapos_nn) (simp only: set_filter, blast)
  then have "NUL \<notin> set (filter visible t)" by (simp only: assms(1) not_False_eq_True)
  then show ?thesis by (rule contrapos_nn) (rule iffD1 [OF visible_nul])
qed

lemma spaces_nul_free: "list_all is_space_char g \<Longrightarrow> NUL \<notin> set g"
proof -
  have "\<not> is_space_char NUL" by (simp add: is_space_char_def)
  then show "list_all is_space_char g \<Longrightarrow> NUL \<notin> set g" unfolding list_all_iff by blast
qed

lemma lex_visible0: "NUL \<notin> set t \<Longrightarrow> filter visible (concat (lex t [])) = filter visible t"
  using lex_visible [of "[]" t] by simp

lemma parse_visible: "NUL \<notin> set t \<Longrightarrow> filter visible (concat (concat (parse_file t))) = filter visible t"
  by (simp add: parse_file_lex concat_group lex_visible0)

lemma write_empties: "list_all is_space_char (write_file_content (replicate m []))"
proof (induction m)
  case (Suc m)
  then show ?case by (cases m) (simp_all add: sentence_gap_def)
qed simp

lemma write_pad:
  assumes "D \<noteq> []"
  obtains b where "list_all is_space_char b" "write_file_content (D @ replicate m []) = write_file_content D @ b"
proof (cases m)
  case 0
  then show thesis using that [of "[]"] by simp
next
  case (Suc k)
  then have "write_file_content (D @ replicate m []) =
      write_file_content D @ sentence_gap (last D) [] @ write_file_content (replicate m [])"
    using write_append [OF assms, of "replicate m []"] by simp
  then show thesis
    using that [of "sentence_gap (last D) [] @ write_file_content (replicate m [])"]
      write_empties [of m] sentence_gap_blank [of "last D" "[]"] by simp
qed

lemma write_words_last: "ws \<noteq> [] \<Longrightarrow> last ws \<noteq> [] \<Longrightarrow> write_words ws \<noteq> [] \<and> last (write_words ws) = last (last ws)"
  by (induction ws rule: write_words.induct) (auto split: if_splits)

lemma write_content_last:
  "D \<noteq> [] \<Longrightarrow> last D \<noteq> [] \<Longrightarrow> last (last D) \<noteq> [] \<Longrightarrow>
   write_file_content D \<noteq> [] \<and> last (write_file_content D) = last (last (last D))"
  by (induction D rule: write_file_content.induct) (auto simp: write_words_last split: if_splits)

text \<open>
  A sentence that was cut at most once and padded with empty sentences, in which the old
  end has stayed the end: its text is closed by the old final delimiter, up to blanks.
\<close>

lemma closed_text:
  assumes "length s2 \<le> 1" and "s1 @ concat s2 = front @ back" and "back \<noteq> []" and "last back = [d]"
  obtains W b where "write_file_content (s1 # s2 @ replicate m []) = W @ b" "list_all is_space_char b"
    "W \<noteq> []" "last W = d"
proof -
  have l: "last (s1 @ concat s2) = [d]" and ne: "s1 @ concat s2 \<noteq> []" using assms by simp_all
  obtain D k where D: "s1 # s2 @ replicate m [] = D @ replicate k []" "D \<noteq> []" "last D \<noteq> []" "last (last D) = [d]"
  proof (cases "concat s2 = []")
    case True
    then have "s2 = [] \<or> s2 = [[]]" using assms(1) by (cases s2) auto
    then have "s1 # s2 @ replicate m [] = [s1] @ replicate (length s2 + m) []" by auto
    then show thesis using that [of "[s1]" "length s2 + m"] True l ne by simp
  next
    case False
    then obtain x where "s2 = [x]" "x \<noteq> []" using assms(1) by (cases s2) auto
    then show thesis using that [of "[s1, x]" m] l by simp
  qed
  from write_pad [OF D(2), of k] obtain b where
    "list_all is_space_char b" "write_file_content (s1 # s2 @ replicate m []) = write_file_content D @ b"
    using D(1) by metis
  then show thesis
    using that [of "write_file_content D" b] write_content_last [OF D(2,3)] D(4) by simp
qed

lemma reparse_edit:
  assumes nul: "NUL \<notin> set s" and i: "i < length (parse_file s)" and ar: "around s i X M Y"
    and s2: "length s2 \<le> 1" and C: "s1 @ concat s2 = take a (lex M []) @ parts @ drop a (lex M [])"
    and inside: "Y \<noteq> [] \<longrightarrow> a < length (lex M [])" and pn: "NUL \<notin> set (concat parts)"
  shows "\<exists>pre mods post.
    parse_file (write_file_content (take i (parse_file s) @ s1 # s2 @ replicate m [] @ drop (i + 1) (parse_file s))) =
      pre @ mods @ post \<and> length pre = i \<and> length post = length (parse_file s) - (i + 1) \<and>
    filter visible (concat (concat mods)) = filter visible (concat (s1 @ concat s2))"
proof -
  let ?C = "s1 # s2 @ replicate m []"
  let ?P = "write_file_content (parse_file X)"
  let ?R = "write_file_content (?C @ parse_file Y)"
  have X: "parse_file X = take i (parse_file s)" and Y: "parse_file Y = drop (i + 1) (parse_file s)"
    and nulX: "NUL \<notin> set X" and nulM: "NUL \<notin> set M" and nulY: "NUL \<notin> set Y"
    and Xend: "X = [] \<or> is_delimiter (last X)" and Mend: "Y \<noteq> [] \<longrightarrow> is_delimiter (last M)" and M: "M \<noteq> []"
    using ar nul by (auto simp: around_def)
  have vC: "filter visible (write_file_content ?C) = filter visible (concat (s1 @ concat s2))"
    by (simp add: write_visible)
  have "NUL \<notin> set (concat (lex M []))"
    by (rule visible_nul_free [OF lex_visible0 [OF nulM] nulM])
  then have nC: "NUL \<notin> set (concat (s1 @ concat s2))"
    unfolding C using pn by (auto dest: in_set_takeD in_set_dropD)
  obtain g1 where g1: "list_all is_space_char g1"
    and T: "write_file_content (take i (parse_file s) @ ?C @ drop (i + 1) (parse_file s)) = ?P @ g1 @ ?R"
  proof (cases "parse_file X = []")
    case True
    then have "take i (parse_file s) = []" using X by (simp del: parse_nil_iff)
    then show thesis using that [of "[]"] Y True by (simp only: append_Nil write_file_content.simps list.pred_inject append_assoc)
  next
    case False
    have "?C @ parse_file Y \<noteq> []" by simp
    from that [OF sentence_gap_blank] write_append [OF False this] show thesis
      using X Y by (simp only: append_assoc)
  qed
  have "length (parse_file ?P) = length (parse_file X)"
    using parse_write_length [OF nulX, of "[]"] by (cases "X = []") simp_all
  also have "\<dots> = i" unfolding X using i by simp
  finally have P1: "length (parse_file ?P) = i" .
  have P2: "?P = [] \<or> is_delimiter (last ?P)"
    using write_last [OF nulX] Xend by (cases "X = []") simp_all
  note P = P1 P2
  have TP: "parse_file (?P @ g1 @ ?R) = parse_file ?P @ parse_file (g1 @ ?R)"
    by (rule parse_split [OF P(2)])
  show ?thesis
  proof (cases "Y = []")
    case True
    then have R: "?R = write_file_content ?C" by simp
    have "NUL \<notin> set (g1 @ ?R)"
      unfolding R using visible_nul_free [OF vC nC] spaces_nul_free [OF g1] by simp
    from parse_visible [OF this]
    have "filter visible (concat (concat (parse_file (g1 @ ?R)))) = filter visible (concat (s1 @ concat s2))"
      unfolding filter_append using vC spaces_delims [OF g1] R by simp
    moreover have "length (parse_file s) - (i + 1) = 0" using True Y by simp
    ultimately show ?thesis
      using T TP P(1) by (intro exI [of _ "parse_file ?P"] exI [of _ "parse_file (g1 @ ?R)"] exI [of _ "[]"]) simp
  next
    case False
    have "drop a (lex M []) \<noteq> []" using inside False by simp
    moreover have "last (lex M []) = [last M]"
      using Mend False lex_last_delim [of "last M" "butlast M" "[]"] M by simp
    ultimately have "last (drop a (lex M [])) = [last M]" by (simp add: last_drop)
    then obtain W b where W: "write_file_content ?C = W @ b" "list_all is_space_char b" "W \<noteq> []" "last W = last M"
      using closed_text [OF s2, of s1 "take a (lex M []) @ parts" "drop a (lex M [])"] C \<open>drop a (lex M []) \<noteq> []\<close>
      by (metis append.assoc)
    let ?g = "b @ sentence_gap (last ?C) (hd (parse_file Y))"
    have R: "?R = W @ ?g @ write_file_content (parse_file Y)"
      using write_append [of ?C "parse_file Y"] False W(1) by simp
    have g: "list_all is_space_char ?g" using W(2) sentence_gap_blank by simp
    have sp: "parse_file ((g1 @ W) @ ?g @ write_file_content (parse_file Y)) =
        parse_file (g1 @ W) @ parse_file (?g @ write_file_content (parse_file Y))"
      using Mend False W(3,4) by (intro parse_split) simp
    have vW: "filter visible W = filter visible (concat (s1 @ concat s2))"
      using vC W(1) spaces_delims [OF W(2)] by simp
    have "NUL \<notin> set (g1 @ W)"
      using visible_nul_free [OF vW nC] spaces_nul_free [OF g1] by simp
    from parse_visible [OF this]
    have "filter visible (concat (concat (parse_file (g1 @ W)))) = filter visible (concat (s1 @ concat s2))"
      unfolding filter_append using vW spaces_delims [OF g1] by simp
    moreover have "length (parse_file (?g @ write_file_content (parse_file Y))) = length (parse_file s) - (i + 1)"
      using parse_write_length [OF nulY conjunct1 [OF spaces_delims [OF g]] False]
      unfolding Y by (simp only: length_drop)
    ultimately show ?thesis
      using T TP sp P(1) unfolding R
      by (intro exI [of _ "parse_file ?P"] exI [of _ "parse_file (g1 @ W)"]
          exI [of _ "parse_file (?g @ write_file_content (parse_file Y))"]) simp
  qed
qed

lemma write_words_append:
  "ws \<noteq> [] \<Longrightarrow> vs \<noteq> [] \<Longrightarrow>
   write_words (ws @ vs) = write_words ws @ word_gap (last ws) (hd vs) @ write_words vs"
proof (induction ws rule: write_words.induct)
  case (2 w)
  then show ?case by (cases vs) auto
qed auto

text \<open>
  Tokens without a delimiter put behind the final delimiter of a sentence that is not the
  last one end up in the next sentence.
\<close>

lemma reparse_after_stop:
  assumes nul: "NUL \<notin> set s" and i: "i < length (parse_file s)" and ar: "around s i X M Y"
    and Yne: "Y \<noteq> []" and pd: "delims (concat parts) = []" and pne: "parts \<noteq> []"
  shows "\<exists>pre mods post.
    parse_file (write_file_content (take i (parse_file s) @ (lex M [] @ parts) # drop (i + 1) (parse_file s))) =
      pre @ mods @ post \<and> length pre = i \<and> length post = length (parse_file s) - (i + 1) \<and>
    filter visible (concat (concat mods)) = filter visible M"
proof -
  let ?P = "write_file_content (parse_file X)" and ?W = "write_words (lex M [])"
  let ?R = "write_file_content ([lex M [] @ parts] @ parse_file Y)"
  have X: "parse_file X = take i (parse_file s)" and Y: "parse_file Y = drop (i + 1) (parse_file s)"
    and nulX: "NUL \<notin> set X" and nulM: "NUL \<notin> set M" and nulY: "NUL \<notin> set Y"
    and Xend: "X = [] \<or> is_delimiter (last X)" and Mend: "is_delimiter (last M)" and M: "M \<noteq> []"
    using ar nul Yne by (auto simp: around_def)
  have lM: "last (lex M []) = [last M]" "lex M [] \<noteq> []"
    using lex_last_delim [OF Mend, of "butlast M" "[]"] M by simp_all
  obtain g1 where g1: "list_all is_space_char g1"
    and T: "write_file_content (take i (parse_file s) @ [lex M [] @ parts] @ drop (i + 1) (parse_file s)) = ?P @ g1 @ ?R"
  proof (cases "parse_file X = []")
    case True
    then have "take i (parse_file s) = []" using X by (simp del: parse_nil_iff)
    then show thesis using that [of "[]"] Y True by (simp only: append_Nil write_file_content.simps list.pred_inject append_assoc)
  next
    case False
    have "[lex M [] @ parts] @ parse_file Y \<noteq> []" by simp
    from that [OF sentence_gap_blank] write_append [OF False this] show thesis
      using X Y by (simp only: append_assoc)
  qed
  have "length (parse_file ?P) = length (parse_file X)"
    using parse_write_length [OF nulX, of "[]"] by (cases "X = []") simp_all
  also have "\<dots> = i" unfolding X using i by simp
  finally have P1: "length (parse_file ?P) = i" .
  have P2: "?P = [] \<or> is_delimiter (last ?P)"
    using write_last [OF nulX] Xend by (cases "X = []") simp_all
  have gap: "word_gap (last (lex M [])) (hd parts) = []"
    using Mend by (simp add: lM word_gap_def)
  let ?Z = "write_words parts @ sentence_gap (lex M [] @ parts) (hd (parse_file Y))"
  have R: "?R = ?W @ ?Z @ write_file_content (parse_file Y)"
    using write_append [of "[lex M [] @ parts]" "parse_file Y"] write_words_append [OF lM(2) pne] gap Yne by simp
  have Wl: "?W \<noteq> []" "last ?W = last M" using write_words_last [OF lM(2)] lM(1) by simp_all
  have sp: "parse_file ((g1 @ ?W) @ ?Z @ write_file_content (parse_file Y)) =
      parse_file (g1 @ ?W) @ parse_file (?Z @ write_file_content (parse_file Y))"
    using Mend Wl by (intro parse_split) simp
  have vW: "filter visible ?W = filter visible M" by (simp add: render_any_visible lex_visible0 nulM)
  have "NUL \<notin> set (g1 @ ?W)"
    using visible_nul_free [OF vW nulM] spaces_nul_free [OF g1] by simp
  from parse_visible [OF this]
  have v: "filter visible (concat (concat (parse_file (g1 @ ?W)))) = filter visible M"
    unfolding filter_append using vW spaces_delims [OF g1] by simp
  have "delims (filter visible (write_words parts)) = delims (filter visible (concat parts))"
    by (simp add: render_any_visible)
  then have "delims ?Z = []"
    using pd spaces_delims [OF sentence_gap_blank] by (simp add: delims_visible)
  from parse_write_length [OF nulY this Yne]
  have "length (parse_file (?Z @ write_file_content (parse_file Y))) = length (parse_file s) - (i + 1)"
    unfolding Y by (simp only: length_drop)
  then show ?thesis
    using T parse_split [OF P2, of "g1 @ ?R"] sp P1 v unfolding R
    by (intro exI [of _ "parse_file ?P"] exI [of _ "parse_file (g1 @ ?W)"]
        exI [of _ "parse_file (?Z @ write_file_content (parse_file Y))"]) simp
qed

text \<open>The insertion of a word into a sentence of a file, and the file that is written after it.\<close>

lemma insert_reparsed:
  assumes "NUL \<notin> set txt" and "i < length (parse_file txt)" and "ws = parse_file txt ! i"
    and "1 \<le> word_idx" and "word_idx \<le> int (real_word_count ws) + 1"
    and "insert_index word_idx ws < length ws \<or> i + 1 = length (parse_file txt)"
    and "NUL \<notin> set word" and "longest_run ordinary 0 word \<le> 127" and "length (lex word []) \<le> 10" and "word \<noteq> []"
  obtains s1 s2 m new pre mods post where
    "insert_word_in_sentence (parse_file txt) (int i) word_idx word =
       Some (take i (parse_file txt) @ s1 # s2 @ replicate m [] @ drop (i + 1) (parse_file txt), int new)"
    "s1 @ concat s2 = take (insert_index word_idx ws) ws @ lex word [] @ drop (insert_index word_idx ws) ws"
    "delims word = [] \<Longrightarrow> s2 = [] \<and> m = 0"
    "parse_file (write_file_content (take i (parse_file txt) @ s1 # s2 @ replicate m [] @ drop (i + 1) (parse_file txt))) = pre @ mods @ post"
    "length pre = i" "length post = length (parse_file txt) - (i + 1)"
    "filter visible (concat (concat mods)) = filter visible (concat (s1 @ concat s2))"
proof -
  let ?a = "insert_index word_idx ws" and ?fc = "parse_file txt"
  obtain X M Y where ar: "around txt i X M Y" using sentence_text [OF assms(2)] by blast
  have ws: "ws = lex M []" using aroundD(3) [OF ar] assms(3) by simp
  have target: "target_sentence ?fc (int i) = ws" using assms(2,3) by (simp add: target_sentence_def)
  have "valid_position ?fc (int i) word_idx"
    using assms(2,4,5) by (simp add: valid_position_def target)
  moreover obtain parts where p: "split_by_delimiters word = Some parts"
    using split_within [of "[]" word 10 "[]"] assms(7-9) by (auto simp: split_by_delimiters_def)
  moreover have parts: "parts = lex word []" by (rule split_lex [OF p assms(7)])
  then have "parts \<noteq> []" using assms(10) by (simp add: lex_nil_iff)
  moreover have "\<not> (?fc = [[]] \<and> int i = 1)" using assms(2) by auto
  ultimately obtain s1 s2 m new where r:
    "insert_word_in_sentence ?fc (int i) word_idx word = Some (take i ?fc @ s1 # s2 @ replicate m [] @ drop (i + 1) ?fc, int new)"
    "length s2 + m = new" "length s2 \<le> 1"
    "new = length (filter starts_delim parts) + (if last_delimiter parts = None then 0 else 1)"
    "s1 @ concat s2 = take ?a ws @ parts @ drop ?a ws"
    using insert_result [of ?fc "int i" word_idx word parts] unfolding target by (metis nat_int)
  have vp: "filter visible (concat parts) = filter visible word" using lex_visible0 [OF assms(7)] parts by simp
  have plain: "s2 = [] \<and> m = 0" if "delims word = []"
  proof -
    have "delims (concat parts) = []" using vp that delims_visible by metis
    then have "filter starts_delim parts = []"
      by (auto simp: filter_empty_conv delims_def starts_delim_def split: list.splits)
    then have "new = 0" using r(4) last_delimiter_None [of parts] by simp
    then show ?thesis using r(2) by auto
  qed
  have Y: "Y \<noteq> [] \<longrightarrow> ?a < length (lex M [])"
    using assms(6) aroundD(4) [OF ar] ws by auto
  obtain pre mods post where c:
    "parse_file (write_file_content (take i ?fc @ s1 # s2 @ replicate m [] @ drop (i + 1) ?fc)) = pre @ mods @ post"
    "length pre = i" "length post = length ?fc - (i + 1)"
    "filter visible (concat (concat mods)) = filter visible (concat (s1 @ concat s2))"
    using reparse_edit [OF assms(1,2) ar r(3) r(5) [unfolded ws] Y [folded ws, unfolded ws] visible_nul_free [OF vp assms(7)]] by blast
  show thesis using that [OF r(1) _ plain c] r(5) parts by simp
qed

end
