(* ===== verification/FileStore.thy ===== *)
theory FileStore
  imports Prelude
begin

text \<open>
  The files a storage server keeps, and the undo backups and checkpoints of
  \<^verbatim>\<open>file_ops.c\<close>. The file system is a map from path strings to bytes, with a set of
  directories and a permission predicate that decides whether a file may be opened for
  writing. Paths are compared as strings, after the truncation of \<^verbatim>\<open>snprintf\<close>.
\<close>

section \<open>The file system\<close>

record file_system =
  contents :: "string \<Rightarrow> string option"
  dirs :: "string \<Rightarrow> bool"
  permitted :: "string \<Rightarrow> bool"

definition parent_dir :: "string \<Rightarrow> string" where
  "parent_dir p = rev (drop 1 (dropWhile (\<lambda>c. c \<noteq> CHR ''/'') (rev p)))"

text \<open>\<^verbatim>\<open>access(p, F_OK) == 0\<close> and \<^verbatim>\<open>stat(p, &st) == 0\<close>\<close>

definition fs_exists :: "file_system \<Rightarrow> string \<Rightarrow> bool" where
  "fs_exists fs p \<longleftrightarrow> contents fs p \<noteq> None \<or> dirs fs p"

text \<open>\<^verbatim>\<open>fopen(p, "r")\<close> and reading to the end; a directory can be opened and reads as empty.\<close>

definition fs_read :: "file_system \<Rightarrow> string \<Rightarrow> string option" where
  "fs_read fs p = (case contents fs p of Some s \<Rightarrow> Some s | None \<Rightarrow> if dirs fs p then Some [] else None)"

definition fs_writable :: "file_system \<Rightarrow> string \<Rightarrow> bool" where
  "fs_writable fs p \<longleftrightarrow> dirs fs (parent_dir p) \<and> \<not> dirs fs p \<and> permitted fs p"

text \<open>\<^verbatim>\<open>fopen(p, "w")\<close>, writing and closing; the flag is the failure of \<^verbatim>\<open>fopen\<close>.\<close>

definition fs_write :: "file_system \<Rightarrow> string \<Rightarrow> string \<Rightarrow> file_system \<times> int" where
  "fs_write fs p s =
     (if fs_writable fs p then (fs\<lparr>contents := (contents fs)(p := Some s)\<rparr>, 0) else (fs, - 1))"

definition fs_unlink :: "file_system \<Rightarrow> string \<Rightarrow> file_system \<times> int" where
  "fs_unlink fs p =
     (if contents fs p = None then (fs, - 1) else (fs\<lparr>contents := (contents fs)(p := None)\<rparr>, 0))"

definition fs_rename :: "file_system \<Rightarrow> string \<Rightarrow> string \<Rightarrow> file_system \<times> int" where
  "fs_rename fs old new =
     (case contents fs old of
        None \<Rightarrow> (fs, - 1)
      | Some s \<Rightarrow>
          if fs_writable fs new
          then (fs\<lparr>contents := (contents fs)(old := None, new := Some s)\<rparr>, 0) else (fs, - 1))"

definition fs_mkdir :: "file_system \<Rightarrow> string \<Rightarrow> file_system" where
  "fs_mkdir fs p =
     (if fs_exists fs p \<or> \<not> dirs fs (parent_dir p) \<or> \<not> permitted fs p then fs
      else fs\<lparr>dirs := (dirs fs)(p := True)\<rparr>)"

text \<open>
  The copy loops of \<^verbatim>\<open>file_ops.c\<close> and \<^verbatim>\<open>ss.c\<close>: the source is open when the destination is
  truncated, so that a file copied onto itself ends up empty.
\<close>

definition copy_file :: "file_system \<Rightarrow> string \<Rightarrow> string \<Rightarrow> file_system \<times> int" where
  "copy_file fs src dst =
     (if fs_read fs src = None then (fs, - 1)
      else let (fs1, r) = fs_write fs dst [] in
        if r < 0 then (fs, - 2)
        else (fst (fs_write fs1 dst (case fs_read fs1 src of None \<Rightarrow> [] | Some s \<Rightarrow> s)), 0))"

section \<open>Undo backups and checkpoints\<close>

definition undo_path :: "string \<Rightarrow> string" where
  "undo_path filepath = c_copy MAX_PATH (filepath @ ''.undo'')"

definition checkpoint_path :: "string \<Rightarrow> string \<Rightarrow> string" where
  "checkpoint_path filepath tag = c_copy MAX_PATH (filepath @ ''.checkpoint_'' @ tag)"

definition create_undo_backup :: "file_system \<Rightarrow> string \<Rightarrow> file_system \<times> int" where
  "create_undo_backup fs filepath =
     (let (fs', r) = copy_file fs filepath (undo_path filepath) in (fs', if r < 0 then - 1 else 0))"

definition restore_from_undo :: "file_system \<Rightarrow> string \<Rightarrow> file_system \<times> int" where
  "restore_from_undo fs filepath =
     (if \<not> fs_exists fs (undo_path filepath) then (fs, - 1)
      else let (fs', r) = copy_file fs (undo_path filepath) filepath in
        if r < 0 then (fs', - 1) else (fst (fs_unlink fs' (undo_path filepath)), 200))"

definition undo_backup_exists :: "file_system \<Rightarrow> string \<Rightarrow> bool" where
  "undo_backup_exists fs filepath \<longleftrightarrow> fs_exists fs (undo_path filepath)"

definition create_checkpoint :: "file_system \<Rightarrow> string \<Rightarrow> string \<Rightarrow> file_system \<times> int" where
  "create_checkpoint fs filepath tag =
     (let cp = checkpoint_path filepath tag in
      if fs_exists fs cp then (fs, ERR_FILE_EXISTS)
      else let (fs', r) = copy_file fs filepath cp in
        (fs', if r = - 1 then ERR_FILE_NOT_FOUND else if r = - 2 then ERR_SERVER_ERROR else SUCCESS))"

text \<open>
  The names \<^verbatim>\<open>readdir\<close> returns are an argument, in its order. Each line is printed into what
  is left of the buffer; the position advances by the untruncated length.
\<close>

fun list_tags :: "nat \<Rightarrow> string \<Rightarrow> string list \<Rightarrow> string \<Rightarrow> nat \<Rightarrow> string \<times> nat" where
  "list_tags bufsize prefix [] buf pos = (buf, pos)"
| "list_tags bufsize prefix (e # es) buf pos =
     (if take (length prefix) e = prefix
      then let line = drop (length prefix) e @ [NEWLINE];
               buf' = buf @ take (bufsize - pos - 1) line;
               pos' = pos + length line
           in if pos' \<ge> bufsize - 1 then (buf', pos') else list_tags bufsize prefix es buf' pos'
      else list_tags bufsize prefix es buf pos)"

definition base_name :: "string \<Rightarrow> string" where
  "base_name p = rev (takeWhile (\<lambda>c. c \<noteq> CHR ''/'') (rev p))"

definition list_checkpoints :: "string list option \<Rightarrow> string \<Rightarrow> nat \<Rightarrow> string \<times> int" where
  "list_checkpoints entries filepath bufsize =
     (case entries of
        None \<Rightarrow> ([], ERR_SERVER_ERROR)
      | Some es \<Rightarrow>
          (let (buf, pos) = list_tags bufsize (c_copy MAX_PATH (base_name filepath @ ''.checkpoint_'')) es [] 0
           in (if pos = 0 then ''No checkpoints found.'' @ [NEWLINE] else buf, SUCCESS)))"

definition view_checkpoint :: "file_system \<Rightarrow> string \<Rightarrow> string \<Rightarrow> nat \<Rightarrow> string \<times> int" where
  "view_checkpoint fs filepath tag bufsize =
     (case fs_read fs (checkpoint_path filepath tag) of
        None \<Rightarrow> ([], ERR_FILE_NOT_FOUND)
      | Some s \<Rightarrow> (c_str (take (bufsize - 1) s), SUCCESS))"

definition revert_to_checkpoint :: "file_system \<Rightarrow> string \<Rightarrow> string \<Rightarrow> file_system \<times> int" where
  "revert_to_checkpoint fs filepath tag =
     (let cp = checkpoint_path filepath tag in
      if \<not> fs_exists fs cp then (fs, ERR_FILE_NOT_FOUND)
      else let fs1 = fst (create_undo_backup fs filepath);
               (fs2, r) = copy_file fs1 cp filepath
           in (fs2, if r = - 1 then ERR_FILE_NOT_FOUND else if r = - 2 then ERR_SERVER_ERROR else SUCCESS))"

section \<open>The interface of a file store\<close>

text \<open>
  What the backups, the checkpoints and the storage server rely on: what a path holds after
  a store or a removal, and that neither changes which paths can be written.
\<close>

locale file_store =
  fixes lookup :: "'f \<Rightarrow> string \<Rightarrow> string option"
    and store :: "'f \<Rightarrow> string \<Rightarrow> string \<Rightarrow> 'f \<times> int"
    and remove :: "'f \<Rightarrow> string \<Rightarrow> 'f \<times> int"
    and usable :: "'f \<Rightarrow> string \<Rightarrow> bool"
  assumes lookup_store:
      "lookup (fst (store f p s)) q = (if usable f p \<and> q = p then Some s else lookup f q)"
    and status_store: "snd (store f p s) = (if usable f p then 0 else - 1)"
    and lookup_remove: "lookup (fst (remove f p)) q = (if q = p then None else lookup f q)"
    and usable_store: "usable (fst (store f p s)) q = usable f q"
    and usable_remove: "usable (fst (remove f p)) q = usable f q"
begin

lemma store_fun: "lookup (fst (store f p s)) = (if usable f p then (lookup f)(p := Some s) else lookup f)"
  by (simp add: fun_eq_iff lookup_store)

lemma remove_fun: "lookup (fst (remove f p)) = (lookup f)(p := None)"
  by (simp add: fun_eq_iff lookup_remove)

lemma store_twice: "lookup (fst (store (fst (store f p s)) p t)) = lookup (fst (store f p t))"
  by (simp add: fun_eq_iff lookup_store usable_store)

lemma backup_and_restore:
  assumes "usable f p" and "usable f b" and "p \<noteq> b" and "lookup f p = Some s"
  shows "let f1 = fst (store f b s); f2 = fst (store f1 p t); f3 = fst (store f2 p (the (lookup f2 b)))
         in lookup (fst (remove f3 b)) = (lookup f)(b := None)"
  using assms by (simp add: fun_eq_iff Let_def lookup_store lookup_remove usable_store)

end

lemma fs_write_fields [simp]:
  "dirs (fst (fs_write fs p s)) = dirs fs" "permitted (fst (fs_write fs p s)) = permitted fs"
  "dirs (fst (fs_unlink fs p)) = dirs fs" "permitted (fst (fs_unlink fs p)) = permitted fs"
  by (simp_all add: fs_write_def fs_unlink_def)

interpretation disk: file_store contents fs_write fs_unlink fs_writable
  by unfold_locales (auto simp: fs_write_def fs_unlink_def fs_writable_def)

lemmas disk_laws [store_simps] =
  disk.lookup_store disk.status_store disk.lookup_remove disk.usable_store disk.usable_remove

section \<open>Copies\<close>

lemma fs_read_file: "contents fs p = Some s \<Longrightarrow> fs_read fs p = Some s"
  by (simp add: fs_read_def)

lemma copy_file_ok:
  assumes "contents fs src = Some s" and "src \<noteq> dst" and "fs_writable fs dst"
  shows "copy_file fs src dst = (fst (fs_write fs dst s), 0)"
proof -
  define f1 where "f1 = fst (fs_write fs dst [])"
  have "fs_write fs dst [] = (f1, 0)" using assms(3) by (simp add: f1_def fs_write_def)
  moreover have "contents f1 src = Some s" using assms by (simp add: f1_def store_simps)
  ultimately have "copy_file fs src dst = (fst (fs_write f1 dst s), 0)"
    using assms(1) by (simp add: copy_file_def fs_read_file)
  also have "fst (fs_write f1 dst s) = fst (fs_write fs dst s)"
    using assms(3) by (simp add: f1_def fs_write_def fs_writable_def)
  finally show ?thesis .
qed

lemma copy_file_missing: "fs_read fs src = None \<Longrightarrow> copy_file fs src dst = (fs, - 1)"
  by (simp add: copy_file_def)

lemma copy_file_denied:
  "fs_read fs src \<noteq> None \<Longrightarrow> \<not> fs_writable fs dst \<Longrightarrow> copy_file fs src dst = (fs, - 2)"
  by (auto simp: copy_file_def fs_write_def)

text \<open>The three paths that belong to a file are different as long as they are not truncated.\<close>

lemma undo_path_distinct: "length p + 5 < MAX_PATH \<Longrightarrow> undo_path p = p @ ''.undo'' \<and> undo_path p \<noteq> p"
  by (simp add: undo_path_def c_copy_fits)

lemma checkpoint_path_distinct:
  "length p + 12 + length tag < MAX_PATH \<Longrightarrow>
   checkpoint_path p tag = p @ ''.checkpoint_'' @ tag \<and> checkpoint_path p tag \<noteq> p \<and>
   checkpoint_path p tag \<noteq> undo_path p"
  using undo_path_distinct [of p] by (simp add: checkpoint_path_def c_copy_fits)

section \<open>Properties\<close>

text \<open>
  C34. An undo backup brings the file back: after a backup and any overwriting of the file,
  restoring returns 200, the file holds its old bytes, the backup is gone and every other
  file is as it was.
\<close>

theorem undo_restores:
  assumes "contents fs p = Some s" and "fs_writable fs p" and "fs_writable fs (undo_path p)"
    and "length p + 5 < MAX_PATH"
  shows "let fs1 = fst (create_undo_backup fs p); fs2 = fst (fs_write fs1 p t)
         in snd (create_undo_backup fs p) = 0 \<and> snd (restore_from_undo fs2 p) = 200 \<and>
            contents (fst (restore_from_undo fs2 p)) = (contents fs)(undo_path p := None)"
proof -
  let ?u = "undo_path p"
  have ne: "?u \<noteq> p" using undo_path_distinct [OF assms(4)] by simp
  let ?fs1 = "fst (fs_write fs ?u s)"
  let ?fs2 = "fst (fs_write ?fs1 p t)"
  have b: "create_undo_backup fs p = (?fs1, 0)"
    using copy_file_ok [OF assms(1) _ assms(3)] ne by (simp add: create_undo_backup_def)
  have u: "contents ?fs2 ?u = Some s" and w: "fs_writable ?fs2 p"
    using assms ne by (simp_all add: store_simps)
  have "restore_from_undo ?fs2 p = (fst (fs_unlink (fst (fs_write ?fs2 p s)) ?u), 200)"
    using copy_file_ok [OF u ne w] u by (simp add: restore_from_undo_def fs_exists_def)
  then show ?thesis
    using disk.backup_and_restore [OF assms(2,3) _ assms(1), of t] ne u b by (simp add: Let_def)
qed

theorem undo_restores_witness:
  "contents (fst (restore_from_undo (fst (fs_write (fst (create_undo_backup
     \<lparr>contents = [''d/f'' \<mapsto> ''old''], dirs = (\<lambda>q. q = ''d''), permitted = (\<lambda>q. True)\<rparr> ''d/f'')) ''d/f'' ''new'')) ''d/f'')) =
   [''d/f'' \<mapsto> ''old'']"
  using undo_restores [of "\<lparr>contents = [''d/f'' \<mapsto> ''old''], dirs = (\<lambda>q. q = ''d''), permitted = (\<lambda>q. True)\<rparr>" "''d/f''" "''old''" "''new''"]
  by (simp add: fs_writable_def parent_dir_def undo_path_def c_copy_def Let_def fun_upd_twist)

text \<open>
  C35. A checkpoint is immutable and complete: once created it survives overwriting the
  file, cannot be created again under the same tag, is shown by a view, and a revert
  puts its bytes back while it saves the overwritten bytes as the undo backup.
\<close>

theorem checkpoint_reverts:
  assumes "contents fs p = Some s" and "fs_writable fs p" and "fs_writable fs (undo_path p)"
    and "fs_writable fs (checkpoint_path p tag)" and "contents fs (checkpoint_path p tag) = None"
    and "length p + 12 + length tag < MAX_PATH"
  shows "let cp = checkpoint_path p tag; fs1 = fst (create_checkpoint fs p tag); fs2 = fst (fs_write fs1 p t)
         in snd (create_checkpoint fs p tag) = SUCCESS \<and>
            create_checkpoint fs2 p tag = (fs2, ERR_FILE_EXISTS) \<and>
            view_checkpoint fs2 p tag n = (c_str (take (n - 1) s), SUCCESS) \<and>
            snd (revert_to_checkpoint fs2 p tag) = SUCCESS \<and>
            contents (fst (revert_to_checkpoint fs2 p tag)) =
              (contents fs)(p := Some s, cp := Some s, undo_path p := Some t)"
proof -
  let ?cp = "checkpoint_path p tag" and ?u = "undo_path p"
  have ne: "?cp \<noteq> p" "?cp \<noteq> ?u" "?u \<noteq> p"
    using checkpoint_path_distinct [OF assms(6)] undo_path_distinct [of p] assms(6) by simp_all
  have no: "\<not> dirs fs ?cp" using assms(4) by (simp add: fs_writable_def)
  let ?fs1 = "fst (fs_write fs ?cp s)"
  let ?fs2 = "fst (fs_write ?fs1 p t)"
  let ?fs3 = "fst (fs_write ?fs2 ?u t)"
  have c: "create_checkpoint fs p tag = (?fs1, SUCCESS)"
    using copy_file_ok [OF assms(1) _ assms(4)] ne assms(5) no
    by (simp add: create_checkpoint_def fs_exists_def Let_def)
  have cp: "contents ?fs2 ?cp = Some s" "contents ?fs2 p = Some t" and w: "fs_writable ?fs2 ?u" "fs_writable ?fs2 p"
    using assms ne by (simp_all add: store_simps)
  have b: "create_undo_backup ?fs2 p = (?fs3, 0)"
    using copy_file_ok [OF cp(2) _ w(1)] ne by (simp add: create_undo_backup_def)
  have cp3: "contents ?fs3 ?cp = Some s" "fs_writable ?fs3 p"
    using cp w ne by (simp_all add: store_simps)
  have r: "revert_to_checkpoint ?fs2 p tag = (fst (fs_write ?fs3 p s), SUCCESS)"
    using copy_file_ok [OF cp3(1) ne(1) cp3(2)] b cp(1)
    by (simp add: revert_to_checkpoint_def fs_exists_def Let_def)
  have "contents (fst (fs_write ?fs3 p s)) = (contents fs)(p := Some s, ?cp := Some s, ?u := Some t)"
    using assms ne by (auto simp: fun_eq_iff store_simps)
  moreover have "create_checkpoint ?fs2 p tag = (?fs2, ERR_FILE_EXISTS)"
    using cp(1) by (simp add: create_checkpoint_def fs_exists_def Let_def)
  moreover have "view_checkpoint ?fs2 p tag n = (c_str (take (n - 1) s), SUCCESS)"
    using cp(1) by (simp add: view_checkpoint_def fs_read_file)
  ultimately show ?thesis using c r by (simp add: Let_def)
qed

theorem checkpoint_reverts_witness:
  "snd (revert_to_checkpoint (fst (fs_write (fst (create_checkpoint
     \<lparr>contents = [''d/f'' \<mapsto> ''old''], dirs = (\<lambda>q. q = ''d''), permitted = (\<lambda>q. True)\<rparr> ''d/f'' ''v1'')) ''d/f'' ''new'')) ''d/f'' ''v1'') = SUCCESS"
  using checkpoint_reverts [of "\<lparr>contents = [''d/f'' \<mapsto> ''old''], dirs = (\<lambda>q. q = ''d''), permitted = (\<lambda>q. True)\<rparr>" "''d/f''" "''old''" "''v1''" "''new''"]
  by (simp add: fs_writable_def parent_dir_def undo_path_def checkpoint_path_def c_copy_def Let_def)

end
