(* ===== verification/SentenceLocks.thy ===== *)
theory SentenceLocks
  imports Prelude "HOL-Library.AList"
begin

text \<open>
  The sentence locks of a storage server (\<^verbatim>\<open>ss.c\<close>): a table of files, each with an array of
  locks that grows on demand. The table mutex and the mutex of each lock make every
  function atomic. \<^const>\<open>None\<close> is a store past the end of the table.
\<close>

section \<open>State and operations\<close>

record sentence_lock =
  locked :: bool
  locked_by :: string
  lock_time :: int

type_synonym lock_table = "(string \<times> sentence_lock list) list"

definition free_lock :: sentence_lock where
  "free_lock = \<lparr>locked = False, locked_by = [], lock_time = 0\<rparr>"

definition init_file_locks :: "lock_table \<Rightarrow> string \<Rightarrow> int \<Rightarrow> lock_table option" where
  "init_file_locks tbl filename sentence_count =
     (let n = (if sentence_count = 0 then 1 else sentence_count) in
      case map_of tbl filename of
        Some ls \<Rightarrow>
          if int (length ls) < n
          then Some (AList.update filename (ls @ replicate (nat n - length ls) free_lock) tbl)
          else Some tbl
      | None \<Rightarrow>
          if length tbl \<ge> MAX_FILES then None
          else Some (tbl @ [(filename, replicate (nat n) free_lock)]))"

definition get_sentence_lock :: "lock_table \<Rightarrow> string \<Rightarrow> int \<Rightarrow> sentence_lock option" where
  "get_sentence_lock tbl filename sent_idx =
     (case map_of tbl filename of
        None \<Rightarrow> None
      | Some ls \<Rightarrow> if 0 \<le> sent_idx \<and> sent_idx < int (length ls) then Some (ls ! nat sent_idx) else None)"

text \<open>A store through the pointer that \<^const>\<open>get_sentence_lock\<close> returned.\<close>

definition set_sentence_lock :: "lock_table \<Rightarrow> string \<Rightarrow> int \<Rightarrow> sentence_lock \<Rightarrow> lock_table" where
  "set_sentence_lock tbl filename sent_idx l =
     (case map_of tbl filename of
        None \<Rightarrow> tbl
      | Some ls \<Rightarrow> AList.update filename (ls[nat sent_idx := l]) tbl)"

definition lock_sentence_ss ::
  "lock_table \<Rightarrow> string \<Rightarrow> int \<Rightarrow> string \<Rightarrow> int \<Rightarrow> (lock_table \<times> int) option" where
  "lock_sentence_ss tbl filename sent_idx username now =
     (case init_file_locks tbl filename (sent_idx + 1) of
        None \<Rightarrow> None
      | Some tbl1 \<Rightarrow>
          (case get_sentence_lock tbl1 filename sent_idx of
             None \<Rightarrow> Some (tbl1, ERR_INVALID_INDEX)
           | Some l \<Rightarrow>
               if locked l \<and> locked_by l \<noteq> username then Some (tbl1, ERR_SENTENCE_LOCKED)
               else Some (set_sentence_lock tbl1 filename sent_idx
                            \<lparr>locked = True, locked_by = c_copy MAX_USERNAME username, lock_time = now\<rparr>,
                          SUCCESS)))"

definition unlock_sentence_ss :: "lock_table \<Rightarrow> string \<Rightarrow> int \<Rightarrow> string \<Rightarrow> lock_table \<times> int" where
  "unlock_sentence_ss tbl filename sent_idx username =
     (case get_sentence_lock tbl filename sent_idx of
        None \<Rightarrow> (tbl, ERR_INVALID_INDEX)
      | Some l \<Rightarrow>
          if \<not> locked l \<or> locked_by l \<noteq> username then (tbl, ERR_ACCESS_DENIED)
          else (set_sentence_lock tbl filename sent_idx (l\<lparr>locked := False, locked_by := []\<rparr>), SUCCESS))"

definition check_file_locks :: "lock_table \<Rightarrow> string \<Rightarrow> bool" where
  "check_file_locks tbl filename =
     (case map_of tbl filename of None \<Rightarrow> False | Some ls \<Rightarrow> list_ex locked ls)"

section \<open>The interface of a lock manager\<close>

text \<open>
  \<^verbatim>\<open>holder\<close> maps a file and a sentence to the user who holds it. A caller may take a lock
  that is free or its own; everybody else is turned away and changes nothing.
\<close>

locale lock_manager =
  fixes holder :: "'t \<Rightarrow> string \<times> int \<Rightarrow> string option"
    and acquire :: "'t \<Rightarrow> string \<Rightarrow> int \<Rightarrow> string \<Rightarrow> int \<Rightarrow> ('t \<times> int) option"
    and release :: "'t \<Rightarrow> string \<Rightarrow> int \<Rightarrow> string \<Rightarrow> 't \<times> int"
    and user_ok :: "string \<Rightarrow> bool"
  assumes acquire_law:
      "0 \<le> i \<Longrightarrow> user_ok u \<Longrightarrow> acquire t f i u now = Some (t', r) \<Longrightarrow>
       (if holder t (f, i) = None \<or> holder t (f, i) = Some u
        then r = SUCCESS \<and> holder t' = (holder t)((f, i) := Some u)
        else r = ERR_SENTENCE_LOCKED \<and> holder t' = holder t)"
    and release_law:
      "holder (fst (release t f i u)) =
       (if holder t (f, i) = Some u then (holder t)((f, i) := None) else holder t)"
    and release_status: "snd (release t f i u) = SUCCESS \<longleftrightarrow> holder t (f, i) = Some u"
begin

lemma acquire_success:
  assumes "0 \<le> i" and "user_ok u" and "acquire t f i u now = Some (t', r)"
  shows "r = SUCCESS \<longleftrightarrow> holder t (f, i) = None \<or> holder t (f, i) = Some u"
  using acquire_law [OF assms] by (auto split: if_splits)

lemma acquire_keeps_others:
  assumes "0 \<le> i" and "user_ok v" and "acquire t f i v now = Some (t', r)"
    and "holder t q = Some u" and "u \<noteq> v"
  shows "holder t' q = Some u"
  using acquire_law [OF assms(1-3)] assms(4,5) by (auto split: if_splits)

lemma release_keeps_others: "holder t q = Some u \<Longrightarrow> u \<noteq> v \<Longrightarrow> holder (fst (release t f i v)) q = Some u"
  by (auto simp: release_law)

lemma release_frees: "holder t (f, i) = Some u \<Longrightarrow> holder (fst (release t f i u)) (f, i) = None"
  by (simp add: release_law)

lemma acquire_conflict:
  assumes "0 \<le> i" and "user_ok u" and "user_ok v" and "u \<noteq> v"
    and "acquire t f i u now = Some (t1, SUCCESS)" and "acquire t1 f i v now' = Some (t2, r)"
  shows "r = ERR_SENTENCE_LOCKED \<and> holder t2 = holder t1"
  using acquire_law [OF assms(1,2,5)] acquire_law [OF assms(1,3,6)] assms(4) by (auto split: if_splits)

end

section \<open>The lock table is a lock manager\<close>

definition holder :: "lock_table \<Rightarrow> string \<times> int \<Rightarrow> string option" where
  "holder tbl = (\<lambda>(f, i).
     case get_sentence_lock tbl f i of
       None \<Rightarrow> None | Some l \<Rightarrow> if locked l then Some (locked_by l) else None)"

lemma map_of_update [simp]: "map_of (AList.update k v al) = (map_of al)(k \<mapsto> v)"
  by (simp add: AList.update_conv')

lemma init_lookup:
  assumes "init_file_locks tbl f n = Some tbl1"
  shows "map_of tbl1 = (map_of tbl)(f \<mapsto>
    (case map_of tbl f of None \<Rightarrow> [] | Some ls \<Rightarrow> ls) @
    replicate (nat (if n = 0 then 1 else n) - length (case map_of tbl f of None \<Rightarrow> [] | Some ls \<Rightarrow> ls)) free_lock)"
  using assms
  by (auto simp: init_file_locks_def Let_def fun_eq_iff map_add_def nat_le_iff Suc_le_eq split: option.splits if_splits)

lemma holder_init:
  assumes "init_file_locks tbl f n = Some tbl1"
  shows "holder tbl1 = holder tbl"
  unfolding holder_def get_sentence_lock_def init_lookup [OF assms]
  by (auto simp: fun_eq_iff nth_append free_lock_def split: option.splits)

lemma lock_set:
  assumes "get_sentence_lock tbl f i = Some l0"
  shows "get_sentence_lock (set_sentence_lock tbl f i l) g j =
         (if g = f \<and> j = i then Some l else get_sentence_lock tbl g j)"
  using assms
  by (auto simp: get_sentence_lock_def set_sentence_lock_def nth_list_update split: option.splits if_splits)

lemma holder_set:
  assumes "get_sentence_lock tbl f i = Some l0"
  shows "holder (set_sentence_lock tbl f i l) =
         (holder tbl)((f, i) := (if locked l then Some (locked_by l) else None))"
  by (auto simp: holder_def fun_eq_iff lock_set [OF assms])

lemma init_has_lock:
  assumes "init_file_locks tbl f (i + 1) = Some tbl1" and "0 \<le> i"
  obtains l where "get_sentence_lock tbl1 f i = Some l"
proof -
  have "get_sentence_lock tbl1 f i \<noteq> None"
    using assms(2) unfolding get_sentence_lock_def init_lookup [OF assms(1)]
    by (cases "map_of tbl f") auto
  then show thesis using that by auto
qed

interpretation locks: lock_manager holder lock_sentence_ss unlock_sentence_ss
    "\<lambda>u. length u < MAX_USERNAME"
proof
  fix i u tbl f now tbl' r
  assume i: "0 \<le> i" and u: "length u < MAX_USERNAME"
    and lock: "lock_sentence_ss tbl f i u now = Some (tbl', r)"
  then obtain tbl1 where init: "init_file_locks tbl f (i + 1) = Some tbl1"
    by (auto simp: lock_sentence_ss_def split: option.splits)
  obtain l where l: "get_sentence_lock tbl1 f i = Some l" by (rule init_has_lock [OF init i])
  have h: "holder tbl (f, i) = (if locked l then Some (locked_by l) else None)"
    using l unfolding holder_init [OF init, symmetric] by (simp add: holder_def)
  show "if holder tbl (f, i) = None \<or> holder tbl (f, i) = Some u
        then r = SUCCESS \<and> holder tbl' = (holder tbl)((f, i) := Some u)
        else r = ERR_SENTENCE_LOCKED \<and> holder tbl' = holder tbl"
    using lock init l h holder_init [OF init] u
    by (auto simp: lock_sentence_ss_def holder_set [OF l] c_copy_fits split: if_splits)
next
  fix tbl f i u
  show "holder (fst (unlock_sentence_ss tbl f i u)) =
        (if holder tbl (f, i) = Some u then (holder tbl)((f, i) := None) else holder tbl)"
  proof (cases "get_sentence_lock tbl f i")
    case None
    then have "holder tbl (f, i) = None" by (simp add: holder_def)
    with None show ?thesis by (simp add: unlock_sentence_ss_def)
  next
    case (Some l)
    then have "holder tbl (f, i) = (if locked l then Some (locked_by l) else None)" by (simp add: holder_def)
    then show ?thesis by (simp add: unlock_sentence_ss_def Some holder_set [OF Some])
  qed
  show "snd (unlock_sentence_ss tbl f i u) = SUCCESS \<longleftrightarrow> holder tbl (f, i) = Some u"
    by (auto simp: unlock_sentence_ss_def holder_def split: option.splits)
qed

lemma check_file_locks_holder: "check_file_locks tbl f \<longleftrightarrow> (\<exists>i u. holder tbl (f, i) = Some u)"
proof (cases "map_of tbl f")
  case None
  then show ?thesis by (simp add: check_file_locks_def holder_def get_sentence_lock_def)
next
  case (Some ls)
  have "list_ex locked ls \<longleftrightarrow> (\<exists>i. 0 \<le> i \<and> i < int (length ls) \<and> locked (ls ! nat i))"
  proof
    assume "list_ex locked ls"
    then obtain k where "k < length ls" "locked (ls ! k)" by (auto simp: list_ex_length)
    then show "\<exists>i. 0 \<le> i \<and> i < int (length ls) \<and> locked (ls ! nat i)" by (intro exI [of _ "int k"]) simp
  next
    assume "\<exists>i. 0 \<le> i \<and> i < int (length ls) \<and> locked (ls ! nat i)"
    then obtain i where "0 \<le> i" "i < int (length ls)" "locked (ls ! nat i)" by blast
    then show "list_ex locked ls"
      unfolding list_ex_length by (intro exI [of _ "nat i"]) auto
  qed
  then show ?thesis using Some by (auto simp: check_file_locks_def holder_def get_sentence_lock_def)
qed

end
