(* ===== verification/CommitQueue.thy ===== *)
theory CommitQueue
  imports Messages TextSentences FileStore SentenceLocks
begin

text \<open>
  Write sessions and commit queues of a storage server (\<^verbatim>\<open>ss.c\<close>). A session edits a private
  copy of the file; a commit puts the copy in the file's queue and merges every queued copy
  into the file, replacing the one sentence the session had locked. Each function is one
  atomic step on the server state; \<^const>\<open>None\<close> is a store outside an array.
\<close>

section \<open>State\<close>

record write_session =
  ws_filename :: string
  ws_username :: string
  ws_sentence_idx :: int
  ws_temp_filepath :: string
  ws_original_count :: int
  ws_lock_time :: int

record commit_entry =
  ce_filename :: string
  ce_username :: string
  ce_sentence_idx :: int
  ce_original_count :: int
  ce_temp_filepath :: string
  ce_lock_time :: int

text \<open>The parts of \<^verbatim>\<open>ss\<close>, \<^verbatim>\<open>write_sessions\<close> and \<^verbatim>\<open>commit_queues\<close> that carry state.\<close>

record storage_server =
  ss_disk :: file_system
  ss_path :: string
  ss_id :: int
  ss_locks :: lock_table
  ss_sessions :: "write_session list"
  ss_queues :: "(string \<times> commit_entry list) list"

abbreviation MAX_SESSIONS :: nat where "MAX_SESSIONS \<equiv> 1000"
abbreviation MAX_FILE_QUEUES :: nat where "MAX_FILE_QUEUES \<equiv> 100"

definition file_path :: "storage_server \<Rightarrow> string \<Rightarrow> string" where
  "file_path ss filename = c_copy MAX_PATH (ss_path ss @ ''/'' @ filename)"

definition temp_path :: "storage_server \<Rightarrow> string \<Rightarrow> string \<Rightarrow> int \<Rightarrow> string" where
  "temp_path ss filename username sent_idx =
     c_copy MAX_PATH (ss_path ss @ ''/'' @ filename @ ''.temp_'' @ username @ ''_'' @ show_int sent_idx)"

section \<open>Commit queues\<close>

definition get_commit_queue ::
  "storage_server \<Rightarrow> string \<Rightarrow> storage_server \<times> commit_entry list option" where
  "get_commit_queue ss filename =
     (case map_of (ss_queues ss) filename of
        Some q \<Rightarrow> (ss, Some q)
      | None \<Rightarrow>
          if length (ss_queues ss) \<ge> MAX_FILE_QUEUES then (ss, None)
          else (ss\<lparr>ss_queues := ss_queues ss @ [(filename, [])]\<rparr>, Some []))"

text \<open>The entry goes to the tail, whatever its lock time.\<close>

definition enqueue_commit ::
  "storage_server \<Rightarrow> string \<Rightarrow> string \<Rightarrow> int \<Rightarrow> int \<Rightarrow> string \<Rightarrow> int \<Rightarrow> storage_server \<times> int" where
  "enqueue_commit ss filename username sent_idx original_count temp lock_t =
     (case get_commit_queue ss filename of
        (ss1, None) \<Rightarrow> (ss1, - 1)
      | (ss1, Some q) \<Rightarrow>
          (ss1\<lparr>ss_queues := AList.update filename
             (q @ [\<lparr>ce_filename = filename, ce_username = username, ce_sentence_idx = sent_idx,
                    ce_original_count = original_count, ce_temp_filepath = temp,
                    ce_lock_time = lock_t\<rparr>]) (ss_queues ss1)\<rparr>, 0))"

text \<open>
  The merge of one entry. \<^verbatim>\<open>Overrun\<close> is a merged content longer than the array allocated
  for it, which happens if the temporary file has lost two sentences or more.
\<close>

datatype merge_result = Skip | Merged file_content | Overrun

definition merge_commit :: "file_content \<Rightarrow> file_content \<Rightarrow> int \<Rightarrow> int \<Rightarrow> merge_result" where
  "merge_commit main temp sent_idx original_count =
     (let current = int (length main);
          shift = current - original_count;
          adjusted = sent_idx + shift
      in if \<not> (current = 0 \<and> original_count = 0 \<and> adjusted = 0) \<and> (adjusted < 0 \<or> adjusted \<ge> current)
         then Skip
         else let expansion = int (length temp) - original_count in
           if current = 0 then Merged temp
           else let modified = take (nat (1 + expansion)) (drop (nat sent_idx) temp);
                    merged = take (nat adjusted) main @ modified @ drop (nat adjusted + 1) main
                in if int (length merged) > max 1 (current + expansion) then Overrun
                   else Merged merged)"

definition parse_or_empty :: "string option \<Rightarrow> file_content" where
  "parse_or_empty bytes = (case bytes of None \<Rightarrow> [] | Some s \<Rightarrow> parse_file s)"

fun process_entries ::
  "string \<Rightarrow> commit_entry list \<Rightarrow> file_system \<Rightarrow> (file_system \<times> commit_entry list \<times> int) option" where
  "process_entries filepath [] fs = Some (fs, [], 0)"
| "process_entries filepath (e # es) fs =
     (let unlinked = (\<lambda>fs. fst (fs_unlink fs (ce_temp_filepath e))) in
      case fs_read fs (ce_temp_filepath e) of
        None \<Rightarrow> process_entries filepath es (unlinked fs)
      | Some t \<Rightarrow>
          (case merge_commit (parse_or_empty (fs_read fs filepath)) (parse_file t)
                  (ce_sentence_idx e) (ce_original_count e) of
             Skip \<Rightarrow> process_entries filepath es (unlinked fs)
           | Overrun \<Rightarrow> None
           | Merged fc \<Rightarrow>
               (let (fs1, r) = fs_write fs filepath (write_file_content fc) in
                if r \<noteq> 0 then Some (fs1, e # es, - 1)
                else (case process_entries filepath es (unlinked fs1) of
                        None \<Rightarrow> None
                      | Some (fs2, rest, n) \<Rightarrow> Some (fs2, rest, if n < 0 then n else n + 1)))))"

definition process_commit_queue :: "storage_server \<Rightarrow> string \<Rightarrow> (storage_server \<times> int) option" where
  "process_commit_queue ss filename =
     (case get_commit_queue ss filename of
        (ss1, None) \<Rightarrow> Some (ss1, 0)
      | (ss1, Some q) \<Rightarrow>
          (let filepath = file_path ss filename;
               fs1 = (if q = [] then ss_disk ss1 else fst (create_undo_backup (ss_disk ss1) filepath))
           in case process_entries filepath q fs1 of
                None \<Rightarrow> None
              | Some (fs2, rest, n) \<Rightarrow>
                  Some (ss1\<lparr>ss_disk := fs2, ss_queues := AList.update filename rest (ss_queues ss1)\<rparr>, n)))"

section \<open>Write sessions\<close>

definition session_matches :: "string \<Rightarrow> string \<Rightarrow> int \<Rightarrow> write_session \<Rightarrow> bool" where
  "session_matches filename username sent_idx s \<longleftrightarrow>
     ws_filename s = filename \<and> ws_username s = username \<and> ws_sentence_idx s = sent_idx"

definition find_session :: "storage_server \<Rightarrow> string \<Rightarrow> string \<Rightarrow> int \<Rightarrow> nat option" where
  "find_session ss filename username sent_idx =
     find_index (session_matches filename username sent_idx) (ss_sessions ss)"

text \<open>The result is the index of the session in the array.\<close>

definition get_write_session ::
  "storage_server \<Rightarrow> string \<Rightarrow> string \<Rightarrow> int \<Rightarrow> bool \<Rightarrow> storage_server \<times> nat option" where
  "get_write_session ss filename username sent_idx create =
     (case find_session ss filename username sent_idx of
        Some k \<Rightarrow> (ss, Some k)
      | None \<Rightarrow>
          if create \<and> length (ss_sessions ss) < MAX_SESSIONS
          then (ss\<lparr>ss_sessions := ss_sessions ss @
                  [\<lparr>ws_filename = filename, ws_username = username, ws_sentence_idx = sent_idx,
                    ws_temp_filepath = temp_path ss filename username sent_idx,
                    ws_original_count = 0, ws_lock_time = 0\<rparr>]\<rparr>,
                Some (length (ss_sessions ss)))
          else (ss, None))"

definition remove_write_session :: "storage_server \<Rightarrow> string \<Rightarrow> string \<Rightarrow> int \<Rightarrow> storage_server" where
  "remove_write_session ss filename username sent_idx =
     (case find_session ss filename username sent_idx of
        None \<Rightarrow> ss
      | Some k \<Rightarrow>
          ss\<lparr>ss_disk := fst (fs_unlink (ss_disk ss) (ws_temp_filepath (ss_sessions ss ! k))),
             ss_sessions := remove_at k (ss_sessions ss)\<rparr>)"

definition start_write_session_ss ::
  "storage_server \<Rightarrow> string \<Rightarrow> string \<Rightarrow> int \<Rightarrow> int \<Rightarrow> storage_server \<times> int" where
  "start_write_session_ss ss filename username sent_idx now =
     (let filepath = file_path ss filename;
          original = int (length (parse_or_empty (fs_read (ss_disk ss) filepath)))
      in case get_write_session ss filename username sent_idx True of
           (ss1, None) \<Rightarrow> (ss1, ERR_SERVER_ERROR)
         | (ss1, Some k) \<Rightarrow>
             (let s = (ss_sessions ss1 ! k)\<lparr>ws_original_count := original, ws_lock_time := now\<rparr>;
                  ss2 = ss1\<lparr>ss_sessions := (ss_sessions ss1)[k := s]\<rparr>;
                  (fs', r) = (if fs_read (ss_disk ss2) filepath = None
                              then fs_write (ss_disk ss2) (ws_temp_filepath s) []
                              else copy_file (ss_disk ss2) filepath (ws_temp_filepath s))
              in if r \<noteq> 0 then (remove_write_session ss2 filename username sent_idx, ERR_SERVER_ERROR)
                 else (ss2\<lparr>ss_disk := fs'\<rparr>, SUCCESS)))"

definition commit_write_session_ss ::
  "storage_server \<Rightarrow> string \<Rightarrow> string \<Rightarrow> int \<Rightarrow> (storage_server \<times> int) option" where
  "commit_write_session_ss ss filename username sent_idx =
     (case find_session ss filename username sent_idx of
        None \<Rightarrow> Some (ss, SUCCESS)
      | Some k \<Rightarrow>
          (let s = ss_sessions ss ! k;
               (ss1, r) = enqueue_commit ss filename username sent_idx (ws_original_count s)
                            (ws_temp_filepath s) (ws_lock_time s)
           in if r \<noteq> 0 then Some (remove_write_session ss1 filename username sent_idx, ERR_SERVER_ERROR)
              else case process_commit_queue (ss1\<lparr>ss_sessions := remove_at k (ss_sessions ss1)\<rparr>) filename of
                     None \<Rightarrow> None
                   | Some (ss2, _) \<Rightarrow> Some (ss2, SUCCESS)))"

definition cancel_write_session_ss :: "storage_server \<Rightarrow> string \<Rightarrow> string \<Rightarrow> int \<Rightarrow> storage_server \<times> int" where
  "cancel_write_session_ss ss filename username sent_idx =
     (case find_session ss filename username sent_idx of
        None \<Rightarrow> (ss, SUCCESS)
      | Some _ \<Rightarrow> (remove_write_session ss filename username sent_idx, SUCCESS))"

definition write_file_ss ::
  "storage_server \<Rightarrow> string \<Rightarrow> string \<Rightarrow> int \<Rightarrow> int \<Rightarrow> string \<Rightarrow> (storage_server \<times> int) option" where
  "write_file_ss ss filename username sent_idx word_idx word =
     (case find_session ss filename username sent_idx of
        None \<Rightarrow> Some (ss, ERR_INVALID_OPERATION)
      | Some k \<Rightarrow>
          (let temp = ws_temp_filepath (ss_sessions ss ! k);
               parsed = parse_or_empty (fs_read (ss_disk ss) temp);
               fc = (if parsed = [] then [[]] else parsed)
           in if sent_idx < 0 \<or> sent_idx > int (length fc) then Some (ss, ERR_INVALID_INDEX)
              else case insert_word_in_sentence fc sent_idx word_idx word of
                     None \<Rightarrow> None
                   | Some (fc', r) \<Rightarrow>
                       if r < 0 then Some (ss, ERR_INVALID_INDEX)
                       else (let (fs', w) = fs_write (ss_disk ss) temp (write_file_content fc')
                             in Some (ss\<lparr>ss_disk := fs'\<rparr>, if w \<noteq> 0 then ERR_SERVER_ERROR else SUCCESS))))"

section \<open>Merging\<close>

text \<open>
  The merge, computed for a file whose sentences before the locked one number \<^verbatim>\<open>a\<close> now and
  \<^verbatim>\<open>b\<close> when the lock was taken, while \<^verbatim>\<open>later\<close> counts the ones behind it in both.
\<close>

lemma merge_aligned:
  assumes "length post' = length post" and "length post'' = length post" and "length pre'' = length pre"
  shows "merge_commit (pre' @ x' # post') (pre'' @ mods @ post'') (int (length pre)) (int (length (pre @ x # post))) =
         Merged (pre' @ mods @ post')"
  using assms
  by (simp add: merge_commit_def Let_def)

lemma merge_append_skips:
  "main \<noteq> [] \<Longrightarrow> merge_commit main temp (int (length main)) (int (length main)) = Skip"
  by (simp add: merge_commit_def Let_def)

lemma merge_shifted:
  assumes "0 < k" and "k \<le> length post'" and "length post' = length post + k" and "length post'' = length post"
  shows "merge_commit (pre @ x # post') (pre @ mods @ post'') (int (length pre)) (int (length (pre @ x # post))) =
         Merged (pre @ x # take (k - 1) post' @ mods @ drop k post')"
proof -
  obtain j where k: "k = Suc j" using assms(1) by (cases k) auto
  have [simp]: "nat (1 + int j) = Suc j" "nat (int (length pre) + (1 + int j)) = Suc (length pre + j)"
    by auto
  show ?thesis
    using assms by (simp add: merge_commit_def Let_def k Suc_diff_le)
qed

section \<open>A commit\<close>

lemma get_queue_lookup:
  assumes "get_commit_queue ss f = (ss1, Some q)"
  shows "map_of (ss_queues ss1) f = Some q" "ss_disk ss1 = ss_disk ss" "ss_path ss1 = ss_path ss"
    "ss_sessions ss1 = ss_sessions ss" "ss_locks ss1 = ss_locks ss" "get_commit_queue ss1 f = (ss1, Some q)"
  using assms by (auto simp: get_commit_queue_def map_add_def split: option.splits if_splits)

text \<open>A commit that finds its session: the queue runs with the new entry at its tail.\<close>

lemma commit_unfold:
  assumes "find_session ss f u i = Some k" and "s = ss_sessions ss ! k"
    and "get_commit_queue ss f = (ss1, Some q)"
    and "e = \<lparr>ce_filename = f, ce_username = u, ce_sentence_idx = i, ce_original_count = ws_original_count s,
             ce_temp_filepath = ws_temp_filepath s, ce_lock_time = ws_lock_time s\<rparr>"
    and "process_entries (file_path ss f) (q @ [e])
           (fst (create_undo_backup (ss_disk ss) (file_path ss f))) = Some (fs', rest, n)"
  shows "\<exists>ss'. commit_write_session_ss ss f u i = Some (ss', SUCCESS) \<and> ss_disk ss' = fs' \<and>
           map_of (ss_queues ss') f = Some rest \<and> ss_sessions ss' = remove_at k (ss_sessions ss) \<and>
           ss_locks ss' = ss_locks ss \<and> ss_path ss' = ss_path ss"
proof -
  note q = get_queue_lookup [OF assms(3)]
  let ?ss2 = "ss1\<lparr>ss_queues := AList.update f (q @ [e]) (ss_queues ss1), ss_sessions := remove_at k (ss_sessions ss)\<rparr>"
  have enq: "enqueue_commit ss f u i (ws_original_count s) (ws_temp_filepath s) (ws_lock_time s) =
      (ss1\<lparr>ss_queues := AList.update f (q @ [e]) (ss_queues ss1)\<rparr>, 0)"
    using assms(3,4) by (simp add: enqueue_commit_def)
  have "get_commit_queue ?ss2 f = (?ss2, Some (q @ [e]))"
    by (simp add: get_commit_queue_def)
  moreover have "file_path ?ss2 f = file_path ss f" using q(3) by (simp add: file_path_def)
  ultimately have "process_commit_queue ?ss2 f =
      Some (?ss2\<lparr>ss_disk := fs', ss_queues := AList.update f rest (ss_queues ?ss2)\<rparr>, n)"
    using assms(5) q(2) by (simp add: process_commit_queue_def)
  then show ?thesis
    using assms(1,2) enq q by (simp add: commit_write_session_ss_def)
qed

section \<open>Editing through a session\<close>

text \<open>The paths a session works on can be written and do not coincide.\<close>

definition session_paths_ok :: "storage_server \<Rightarrow> string \<Rightarrow> write_session \<Rightarrow> bool" where
  "session_paths_ok ss f s \<longleftrightarrow>
     (let p = file_path ss f; t = ws_temp_filepath s in
      distinct [t, p, undo_path p] \<and> list_all (fs_writable (ss_disk ss)) [t, p, undo_path p])"

lemma write_step:
  assumes "find_session ss f u i = Some k" and "s = ss_sessions ss ! k"
    and "contents (ss_disk ss) (ws_temp_filepath s) = Some t" and "t \<noteq> []"
    and "0 \<le> i" and "i \<le> int (length (parse_file t))"
    and "insert_word_in_sentence (parse_file t) i word_idx word = Some (fc', int new)"
    and "fs_writable (ss_disk ss) (ws_temp_filepath s)"
  shows "write_file_ss ss f u i word_idx word =
    Some (ss\<lparr>ss_disk := fst (fs_write (ss_disk ss) (ws_temp_filepath s) (write_file_content fc'))\<rparr>, SUCCESS)"
  using assms
  by (simp add: write_file_ss_def parse_or_empty_def fs_read_file fs_write_def Let_def)

lemma commit_merges:
  assumes f: "find_session ss f u i = Some k" "s = ss_sessions ss ! k"
    and q: "get_commit_queue ss f = (ss1, Some [])"
    and c: "contents (ss_disk ss) (file_path ss f) = Some txt"
    and t: "contents (ss_disk ss) (ws_temp_filepath s) = Some t"
    and m: "merge_commit (parse_file txt) (parse_file t) i (ws_original_count s) = Merged m"
    and ok: "session_paths_ok ss f s"
  shows "\<exists>ss'. commit_write_session_ss ss f u i = Some (ss', SUCCESS) \<and>
           contents (ss_disk ss') = (contents (ss_disk ss))(undo_path (file_path ss f) := Some txt,
             file_path ss f := Some (write_file_content m), ws_temp_filepath s := None) \<and>
           map_of (ss_queues ss') f = Some [] \<and> ss_sessions ss' = remove_at k (ss_sessions ss) \<and>
           ss_locks ss' = ss_locks ss \<and> ss_path ss' = ss_path ss \<and> fs_writable (ss_disk ss') = fs_writable (ss_disk ss)"
proof -
  let ?p = "file_path ss f" and ?t = "ws_temp_filepath s"
  define fs1 where "fs1 = fst (create_undo_backup (ss_disk ss) ?p)"
  have d: "?t \<noteq> ?p" "?t \<noteq> undo_path ?p" "?p \<noteq> undo_path ?p"
    and w: "fs_writable (ss_disk ss) ?t" "fs_writable (ss_disk ss) ?p" "fs_writable (ss_disk ss) (undo_path ?p)"
    using ok by (simp_all add: session_paths_ok_def Let_def)
  have b: "fs1 = fst (fs_write (ss_disk ss) (undo_path ?p) txt)"
    using copy_file_ok [OF c d(3) w(3)] by (simp add: create_undo_backup_def fs1_def)
  have c1: "contents fs1 = (contents (ss_disk ss))(undo_path ?p := Some txt)" and w1: "fs_writable fs1 ?p"
    using w by (simp_all add: b disk.store_fun store_simps)
  have r: "fs_read fs1 ?t = Some t" "fs_read fs1 ?p = Some txt"
    using c t d by (auto simp: c1 intro!: fs_read_file)
  define e where "e = \<lparr>ce_filename = f, ce_username = u, ce_sentence_idx = i, ce_original_count = ws_original_count s,
             ce_temp_filepath = ?t, ce_lock_time = ws_lock_time s\<rparr>"
  define fs2 where "fs2 = fst (fs_write fs1 ?p (write_file_content m))"
  have "fs_write fs1 ?p (write_file_content m) = (fs2, 0)" using w1 by (simp add: fs2_def fs_write_def)
  then have "process_entries ?p ([] @ [e]) fs1 = Some (fst (fs_unlink fs2 ?t), [], 1)"
    using r m by (simp add: e_def parse_or_empty_def)
  from commit_unfold [OF f q e_def this [unfolded fs1_def]]
  have "\<exists>ss'. commit_write_session_ss ss f u i = Some (ss', SUCCESS) \<and> ss_disk ss' = fst (fs_unlink fs2 ?t) \<and>
      map_of (ss_queues ss') f = Some [] \<and> ss_sessions ss' = remove_at k (ss_sessions ss) \<and> ss_locks ss' = ss_locks ss \<and>
      ss_path ss' = ss_path ss" .
  moreover have "contents (fst (fs_unlink fs2 ?t)) = (contents (ss_disk ss))(undo_path ?p := Some txt,
      ?p := Some (write_file_content m), ?t := None)"
    using w1 by (simp add: disk.remove_fun fs2_def disk.store_fun c1)
  moreover have "fs_writable (fst (fs_unlink fs2 ?t)) = fs_writable (ss_disk ss)"
    by (simp add: fun_eq_iff store_simps fs2_def b)
  ultimately show ?thesis by auto
qed

text \<open>One write and the commit, from the state a freshly started session leaves.\<close>

definition fresh_session :: "storage_server \<Rightarrow> string \<Rightarrow> string \<Rightarrow> int \<Rightarrow> nat \<Rightarrow> string \<Rightarrow> bool" where
  "fresh_session ss f u i k txt \<longleftrightarrow>
     (let s = ss_sessions ss ! k in
      find_session ss f u i = Some k \<and> ws_original_count s = int (length (parse_file txt)) \<and>
      contents (ss_disk ss) (file_path ss f) = Some txt \<and>
      contents (ss_disk ss) (ws_temp_filepath s) = Some txt \<and>
      session_paths_ok ss f s \<and> snd (get_commit_queue ss f) = Some [])"

lemma edit_and_commit:
  assumes fr: "fresh_session ss f u (int i) k txt" and i: "i < length (parse_file txt)"
    and ins: "insert_word_in_sentence (parse_file txt) (int i) word_idx word = Some (fc', int new)"
    and cut: "parse_file (write_file_content fc') = pre @ mods @ post" "length pre = i"
      "length post = length (parse_file txt) - (i + 1)"
  shows "\<exists>ss1 ss2. write_file_ss ss f u (int i) word_idx word = Some (ss1, SUCCESS) \<and>
           commit_write_session_ss ss1 f u (int i) = Some (ss2, SUCCESS) \<and>
           contents (ss_disk ss2) (file_path ss f) =
             Some (write_file_content (take i (parse_file txt) @ mods @ drop (i + 1) (parse_file txt))) \<and>
           contents (ss_disk ss2) (ws_temp_filepath (ss_sessions ss ! k)) = None"
proof -
  define s where "s = ss_sessions ss ! k"
  note fr = fr [unfolded fresh_session_def Let_def, folded s_def]
  have find: "find_session ss f u (int i) = Some k" using fr by blast
  have orig: "ws_original_count s = int (length (parse_file txt))" using fr by blast
  let ?p = "file_path ss f" and ?t = "ws_temp_filepath s"
  have d: "?t \<noteq> ?p" "fs_writable (ss_disk ss) ?t" using fr by (simp_all add: session_paths_ok_def Let_def)
  define ss1 where "ss1 = ss\<lparr>ss_disk := fst (fs_write (ss_disk ss) ?t (write_file_content fc'))\<rparr>"
  have "txt \<noteq> []" using i by auto
  then have w: "write_file_ss ss f u (int i) word_idx word = Some (ss1, SUCCESS)"
    using write_step [OF find s_def _ _ _ _ ins] fr d(2) i by (simp add: ss1_def)
  have paths: "file_path ss1 f = ?p" "ss_sessions ss1 = ss_sessions ss" by (simp_all add: ss1_def file_path_def)
  have find1: "find_session ss1 f u (int i) = Some k" using find by (simp add: find_session_def paths)
  have s1: "s = ss_sessions ss1 ! k" by (simp add: s_def paths)
  have c1: "contents (ss_disk ss1) (file_path ss1 f) = Some txt"
    and t1: "contents (ss_disk ss1) ?t = Some (write_file_content fc')"
    using fr d unfolding paths by (simp_all add: ss1_def store_simps)
  have ok1: "session_paths_ok ss1 f s"
    using fr unfolding session_paths_ok_def paths by (simp add: ss1_def store_simps Let_def)
  have "snd (get_commit_queue ss1 f) = Some []"
    using fr by (auto simp: get_commit_queue_def ss1_def split: option.splits if_splits)
  then obtain ss' where q1: "get_commit_queue ss1 f = (ss', Some [])" by (metis prod.collapse)
  let ?m = "take i (parse_file txt) @ mods @ drop (i + 1) (parse_file txt)"
  have main: "parse_file txt = take i (parse_file txt) @ parse_file txt ! i # drop (i + 1) (parse_file txt)"
    using id_take_nth_drop [OF i] by simp
  have "merge_commit (take i (parse_file txt) @ parse_file txt ! i # drop (i + 1) (parse_file txt)) (pre @ mods @ post)
      (int (length (take i (parse_file txt))))
      (int (length (take i (parse_file txt) @ parse_file txt ! i # drop (i + 1) (parse_file txt)))) = Merged ?m"
    using cut(2,3) i by (intro merge_aligned) simp_all
  then have m: "merge_commit (parse_file txt) (parse_file (write_file_content fc')) (int i) (ws_original_count s) = Merged ?m"
    unfolding main [symmetric] orig cut(1) using i by simp
  from commit_merges [OF find1 s1 q1 c1 t1 m ok1]
  show ?thesis using w d(1) unfolding paths s_def [symmetric] by auto
qed

text \<open>
  A server with the storage directory \<^verbatim>\<open>s\<close>, for concrete examples.
\<close>

definition server_with ::
  "(string \<Rightarrow> string option) \<Rightarrow> lock_table \<Rightarrow> write_session list \<Rightarrow> (string \<times> commit_entry list) list \<Rightarrow> storage_server" where
  "server_with files lks sessions queues =
     \<lparr>ss_disk = \<lparr>contents = files, dirs = (\<lambda>q. q = ''s''), permitted = (\<lambda>q. True)\<rparr>, ss_path = ''s'',
      ss_id = 1, ss_locks = lks, ss_sessions = sessions, ss_queues = queues\<rparr>"

definition session_on :: "string \<Rightarrow> int \<Rightarrow> int \<Rightarrow> write_session" where
  "session_on f i count =
     \<lparr>ws_filename = f, ws_username = ''u'', ws_sentence_idx = i, ws_temp_filepath = ''s/t'',
      ws_original_count = count, ws_lock_time = 0\<rparr>"

lemma server_with_simps [simp]:
  "contents (ss_disk (server_with fm lks ses qs)) = fm"
  "ss_locks (server_with fm lks ses qs) = lks" "ss_sessions (server_with fm lks ses qs) = ses"
  "ss_queues (server_with fm lks ses qs) = qs"
  "file_path (server_with fm lks ses qs) f = c_copy MAX_PATH (''s/'' @ f)"
  "fs_writable (ss_disk (server_with fm lks ses qs)) p \<longleftrightarrow> parent_dir p = ''s'' \<and> p \<noteq> ''s''"
  "ws_temp_filepath (session_on f i n) = ''s/t''" "ws_original_count (session_on f i n) = n"
  by (simp_all add: server_with_def session_on_def file_path_def fs_writable_def)

lemma find_session_on [simp]: "find_session (server_with fm lks [session_on f i n] qs) f ''u'' i = Some 0"
  by (simp add: find_session_def session_matches_def session_on_def)

section \<open>Properties\<close>

text \<open>
  The merge is a correct three-way merge as long as concurrent commits kept the number of
  sentences behind the locked one: the committed sentence replaces the locked one wherever
  it has moved to, and every other sentence of the current file is kept.
\<close>

theorem merge_keeps_concurrent_edits:
  assumes "length pre'' = length pre" and "length post' = length post" and "length post'' = length post"
  shows "merge_commit (pre' @ x' # post') (pre'' @ mods @ post'')
           (int (length pre)) (int (length (pre @ x # post))) = Merged (pre' @ mods @ post')"
  by (rule merge_aligned [OF assms(2,3,1)])

theorem merge_keeps_concurrent_edits_witness:
  "merge_commit [[''New'', ''.''], [''A'', ''.''], [''B'', ''.'']] [[''A'', ''!''], [''B'', ''.'']] 0 2 =
   Merged [[''New'', ''.''], [''A'', ''!''], [''B'', ''.'']]"
  using merge_keeps_concurrent_edits [of "[]" "[]" "[[''B'', ''.'']]" "[[''B'', ''.'']]" "[[''B'', ''.'']]"
      "[[''New'', ''.'']]" "[''A'', ''.'']" "[[''A'', ''!'']]" "[''A'', ''.'']"]
  by simp

text \<open>
  C27. If a commit behind the locked sentence has added \<^verbatim>\<open>k\<close> sentences in the meantime, the
  merge hits the wrong sentence: the old version of the edited sentence stays, and the
  sentence \<^verbatim>\<open>k\<close> places later, somebody else's, is overwritten.
\<close>

theorem merge_overwrites_wrong_sentence:
  assumes "0 < k" and "k \<le> length post'" and "length post' = length post + k" and "length post'' = length post"
  shows "merge_commit (pre @ x # post') (pre @ mods @ post'')
           (int (length pre)) (int (length (pre @ x # post))) =
         Merged (pre @ x # take (k - 1) post' @ mods @ drop k post')"
  by (rule merge_shifted [OF assms])

theorem merge_overwrites_wrong_sentence_witness:
  "merge_commit [[''A'', ''.''], [''B'', ''.''], [''More'', ''.'']] [[''A'', ''!''], [''B'', ''.'']] 0 2 =
   Merged [[''A'', ''.''], [''A'', ''!''], [''More'', ''.'']]"
  using merge_overwrites_wrong_sentence [of 1 "[[''B'', ''.''], [''More'', ''.'']]" "[[''B'', ''.'']]" "[[''B'', ''.'']]"
      "[]" "[''A'', ''.'']" "[[''A'', ''!'']]"]
  by simp

text \<open>
  Appended sentences are lost: a session on the sentence after the last one, which the
  server lets a client lock, reports success at its commit, but the file keeps its bytes
  and the temporary copy with the new sentence is deleted.
\<close>

theorem append_commit_is_lost:
  assumes "find_session ss f u i = Some k" and "s = ss_sessions ss ! k"
    and "get_commit_queue ss f = (ss1, Some [])"
    and "contents (ss_disk ss) (file_path ss f) = Some txt" and "parse_file txt \<noteq> []"
    and "i = int (length (parse_file txt))" and "ws_original_count s = i"
    and "contents (ss_disk ss) (ws_temp_filepath s) \<noteq> None"
    and "distinct [ws_temp_filepath s, file_path ss f, undo_path (file_path ss f)]"
    and "fs_writable (ss_disk ss) (undo_path (file_path ss f))"
  shows "\<exists>ss'. commit_write_session_ss ss f u i = Some (ss', SUCCESS) \<and>
           contents (ss_disk ss') (file_path ss f) = Some txt \<and>
           contents (ss_disk ss') (ws_temp_filepath s) = None \<and> map_of (ss_queues ss') f = Some []"
proof -
  let ?p = "file_path ss f" and ?t = "ws_temp_filepath s"
  let ?fs1 = "fst (create_undo_backup (ss_disk ss) ?p)"
  have b: "?fs1 = fst (fs_write (ss_disk ss) (undo_path ?p) txt)"
    using copy_file_ok [OF assms(4) _ assms(10)] assms(9) by (simp add: create_undo_backup_def)
  then have c: "contents ?fs1 ?p = Some txt" "contents ?fs1 ?t = contents (ss_disk ss) ?t"
    using assms(4,9) by (auto simp: store_simps)
  obtain t where t: "contents ?fs1 ?t = Some t" using assms(8) c(2) by auto
  define e where "e = \<lparr>ce_filename = f, ce_username = u, ce_sentence_idx = i, ce_original_count = ws_original_count s,
             ce_temp_filepath = ?t, ce_lock_time = ws_lock_time s\<rparr>"
  have "fs_read ?fs1 ?t = Some t" "fs_read ?fs1 ?p = Some txt"
    using fs_read_file [OF t] fs_read_file [OF c(1)] by simp_all
  then have "process_entries ?p ([] @ [e]) ?fs1 = Some (fst (fs_unlink ?fs1 ?t), [], 0)"
    using merge_append_skips [OF assms(5), of "parse_file t"] assms(6,7)
    by (simp add: e_def parse_or_empty_def)
  from commit_unfold [OF assms(1,2,3) e_def this]
  show ?thesis using c assms(9) by (auto simp: store_simps)
qed

theorem append_commit_is_lost_witness:
  "\<exists>ss'. commit_write_session_ss (server_with [''s/f'' \<mapsto> ''A.'', ''s/t'' \<mapsto> ''A. B''] [] [session_on ''f'' 1 1] []) ''f'' ''u'' 1 =
     Some (ss', SUCCESS) \<and> contents (ss_disk ss') ''s/f'' = Some ''A.'' \<and> contents (ss_disk ss') ''s/t'' = None"
proof -
  let ?ss = "server_with [''s/f'' \<mapsto> ''A.'', ''s/t'' \<mapsto> ''A. B''] [] [session_on ''f'' 1 1] []"
  have p: "parse_file ''A.'' = [[''A'', ''.'']]"
    by (simp add: parse_file_def flush_word_def is_space_char_def is_delimiter_def c_str_def)
  have q: "get_commit_queue ?ss ''f'' = (?ss\<lparr>ss_queues := [(''f'', [])]\<rparr>, Some [])"
    by (simp add: get_commit_queue_def)
  have "file_path ?ss ''f'' = ''s/f''" by (simp add: c_copy_def)
  then show ?thesis
    using append_commit_is_lost [OF find_session_on refl q, of "''A.''"]
    by (simp add: p undo_path_def c_copy_def parent_dir_def) blast
qed

text \<open>
  The queue table is never cleaned up: after commits to as many different files as it has
  room for, a commit to any other file fails with a server error, and the session and the
  temporary copy with its edits are deleted.
\<close>

theorem queue_table_exhausted:
  assumes "length (ss_queues ss) = MAX_FILE_QUEUES" and "map_of (ss_queues ss) f = None"
    and "find_session ss f u i = Some k"
  shows "\<exists>ss'. commit_write_session_ss ss f u i = Some (ss', ERR_SERVER_ERROR) \<and>
           contents (ss_disk ss') = (contents (ss_disk ss))(ws_temp_filepath (ss_sessions ss ! k) := None) \<and>
           ss_sessions ss' = remove_at k (ss_sessions ss) \<and> ss_queues ss' = ss_queues ss"
  using assms
  by (simp add: commit_write_session_ss_def enqueue_commit_def get_commit_queue_def Let_def
      remove_write_session_def disk.remove_fun)

theorem queue_table_exhausted_witness:
  "\<exists>ss'. commit_write_session_ss (server_with [''s/t'' \<mapsto> ''A''] [] [session_on ''f'' 0 1]
      (map (\<lambda>n. (''q'' @ show_nat n, [])) [0..<100])) ''f'' ''u'' 0 = Some (ss', ERR_SERVER_ERROR)"
proof -
  let ?qs = "map (\<lambda>n. (''q'' @ show_nat n, [] :: commit_entry list)) [0..<100]"
  have "map_of ?qs ''f'' = None" by (auto simp: map_of_eq_None_iff)
  moreover have "length ?qs = MAX_FILE_QUEUES" by (simp only: length_map length_upt)
  ultimately show ?thesis
    using queue_table_exhausted [of "server_with [''s/t'' \<mapsto> ''A''] [] [session_on ''f'' 0 1] ?qs" "''f''" "''u''" 0 0]
    unfolding server_with_simps find_session_on by blast
qed

lemma edit_commits:
  assumes "fresh_session ss f u (int i) k txt" and "NUL \<notin> set txt" and "i < length (parse_file txt)"
    and "ws = parse_file txt ! i" and "1 \<le> word_idx" and "word_idx \<le> int (real_word_count ws) + 1"
    and "insert_index word_idx ws < length ws \<or> i + 1 = length (parse_file txt)"
    and "NUL \<notin> set word" and "longest_run ordinary 0 word \<le> 127" and "length (lex word []) \<le> 10" and "word \<noteq> []"
  shows "\<exists>ss1 ss2 t. write_file_ss ss f u (int i) word_idx word = Some (ss1, SUCCESS) \<and>
           commit_write_session_ss ss1 f u (int i) = Some (ss2, SUCCESS) \<and>
           contents (ss_disk ss2) (file_path ss f) = Some t \<and>
           filter visible t =
             filter visible (concat (concat (take i (parse_file txt)) @ take (insert_index word_idx ws) ws)) @
             filter visible word @
             filter visible (concat (drop (insert_index word_idx ws) ws @ concat (drop (i + 1) (parse_file txt))))"
proof -
  have vp: "filter visible (concat (lex word [])) = filter visible word" by (rule lex_visible0 [OF assms(8)])
  show ?thesis
  proof (rule insert_reparsed [OF assms(2-11)])
    fix s1 s2 m new pre mods post
    assume ins: "insert_word_in_sentence (parse_file txt) (int i) word_idx word =
        Some (take i (parse_file txt) @ s1 # s2 @ replicate m [] @ drop (i + 1) (parse_file txt), int new)"
      and s: "s1 @ concat s2 = take (insert_index word_idx ws) ws @ lex word [] @ drop (insert_index word_idx ws) ws"
      and c: "parse_file (write_file_content (take i (parse_file txt) @ s1 # s2 @ replicate m [] @ drop (i + 1) (parse_file txt))) = pre @ mods @ post"
        "length pre = i" "length post = length (parse_file txt) - (i + 1)"
      and v: "filter visible (concat (concat mods)) = filter visible (concat (s1 @ concat s2))"
    from edit_and_commit [OF assms(1,3) ins c] show ?thesis
      using v vp by (auto simp: write_visible s)
  qed
qed

text \<open>
  The edit a client makes reaches the file: after one write into a freshly started session
  and the commit, with nobody else committing in between, the file's text is the old text
  with the written words between the two halves of the target sentence, blanks aside, as
  long as the words go in front of the sentence's final delimiter or into the last sentence.
\<close>

theorem edit_is_committed:
  assumes "fresh_session ss f u (int i) k txt" and "NUL \<notin> set txt" and "i < length (parse_file txt)"
    and "ws = parse_file txt ! i" and "1 \<le> word_idx" and "word_idx \<le> int (real_word_count ws) + 1"
    and "insert_index word_idx ws < length ws \<or> i + 1 = length (parse_file txt)"
    and "NUL \<notin> set word" and "longest_run ordinary 0 word \<le> 127" and "length (lex word []) \<le> 10" and "word \<noteq> []"
  shows "\<exists>ss1 ss2 t. write_file_ss ss f u (int i) word_idx word = Some (ss1, SUCCESS) \<and>
           commit_write_session_ss ss1 f u (int i) = Some (ss2, SUCCESS) \<and>
           contents (ss_disk ss2) (file_path ss f) = Some t \<and>
           filter visible t =
             filter visible (concat (concat (take i (parse_file txt)) @ take (insert_index word_idx ws) ws)) @
             filter visible word @
             filter visible (concat (drop (insert_index word_idx ws) ws @ concat (drop (i + 1) (parse_file txt))))"
  using assms by (rule edit_commits)

definition example_server :: storage_server where
  "example_server =
     server_with [''s/f'' \<mapsto> ''One. Two.'', ''s/t'' \<mapsto> ''One. Two.''] [] [session_on ''f'' 0 2] []"

lemma example_parse: "parse_file ''One. Two.'' = [[''One'', ''.''], ['' '', ''Two'', ''.'']]"
  by (simp add: parse_file_def flush_word_def is_space_char_def is_delimiter_def c_str_def)

lemma example_path: "file_path example_server ''f'' = ''s/f''"
  by (simp add: example_server_def c_copy_def)

lemma example_fresh: "fresh_session example_server ''f'' ''u'' (int 0) 0 ''One. Two.''"
proof -
  have "undo_path ''s/f'' = ''s/f.undo''" by (simp add: undo_path_def c_copy_def)
  moreover have "parent_dir ''s/f'' = ''s''" "parent_dir ''s/t'' = ''s''" "parent_dir ''s/f.undo'' = ''s''"
    by (simp_all add: parent_dir_def)
  ultimately have "session_paths_ok example_server ''f'' (session_on ''f'' 0 2)"
    unfolding session_paths_ok_def example_path by (simp add: Let_def example_server_def)
  moreover have "snd (get_commit_queue example_server ''f'') = Some []"
    by (simp add: get_commit_queue_def example_server_def)
  ultimately show ?thesis
    unfolding fresh_session_def example_path by (simp add: Let_def example_parse) (simp add: example_server_def)
qed

lemma example_ws: "real_word_count [''One'', ''.''] = 2" "insert_index 2 [''One'', ''.''] = 1"
  by (simp_all add: insert_index_def real_word_count_def should_skip_for_indexing_def is_space_token_def
      is_newline_token_def is_space_char_def numeral_2_eq_2)

lemma example_word: "longest_run ordinary 0 ''and'' = 3" "lex ''and'' [] = [''and'']" "delims ''and'' = []"
  by (simp_all add: ordinary_def is_space_char_def is_delimiter_def flush_word_def c_str_def)

theorem edit_is_committed_witness:
  "\<exists>ss1 ss2 t. write_file_ss example_server ''f'' ''u'' 0 2 ''and'' = Some (ss1, SUCCESS) \<and>
     commit_write_session_ss ss1 ''f'' ''u'' 0 = Some (ss2, SUCCESS) \<and>
     contents (ss_disk ss2) ''s/f'' = Some t \<and> filter visible t = ''Oneand.Two.''"
proof -
  have "\<exists>ss1 ss2 t. write_file_ss example_server ''f'' ''u'' (int 0) 2 ''and'' = Some (ss1, SUCCESS) \<and>
      commit_write_session_ss ss1 ''f'' ''u'' (int 0) = Some (ss2, SUCCESS) \<and>
      contents (ss_disk ss2) (file_path example_server ''f'') = Some t \<and>
      filter visible t = filter visible (concat (concat (take 0 (parse_file ''One. Two.'')) @ take (insert_index 2 [''One'', ''.'']) [''One'', ''.''])) @
        filter visible ''and'' @ filter visible (concat (drop (insert_index 2 [''One'', ''.'']) [''One'', ''.''] @ concat (drop (0 + 1) (parse_file ''One. Two.''))))"
    by (rule edit_is_committed [OF example_fresh]) (simp_all add: example_parse example_ws example_word del: lex.simps longest_run.simps delims_simps)
  then show ?thesis
    by (simp add: example_path example_parse example_ws visible_def is_space_char_def)
qed

text \<open>
  Words written behind the final delimiter of a sentence that is not the last one are
  lost: write and commit both report success, and the file's text is what it was.
\<close>

theorem words_after_stop_are_lost:
  assumes "fresh_session ss f u (int i) k txt" and "NUL \<notin> set txt" and "i + 1 < length (parse_file txt)"
    and "word_idx = int (real_word_count (parse_file txt ! i)) + 1" and "1 < word_idx"
    and "NUL \<notin> set word" and "longest_run ordinary 0 word \<le> 127" and "length (lex word []) \<le> 10" and "word \<noteq> []"
    and "delims word = []"
  shows "\<exists>ss1 ss2 t. write_file_ss ss f u (int i) word_idx word = Some (ss1, SUCCESS) \<and>
           commit_write_session_ss ss1 f u (int i) = Some (ss2, SUCCESS) \<and>
           contents (ss_disk ss2) (file_path ss f) = Some t \<and> filter visible t = filter visible txt"
proof -
  let ?fc = "parse_file txt"
  have i: "i < length ?fc" using assms(3) by simp
  obtain X M Y where ar: "around txt i X M Y" using sentence_text [OF i] by blast
  note ws = aroundD(3) [OF ar]
  have target: "target_sentence ?fc (int i) = lex M []" using i ws by (simp add: target_sentence_def)
  have a: "insert_index word_idx (lex M []) = length (lex M [])"
    using assms(4,5) ws by (simp add: insert_index_def)
  have "valid_position ?fc (int i) word_idx"
    using i assms(4,5) ws by (simp add: valid_position_def target)
  moreover obtain parts where p: "split_by_delimiters word = Some parts"
    using split_within [of "[]" word 10 "[]"] assms(6-8) by (auto simp: split_by_delimiters_def)
  moreover have parts: "parts = lex word []" by (rule split_lex [OF p assms(6)])
  then have pne: "parts \<noteq> []" using assms(9) by (simp add: lex_nil_iff)
  moreover have "\<not> (?fc = [[]] \<and> int i = 1)" using i by auto
  ultimately obtain s1 s2 m new where r:
    "insert_word_in_sentence ?fc (int i) word_idx word = Some (take i ?fc @ s1 # s2 @ replicate m [] @ drop (i + 1) ?fc, int new)"
    "length s2 + m = new" "s1 @ concat s2 = lex M [] @ parts"
    "new = length (filter starts_delim parts) + (if last_delimiter parts = None then 0 else 1)"
    using insert_result [of ?fc "int i" word_idx word parts] unfolding target a
    by (metis (no_types, lifting) append_Nil2 drop_all nat_int order_refl take_all)
  have dp: "delims (concat parts) = []"
    using lex_visible0 [OF assms(6)] parts assms(10) delims_visible by metis
  have "filter starts_delim parts = []"
    using dp by (auto simp: filter_empty_conv delims_def starts_delim_def split: list.splits)
  then have "new = 0" using r(4) last_delimiter_None [of parts] by simp
  then have s: "s2 = []" "m = 0" "s1 = lex M [] @ parts" using r(2,3) by auto
  have "parse_file Y \<noteq> []" unfolding aroundD(4) [OF ar] using assms(3) by simp
  then have Y: "Y \<noteq> []" by simp
  obtain pre mods post where c:
    "parse_file (write_file_content (take i ?fc @ s1 # s2 @ replicate m [] @ drop (i + 1) ?fc)) = pre @ mods @ post"
    "length pre = i" "length post = length ?fc - (i + 1)" "filter visible (concat (concat mods)) = filter visible M"
    using reparse_after_stop [OF assms(2) i ar Y dp pne] by (auto simp: s)
  have nul: "NUL \<notin> set X" "NUL \<notin> set Y" using aroundD(5) [OF ar assms(2)] by simp_all
  have "filter visible (concat (concat (take i ?fc @ mods @ drop (i + 1) ?fc))) =
      filter visible (concat (concat (parse_file X))) @ filter visible M @ filter visible (concat (concat (parse_file Y)))"
    using c(4) by (simp add: aroundD(2,4) [OF ar])
  also have "\<dots> = filter visible (X @ M @ Y)" by (simp add: parse_visible nul)
  also have "X @ M @ Y = txt" by (rule aroundD(1) [OF ar])
  finally have v: "filter visible (concat (concat (take i ?fc @ mods @ drop (i + 1) ?fc))) = filter visible txt" .
  from edit_and_commit [OF assms(1) i r(1) c(1-3)] show ?thesis
    using v by (auto simp: write_visible)
qed

theorem words_after_stop_are_lost_witness:
  "\<exists>ss1 ss2 t. write_file_ss example_server ''f'' ''u'' 0 3 ''and'' = Some (ss1, SUCCESS) \<and>
     commit_write_session_ss ss1 ''f'' ''u'' 0 = Some (ss2, SUCCESS) \<and>
     contents (ss_disk ss2) ''s/f'' = Some t \<and> filter visible t = ''One.Two.''"
proof -
  have "\<exists>ss1 ss2 t. write_file_ss example_server ''f'' ''u'' (int 0) 3 ''and'' = Some (ss1, SUCCESS) \<and>
      commit_write_session_ss ss1 ''f'' ''u'' (int 0) = Some (ss2, SUCCESS) \<and>
      contents (ss_disk ss2) (file_path example_server ''f'') = Some t \<and> filter visible t = filter visible ''One. Two.''"
    by (rule words_after_stop_are_lost [OF example_fresh]) (simp_all add: example_parse example_ws example_word del: lex.simps longest_run.simps delims_simps)
  then show ?thesis by (simp add: example_path visible_def is_space_char_def)
qed

end
