(* ===== verification/StorageServer.thy ===== *)
theory StorageServer
  imports CommitQueue
begin

text \<open>
  The request handlers of a storage server (\<^verbatim>\<open>ss.c\<close>): what it does for a message of a
  client (\<^verbatim>\<open>handle_client_request\<close>) and of the name server (\<^verbatim>\<open>handle_nm_communication\<close>),
  and the states that any interleaving of requests can reach. One request is one step.
  The clock, \<^verbatim>\<open>stat\<close> times and directory listings are arguments. \<^const>\<open>None\<close> is a store
  outside an array.
\<close>

record kernel =
  now :: int
  stat_times :: "string \<Rightarrow> int \<times> int"
  readdir :: "string \<Rightarrow> string list option"

section \<open>Operations on files\<close>

definition create_file_ss :: "storage_server \<Rightarrow> string \<Rightarrow> (storage_server \<times> int) option" where
  "create_file_ss ss filename =
     (let filepath = file_path ss filename in
      if fs_exists (ss_disk ss) filepath then Some (ss, ERR_FILE_EXISTS)
      else let (fs', r) = fs_write (ss_disk ss) filepath [] in
        if r \<noteq> 0 then Some (ss, ERR_SERVER_ERROR)
        else case init_file_locks (ss_locks ss) filename 1 of
               None \<Rightarrow> None
             | Some tbl \<Rightarrow> Some (ss\<lparr>ss_disk := fs', ss_locks := tbl\<rparr>, SUCCESS))"

definition delete_file_ss :: "storage_server \<Rightarrow> string \<Rightarrow> storage_server \<times> int" where
  "delete_file_ss ss filename =
     (let filepath = file_path ss filename;
          (fs1, r) = fs_unlink (ss_disk ss) filepath
      in if r \<noteq> 0 then (ss, ERR_FILE_NOT_FOUND)
         else (ss\<lparr>ss_disk := fst (fs_unlink fs1 (undo_path filepath))\<rparr>, SUCCESS))"

text \<open>The buffer is afterwards read as a C string.\<close>

definition read_file_ss :: "storage_server \<Rightarrow> string \<Rightarrow> string \<times> int" where
  "read_file_ss ss filename =
     (case fs_read (ss_disk ss) (file_path ss filename) of
        None \<Rightarrow> ([], ERR_FILE_NOT_FOUND)
      | Some s \<Rightarrow> (c_str (take (MAX_BUFFER - 1) s), SUCCESS))"

text \<open>\<^verbatim>\<open>mkdir\<close> for every prefix that ends before a slash, then for the whole path.\<close>

fun mkdir_prefixes :: "file_system \<Rightarrow> string \<Rightarrow> string \<Rightarrow> file_system" where
  "mkdir_prefixes fs done_part [] = fs_mkdir fs done_part"
| "mkdir_prefixes fs done_part (c # cs) =
     mkdir_prefixes (if c = CHR ''/'' then fs_mkdir fs done_part else fs) (done_part @ [c]) cs"

definition create_folder_ss :: "storage_server \<Rightarrow> string \<Rightarrow> storage_server \<times> int" where
  "create_folder_ss ss folder =
     (let full = c_copy MAX_PATH (ss_path ss @ folder) in
      if fs_exists (ss_disk ss) full then (ss, ERR_FILE_EXISTS)
      else let tmp = (if last full = CHR ''/'' then butlast full else full)
           in (ss\<lparr>ss_disk := mkdir_prefixes (ss_disk ss) (take 1 tmp) (drop 1 tmp)\<rparr>, SUCCESS))"

definition folder_file_path :: "storage_server \<Rightarrow> string \<Rightarrow> string \<Rightarrow> string" where
  "folder_file_path ss folder filename =
     c_copy MAX_PATH (if folder \<noteq> [] \<and> folder \<noteq> ''/''
                      then ss_path ss @ folder @ ''/'' @ filename
                      else ss_path ss @ ''/'' @ filename)"

definition move_file_ss :: "storage_server \<Rightarrow> string \<Rightarrow> string \<Rightarrow> string \<Rightarrow> storage_server \<times> int" where
  "move_file_ss ss filename old_folder new_folder =
     (let old_full = folder_file_path ss old_folder filename;
          new_full = folder_file_path ss new_folder filename;
          (fs1, r) = fs_rename (ss_disk ss) old_full new_full
      in if r \<noteq> 0 then (ss, ERR_SERVER_ERROR)
         else (ss\<lparr>ss_disk := fst (fs_rename fs1 (undo_path old_full) (undo_path new_full))\<rparr>, SUCCESS))"

text \<open>\<^verbatim>\<open>"%zu|%d|%d|%ld|%ld"\<close>\<close>

definition get_file_info_ss :: "kernel \<Rightarrow> storage_server \<Rightarrow> string \<Rightarrow> string \<times> int" where
  "get_file_info_ss k ss filename =
     (let filepath = file_path ss filename in
      case fs_read (ss_disk ss) filepath of
        None \<Rightarrow> ([], ERR_FILE_NOT_FOUND)
      | Some s \<Rightarrow>
          (let (words, chars) = get_file_stats (Some s); (mtime, atime) = stat_times k filepath
           in (show_nat (length s) @ BAR # show_nat words @ BAR # show_nat chars @ BAR #
               show_int mtime @ BAR # show_int atime, SUCCESS)))"

text \<open>
  The messages a stream sends, one per token; the last one keeps the fields of the last
  token.
\<close>

fun stream_words :: "nat \<Rightarrow> bool \<Rightarrow> nat \<Rightarrow> sentence \<Rightarrow> message \<Rightarrow> message list \<times> message" where
  "stream_words i more_sentences j [] msg = ([], msg)"
| "stream_words i more_sentences j (w # ws) msg =
     (let needs_space = (case ws of
            v # _ \<Rightarrow> \<not> starts_delim w \<and> \<not> starts_delim v
          | [] \<Rightarrow> more_sentences);
          msg' = msg\<lparr>m_data := c_copy MAX_BUFFER w, m_status := (if needs_space then 1 else 0),
                     m_sentence_index := int i, m_word_index := int j\<rparr>;
          (rest, final) = stream_words i more_sentences (j + 1) ws msg'
      in (msg' # rest, final))"

fun stream_sentences :: "nat \<Rightarrow> file_content \<Rightarrow> message \<Rightarrow> message list \<times> message" where
  "stream_sentences i [] msg = ([], msg)"
| "stream_sentences i (s # ss) msg =
     (let (sent, msg') = stream_words i (ss \<noteq> []) 0 s msg;
          (rest, final) = stream_sentences (i + 1) ss msg'
      in (sent @ rest, final))"

definition stream_file_ss :: "storage_server \<Rightarrow> string \<Rightarrow> message list" where
  "stream_file_ss ss filename =
     (case fs_read (ss_disk ss) (file_path ss filename) of
        None \<Rightarrow> []
      | Some s \<Rightarrow>
          (let (msgs, final) = stream_sentences 0 (parse_file s) (init_message\<lparr>m_type := MSG_DATA\<rparr>)
           in msgs @ [final\<lparr>m_type := MSG_STOP, m_status := SUCCESS\<rparr>]))"

section \<open>Registration\<close>

fun contains :: "string \<Rightarrow> string \<Rightarrow> bool" where
  "contains pat [] \<longleftrightarrow> pat = []"
| "contains pat (c # cs) \<longleftrightarrow> take (length pat) (c # cs) = pat \<or> contains pat cs"

fun join_names :: "string list \<Rightarrow> string" where
  "join_names [] = []"
| "join_names [n] = n"
| "join_names (n # ns) = n @ CHR '','' # join_names ns"

definition registered_names :: "storage_server \<Rightarrow> string list \<Rightarrow> string list" where
  "registered_names ss entries =
     filter (\<lambda>n. n \<noteq> ''.'' \<and> n \<noteq> ''..'' \<and> \<not> contains ''.undo'' n \<and>
                 contents (ss_disk ss) (file_path ss n) \<noteq> None) entries"

text \<open>The message sent, if the directory can be read; \<^const>\<open>None\<close> if the list overruns its buffer.\<close>

definition scan_and_register_files ::
  "kernel \<Rightarrow> storage_server \<Rightarrow> string \<Rightarrow> int \<Rightarrow> int \<Rightarrow> message list option" where
  "scan_and_register_files k ss ip client_port nm_port =
     (case readdir k (ss_path ss) of
        None \<Rightarrow> Some []
      | Some entries \<Rightarrow>
          (let file_list = join_names (registered_names ss entries) in
           if length file_list \<ge> MAX_BUFFER then None
           else Some [init_message\<lparr>m_type := MSG_REG_SS, m_ss_id := ss_id ss, m_sender := ip,
                        m_client_port := client_port, m_nm_port := nm_port, m_data := file_list\<rparr>]))"

section \<open>Requests of clients\<close>

definition lock_index_valid :: "file_content \<Rightarrow> int \<Rightarrow> bool" where
  "lock_index_valid fc i \<longleftrightarrow>
     (if fc = [] then i = 0
      else if i < 0 \<or> i > int (length fc) then False
      else if i = int (length fc)
      then last fc \<noteq> [] \<and> (starts_delim (last (last fc)) \<or> is_newline_token (last (last fc)))
      else True)"

definition handle_lock :: "kernel \<Rightarrow> storage_server \<Rightarrow> message \<Rightarrow> (storage_server \<times> int) option" where
  "handle_lock k ss msg =
     (if \<not> lock_index_valid (parse_or_empty (fs_read (ss_disk ss) (file_path ss (m_filename msg))))
            (m_sentence_index msg)
      then Some (ss, ERR_INVALID_INDEX)
      else case lock_sentence_ss (ss_locks ss) (m_filename msg) (m_sentence_index msg) (m_sender msg) (now k) of
             None \<Rightarrow> None
           | Some (tbl, status) \<Rightarrow>
               if status \<noteq> SUCCESS then Some (ss\<lparr>ss_locks := tbl\<rparr>, status)
               else (let (ss1, session_status) =
                           start_write_session_ss (ss\<lparr>ss_locks := tbl\<rparr>) (m_filename msg) (m_sender msg)
                             (m_sentence_index msg) (now k)
                     in if session_status \<noteq> SUCCESS
                        then Some (ss1\<lparr>ss_locks := fst (unlock_sentence_ss (ss_locks ss1) (m_filename msg)
                                     (m_sentence_index msg) (m_sender msg))\<rparr>, session_status)
                        else Some (ss1, SUCCESS)))"

definition unlock_reply :: "storage_server \<Rightarrow> message \<Rightarrow> storage_server \<times> int" where
  "unlock_reply ss msg =
     (let (tbl, r) = unlock_sentence_ss (ss_locks ss) (m_filename msg) (m_sentence_index msg) (m_sender msg)
      in (ss\<lparr>ss_locks := tbl\<rparr>, r))"

definition handle_unlock :: "storage_server \<Rightarrow> message \<Rightarrow> (storage_server \<times> int) option" where
  "handle_unlock ss msg =
     (case commit_write_session_ss ss (m_filename msg) (m_sender msg) (m_sentence_index msg) of
        None \<Rightarrow> None
      | Some (ss1, commit_status) \<Rightarrow>
          (let (ss2, r) = unlock_reply ss1 msg
           in Some (ss2, if commit_status = SUCCESS then r else commit_status)))"

definition handle_cancel :: "storage_server \<Rightarrow> message \<Rightarrow> storage_server \<times> int" where
  "handle_cancel ss msg =
     unlock_reply (fst (cancel_write_session_ss ss (m_filename msg) (m_sender msg) (m_sentence_index msg))) msg"

definition handle_undo :: "storage_server \<Rightarrow> message \<Rightarrow> storage_server \<times> int" where
  "handle_undo ss msg =
     (let filepath = file_path ss (m_filename msg) in
      if undo_backup_exists (ss_disk ss) filepath
      then (let (fs', r) = restore_from_undo (ss_disk ss) filepath in (ss\<lparr>ss_disk := fs'\<rparr>, r))
      else (ss, ERR_INVALID_OPERATION))"

text \<open>The state after the request and the messages sent to the client.\<close>

definition reply :: "int \<Rightarrow> message" where
  "reply status = init_message\<lparr>m_status := status\<rparr>"

definition handle_client_request ::
  "kernel \<Rightarrow> storage_server \<Rightarrow> message \<Rightarrow> (storage_server \<times> message list) option" where
  "handle_client_request k ss msg =
     (let answer = map_option (\<lambda>(ss', status). (ss', [reply status])) in
      if m_type msg = MSG_READ
      then (let (buffer, status) = read_file_ss ss (m_filename msg)
            in Some (ss, [(reply status)\<lparr>m_data := buffer\<rparr>]))
      else if m_type msg = MSG_LOCK_SENTENCE then answer (handle_lock k ss msg)
      else if m_type msg = MSG_WRITE
      then answer (write_file_ss ss (m_filename msg) (m_sender msg) (m_sentence_index msg)
                     (m_word_index msg) (m_data msg))
      else if m_type msg = MSG_UNLOCK_SENTENCE then answer (handle_unlock ss msg)
      else if m_type msg = MSG_CANCEL_WRITE then answer (Some (handle_cancel ss msg))
      else if m_type msg = MSG_STREAM
      then Some (ss, reply SUCCESS # stream_file_ss ss (m_filename msg))
      else if m_type msg = MSG_UNDO then answer (Some (handle_undo ss msg))
      else Some (ss, [reply ERR_INVALID_OPERATION]))"

section \<open>Requests of the name server\<close>

definition handle_nm_request ::
  "kernel \<Rightarrow> storage_server \<Rightarrow> message \<Rightarrow> (storage_server \<times> message) option" where
  "handle_nm_request k ss msg =
     (let filepath = file_path ss (m_filename msg);
          tag = m_checkpoint_tag msg;
          resp = init_message\<lparr>m_ss_id := ss_id ss\<rparr>;
          answer = (\<lambda>(ss', status). Some (ss', resp\<lparr>m_status := status\<rparr>));
          on_disk = (\<lambda>(fs', status). Some (ss\<lparr>ss_disk := fs'\<rparr>, resp\<lparr>m_status := status\<rparr>));
          data = (\<lambda>(text, status). Some (ss, resp\<lparr>m_status := status, m_data := text\<rparr>))
      in if m_type msg = MSG_CHECK_LOCKS
         then answer (ss, if check_file_locks (ss_locks ss) (m_filename msg) then ERR_FILE_LOCKED else SUCCESS)
         else if m_type msg = MSG_CHECKPOINT then on_disk (create_checkpoint (ss_disk ss) filepath tag)
         else if m_type msg = MSG_LISTCHECKPOINTS
         then data (list_checkpoints (readdir k (parent_dir filepath)) filepath MAX_BUFFER)
         else if m_type msg = MSG_VIEWCHECKPOINT
         then data (view_checkpoint (ss_disk ss) filepath tag MAX_BUFFER)
         else if m_type msg = MSG_REVERT then on_disk (revert_to_checkpoint (ss_disk ss) filepath tag)
         else if m_type msg = MSG_CREATEFOLDER then answer (create_folder_ss ss (m_target_path msg))
         else if m_type msg = MSG_MOVE
         then answer (move_file_ss ss (m_filename msg) (m_data msg) (m_target_path msg))
         else if m_type msg = MSG_CREATE
         then (case create_file_ss ss (m_filename msg) of None \<Rightarrow> None | Some r \<Rightarrow> answer r)
         else if m_type msg = MSG_DELETE then answer (delete_file_ss ss (m_filename msg))
         else if m_type msg = MSG_SS_INFO
         then (if m_data msg = ''READ_CONTENT'' then data (read_file_ss ss (m_filename msg))
               else data (get_file_info_ss k ss (m_filename msg)))
         else answer (ss, ERR_INVALID_OPERATION))"

section \<open>Reachable states\<close>

definition fresh_server :: "file_system \<Rightarrow> string \<Rightarrow> int \<Rightarrow> storage_server" where
  "fresh_server fs path i =
     \<lparr>ss_disk = fs, ss_path = path, ss_id = i, ss_locks = [], ss_sessions = [], ss_queues = []\<rparr>"

text \<open>Any interleaving of requests; a received sender always fits its buffer.\<close>

inductive ss_reachable :: "storage_server \<Rightarrow> bool" where
  start: "ss_reachable (fresh_server fs path i)"
| client: "ss_reachable ss \<Longrightarrow> length (m_sender msg) < MAX_USERNAME \<Longrightarrow>
     handle_client_request k ss msg = Some (ss', out) \<Longrightarrow> ss_reachable ss'"
| name_server: "ss_reachable ss \<Longrightarrow> handle_nm_request k ss msg = Some (ss', out) \<Longrightarrow> ss_reachable ss'"

end
