(* ===== verification/ServerSafety.thy ===== *)
theory ServerSafety
  imports StorageServer
begin

text \<open>
  Exclusive editing on a storage server. Every write session holds the lock of its
  sentence, in every state that any interleaving of requests reaches; so no two sessions
  edit the same sentence of a file, and the name server is told of every open session.
\<close>

section \<open>The invariant\<close>

definition session_key :: "write_session \<Rightarrow> string \<times> int" where
  "session_key s = (ws_filename s, ws_sentence_idx s)"

definition sessions_hold :: "lock_table \<Rightarrow> write_session list \<Rightarrow> bool" where
  "sessions_hold tbl ses \<longleftrightarrow>
     distinct (map session_key ses) \<and>
     (\<forall>s \<in> set ses. holder tbl (session_key s) = Some (ws_username s))"

named_theorems server_simps \<open>what the operations leave alone\<close>

lemma matches_key:
  "session_matches f u i s \<longleftrightarrow> session_key s = (f, i) \<and> ws_username s = u"
  by (auto simp: session_matches_def session_key_def)

lemma sessions_holdD:
  "sessions_hold tbl ses \<Longrightarrow> s \<in> set ses \<Longrightarrow> holder tbl (session_key s) = Some (ws_username s)"
  by (simp add: sessions_hold_def)

lemma sessions_hold_same:
  "sessions_hold tbl ses \<Longrightarrow> holder tbl' = holder tbl \<Longrightarrow> sessions_hold tbl' ses"
  by (simp add: sessions_hold_def)

lemma removed_key:
  assumes "distinct (map session_key ses)" and "k < length ses"
  shows "distinct (map session_key (remove_at k ses))"
    and "session_key (ses ! k) \<notin> session_key ` set (remove_at k ses)"
proof -
  have split: "ses = take k ses @ ses ! k # drop (Suc k) ses" using assms(2) by (rule id_take_nth_drop)
  have "distinct (map session_key (take k ses @ ses ! k # drop (Suc k) ses))"
    using assms(1) split by simp
  then show "distinct (map session_key (remove_at k ses))"
    and "session_key (ses ! k) \<notin> session_key ` set (remove_at k ses)"
    by (auto simp: remove_at_def)
qed

lemma sessions_hold_remove:
  assumes "sessions_hold tbl ses"
  shows "sessions_hold tbl (remove_at k ses)"
proof (cases "k < length ses")
  case True
  then show ?thesis
    using assms removed_key(1) [of ses k] set_remove_at [of k ses] by (auto simp: sessions_hold_def)
qed (use assms in \<open>simp add: remove_at_def\<close>)

text \<open>After a release, the sessions still hold if none is left for the released user.\<close>

lemma sessions_hold_release:
  assumes "sessions_hold tbl ses" and "\<forall>s \<in> set ses. \<not> session_matches f u i s"
  shows "sessions_hold (fst (unlock_sentence_ss tbl f i u)) ses"
proof -
  have "holder (fst (unlock_sentence_ss tbl f i u)) (session_key s) = Some (ws_username s)"
    if s: "s \<in> set ses" for s
    using sessions_holdD [OF assms(1) s] assms(2) s by (auto simp: locks.release_law matches_key)
  then show ?thesis using assms(1) by (simp add: sessions_hold_def)
qed

lemma sessions_hold_acquire:
  assumes "sessions_hold tbl ses" and "0 \<le> i" and "length u < MAX_USERNAME"
    and "lock_sentence_ss tbl f i u t = Some (tbl', r)"
  shows "sessions_hold tbl' ses"
    and "r = SUCCESS \<longleftrightarrow> holder tbl (f, i) = None \<or> holder tbl (f, i) = Some u"
    and "r = SUCCESS \<Longrightarrow> holder tbl' (f, i) = Some u"
  using locks.acquire_law [OF assms(2,3,4)] assms(1) by (auto simp: sessions_hold_def split: if_splits)

lemma removed_no_match:
  assumes "sessions_hold tbl ses" and "find_index (session_matches f u i) ses = Some k"
  shows "\<forall>s \<in> set (remove_at k ses). \<not> session_matches f u i s"
proof
  fix s assume s: "s \<in> set (remove_at k ses)"
  have k: "k < length ses" "session_matches f u i (ses ! k)"
    using find_index_SomeD [OF assms(2)] by auto
  have "session_key (ses ! k) \<notin> session_key ` set (remove_at k ses)"
    using removed_key(2) [of ses k] assms(1) k(1) by (simp add: sessions_hold_def)
  then have "session_key s \<noteq> session_key (ses ! k)" using s by (metis imageI)
  then show "\<not> session_matches f u i s" using k(2) by (simp add: matches_key)
qed

section \<open>The operations\<close>

lemma get_commit_queue_keeps [server_simps]:
  "ss_sessions (fst (get_commit_queue ss f)) = ss_sessions ss"
  "ss_locks (fst (get_commit_queue ss f)) = ss_locks ss"
  by (auto simp: get_commit_queue_def split: option.splits)

lemma enqueue_commit_keeps [server_simps]:
  "ss_sessions (fst (enqueue_commit ss f u i n t l)) = ss_sessions ss"
  "ss_locks (fst (enqueue_commit ss f u i n t l)) = ss_locks ss"
  using get_commit_queue_keeps [of ss f] by (auto simp: enqueue_commit_def split: prod.splits option.splits)

lemma process_commit_queue_keeps:
  assumes "process_commit_queue ss f = Some (ss', r)"
  shows "ss_sessions ss' = ss_sessions ss \<and> ss_locks ss' = ss_locks ss"
  using assms get_commit_queue_keeps [of ss f]
  by (auto simp: process_commit_queue_def Let_def split: prod.splits option.splits)

lemma remove_session_keeps [server_simps]:
  "ss_locks (remove_write_session ss f u i) = ss_locks ss"
  "ss_sessions (remove_write_session ss f u i) =
     (case find_session ss f u i of None \<Rightarrow> ss_sessions ss | Some k \<Rightarrow> remove_at k (ss_sessions ss))"
  by (auto simp: remove_write_session_def split: option.splits)

text \<open>A commit and a cancellation both end with no session of that user on that sentence.\<close>

lemma removed_session:
  assumes "sessions_hold (ss_locks ss) (ss_sessions ss)"
  shows "sessions_hold (ss_locks ss) (ss_sessions (remove_write_session ss f u i))"
    and "\<forall>s \<in> set (ss_sessions (remove_write_session ss f u i)). \<not> session_matches f u i s"
  using assms removed_no_match [OF assms, of f u i] sessions_hold_remove [OF assms]
  by (auto simp: server_simps find_session_def find_index_None split: option.splits)

lemma committed_session:
  assumes "commit_write_session_ss ss f u i = Some (ss', r)"
  shows "ss_locks ss' = ss_locks ss \<and> ss_sessions ss' = ss_sessions (remove_write_session ss f u i)"
proof (cases "find_session ss f u i")
  case None
  with assms show ?thesis by (simp add: commit_write_session_ss_def remove_write_session_def)
next
  case (Some k)
  define en where "en = enqueue_commit ss f u i (ws_original_count (ss_sessions ss ! k))
    (ws_temp_filepath (ss_sessions ss ! k)) (ws_lock_time (ss_sessions ss ! k))"
  have keeps: "ss_sessions (fst en) = ss_sessions ss" "ss_locks (fst en) = ss_locks ss"
    by (simp_all add: en_def server_simps)
  then have found: "find_session (fst en) f u i = Some k" using Some by (simp add: find_session_def)
  show ?thesis
  proof (cases "snd en = 0")
    case False
    then have "ss' = remove_write_session (fst en) f u i"
      using assms Some by (auto simp: commit_write_session_ss_def en_def Let_def split: prod.splits)
    then show ?thesis using keeps found Some by (simp add: server_simps)
  next
    case True
    then obtain n where
      "process_commit_queue ((fst en)\<lparr>ss_sessions := remove_at k (ss_sessions (fst en))\<rparr>) f = Some (ss', n)"
      using assms Some by (auto simp: commit_write_session_ss_def en_def Let_def split: prod.splits option.splits)
    from process_commit_queue_keeps [OF this] keeps Some show ?thesis by (simp add: server_simps)
  qed
qed

text \<open>Starting a session adds one entry, or refreshes the one that is there.\<close>

definition session_entry :: "write_session \<Rightarrow> string \<times> int \<times> string" where
  "session_entry s = (ws_filename s, ws_sentence_idx s, ws_username s)"

lemma sessions_hold_entries:
  assumes "map session_entry ses' = map session_entry ses"
  shows "sessions_hold tbl ses' \<longleftrightarrow> sessions_hold tbl ses"
proof -
  have key: "session_key = (\<lambda>(f, i, u). (f, i)) \<circ> session_entry"
    and user: "ws_username = (\<lambda>(f, i, u). u) \<circ> session_entry"
    by (auto simp: fun_eq_iff session_key_def session_entry_def)
  have hold: "sessions_hold tbl xs \<longleftrightarrow>
    distinct (map (\<lambda>(f, i, u). (f, i)) (map session_entry xs)) \<and>
    (\<forall>e \<in> set (map session_entry xs). holder tbl ((\<lambda>(f, i, u). (f, i)) e) = Some ((\<lambda>(f, i, u). u) e))" for xs
    unfolding sessions_hold_def key user by (simp add: comp_def)
  show ?thesis unfolding hold assms ..
qed

lemma sessions_hold_new:
  assumes "sessions_hold tbl ses" and "find_index (session_matches f u i) ses = None"
    and "holder tbl (f, i) = Some u" and "session_entry s = (f, i, u)"
  shows "sessions_hold tbl (ses @ [s])"
proof -
  have s: "session_key s = (f, i)" "ws_username s = u"
    using assms(4) by (auto simp: session_key_def session_entry_def)
  have "(f, i) \<notin> session_key ` set ses"
    using assms(1-3) by (auto simp: find_index_None matches_key sessions_hold_def)
  then show ?thesis using assms(1,3) s by (auto simp: sessions_hold_def)
qed

lemma got_session:
  assumes "get_write_session ss f u i True = (ss1, k)"
    and "sessions_hold (ss_locks ss) (ss_sessions ss)" and "holder (ss_locks ss) (f, i) = Some u"
  shows "ss_locks ss1 = ss_locks ss"
    and "sessions_hold (ss_locks ss) (ss_sessions ss1)"
    and "k = None \<Longrightarrow> ss1 = ss \<and> (\<forall>s \<in> set (ss_sessions ss). \<not> session_matches f u i s)"
    and "k = Some j \<Longrightarrow> j < length (ss_sessions ss1) \<and> session_matches f u i (ss_sessions ss1 ! j)"
proof -
  have new: "find_index (session_matches f u i) (ss_sessions ss) = None \<Longrightarrow>
    session_entry s = (f, i, u) \<Longrightarrow> sessions_hold (ss_locks ss) (ss_sessions ss @ [s])" for s
    by (rule sessions_hold_new [OF assms(2) _ assms(3)])
  show "ss_locks ss1 = ss_locks ss"
    using assms(1) by (auto simp: get_write_session_def split: option.splits if_splits)
  show "sessions_hold (ss_locks ss) (ss_sessions ss1)"
    using assms(1,2) by (auto simp: get_write_session_def find_session_def session_entry_def
        split: option.splits if_splits intro!: new)
  show "k = None \<Longrightarrow> ss1 = ss \<and> (\<forall>s \<in> set (ss_sessions ss). \<not> session_matches f u i s)"
    using assms(1) by (auto simp: get_write_session_def find_session_def find_index_None
        split: option.splits if_splits)
  show "k = Some j \<Longrightarrow> j < length (ss_sessions ss1) \<and> session_matches f u i (ss_sessions ss1 ! j)"
    using assms(1) by (auto simp: get_write_session_def find_session_def session_matches_def
        split: option.splits if_splits dest!: find_index_SomeD)
qed

lemma start_session_cases:
  assumes "start_write_session_ss ss f u i t = (ss', r)"
  obtains (full) "get_write_session ss f u i True = (ss', None)" "r = ERR_SERVER_ERROR"
    | (entry) ss1 j s ss2 fs' w where "get_write_session ss f u i True = (ss1, Some j)"
      "session_entry s = session_entry (ss_sessions ss1 ! j)"
      "ss2 = ss1\<lparr>ss_sessions := (ss_sessions ss1)[j := s]\<rparr>"
      "ss' = (if w \<noteq> (0::int) then remove_write_session ss2 f u i else ss2\<lparr>ss_disk := fs'\<rparr>)"
      "r = (if w \<noteq> 0 then ERR_SERVER_ERROR else SUCCESS)"
proof -
  obtain ss1 k where got: "get_write_session ss f u i True = (ss1, k)" by fastforce
  show thesis
  proof (cases k)
    case None
    with assms got show thesis by (intro full) (simp_all add: start_write_session_ss_def Let_def)
  next
    case (Some j)
    define s where "s = (ss_sessions ss1 ! j)\<lparr>ws_original_count :=
      int (length (parse_or_empty (fs_read (ss_disk ss) (file_path ss f)))), ws_lock_time := t\<rparr>"
    define ss2 where "ss2 = ss1\<lparr>ss_sessions := (ss_sessions ss1)[j := s]\<rparr>"
    obtain fs' w where copy:
      "(if fs_read (ss_disk ss2) (file_path ss f) = None then fs_write (ss_disk ss2) (ws_temp_filepath s) []
        else copy_file (ss_disk ss2) (file_path ss f) (ws_temp_filepath s)) = (fs', w)" by fastforce
    have "start_write_session_ss ss f u i t =
      (if w \<noteq> 0 then (remove_write_session ss2 f u i, ERR_SERVER_ERROR) else (ss2\<lparr>ss_disk := fs'\<rparr>, SUCCESS))"
      unfolding start_write_session_ss_def got Some Let_def prod.case option.case
        s_def [symmetric] ss2_def [symmetric] copy ..
    with assms got Some show thesis
      by (intro entry [of ss1 j s ss2 w fs']) (auto simp: s_def ss2_def session_entry_def split: if_splits)
  qed
qed

lemma started_session:
  assumes start: "start_write_session_ss ss f u i t = (ss', r)"
    and hold: "sessions_hold (ss_locks ss) (ss_sessions ss)" and "holder (ss_locks ss) (f, i) = Some u"
  shows "ss_locks ss' = ss_locks ss \<and> sessions_hold (ss_locks ss) (ss_sessions ss') \<and>
    (r \<noteq> SUCCESS \<longrightarrow> (\<forall>s \<in> set (ss_sessions ss'). \<not> session_matches f u i s))"
  using start
proof (cases rule: start_session_cases)
  case full
  from got_session(1-3) [OF full(1) hold assms(3)] hold show ?thesis by simp
next
  case (entry ss1 j s ss2 fs' w)
  note facts = got_session [OF entry(1) hold assms(3)]
  have same: "map session_entry (ss_sessions ss2) = map session_entry (ss_sessions ss1)"
    using facts(4) [OF refl] entry(2) by (simp add: entry(3) map_update list_update_same_conv)
  have lk: "ss_locks ss2 = ss_locks ss" using facts(1) by (simp add: entry(3))
  have hold2: "sessions_hold (ss_locks ss2) (ss_sessions ss2)"
    unfolding lk using facts(2) sessions_hold_entries [OF same] by blast
  show ?thesis using entry(4,5) hold2 lk removed_session [OF hold2, of f u i] by (auto simp: server_simps)
qed

section \<open>The handlers\<close>

lemma lock_index_valid_nonneg: "lock_index_valid fc i \<Longrightarrow> 0 \<le> i"
  by (auto simp: lock_index_valid_def split: if_splits)

lemma handle_lock_hold:
  assumes lock: "handle_lock k ss msg = Some (ss', r)"
    and hold: "sessions_hold (ss_locks ss) (ss_sessions ss)" and user: "length (m_sender msg) < MAX_USERNAME"
  shows "sessions_hold (ss_locks ss') (ss_sessions ss')"
proof (cases "lock_index_valid (parse_or_empty (fs_read (ss_disk ss) (file_path ss (m_filename msg))))
              (m_sentence_index msg)")
  case False
  with lock hold show ?thesis by (simp add: handle_lock_def)
next
  case True
  note i = lock_index_valid_nonneg [OF True]
  obtain tbl st where got: "lock_sentence_ss (ss_locks ss) (m_filename msg) (m_sentence_index msg)
      (m_sender msg) (now k) = Some (tbl, st)"
    using lock True by (auto simp: handle_lock_def split: option.splits)
  note acq = sessions_hold_acquire [OF hold i user got]
  show ?thesis
  proof (cases "st = SUCCESS")
    case False
    then have "ss' = ss\<lparr>ss_locks := tbl\<rparr>" using lock True got by (simp add: handle_lock_def)
    with acq(1) show ?thesis by simp
  next
    case st: True
    obtain ss1 sst where started: "start_write_session_ss (ss\<lparr>ss_locks := tbl\<rparr>) (m_filename msg)
        (m_sender msg) (m_sentence_index msg) (now k) = (ss1, sst)" by fastforce
    have facts: "ss_locks ss1 = tbl \<and> sessions_hold tbl (ss_sessions ss1) \<and> (sst \<noteq> SUCCESS \<longrightarrow>
        (\<forall>s \<in> set (ss_sessions ss1). \<not> session_matches (m_filename msg) (m_sender msg) (m_sentence_index msg) s))"
      using started_session [OF started] acq st by simp
    have "ss' = (if sst \<noteq> SUCCESS then ss1\<lparr>ss_locks := fst (unlock_sentence_ss (ss_locks ss1)
        (m_filename msg) (m_sentence_index msg) (m_sender msg))\<rparr> else ss1)"
      using lock True got st started by (simp add: handle_lock_def Let_def split: if_splits)
    with facts show ?thesis by (simp add: sessions_hold_release)
  qed
qed

lemma unlock_reply_hold:
  assumes "sessions_hold (ss_locks ss) (ss_sessions ss)"
    and "\<forall>s \<in> set (ss_sessions ss). \<not> session_matches (m_filename msg) (m_sender msg) (m_sentence_index msg) s"
  shows "sessions_hold (ss_locks (fst (unlock_reply ss msg))) (ss_sessions (fst (unlock_reply ss msg)))"
  using sessions_hold_release [OF assms] by (simp add: unlock_reply_def split_beta Let_def)

lemma handle_unlock_hold:
  assumes "handle_unlock ss msg = Some (ss', r)" and hold: "sessions_hold (ss_locks ss) (ss_sessions ss)"
  shows "sessions_hold (ss_locks ss') (ss_sessions ss')"
proof -
  obtain ss1 st where commit: "commit_write_session_ss ss (m_filename msg) (m_sender msg)
      (m_sentence_index msg) = Some (ss1, st)" and ss': "ss' = fst (unlock_reply ss1 msg)"
    using assms(1) by (auto simp: handle_unlock_def split_beta Let_def split: option.splits)
  show ?thesis unfolding ss'
    using committed_session [OF commit] removed_session [OF hold] by (intro unlock_reply_hold) auto
qed

lemma handle_cancel_hold:
  assumes hold: "sessions_hold (ss_locks ss) (ss_sessions ss)"
  shows "sessions_hold (ss_locks (fst (handle_cancel ss msg))) (ss_sessions (fst (handle_cancel ss msg)))"
proof -
  have "fst (cancel_write_session_ss ss f u i) = remove_write_session ss f u i" for f u i
    by (simp add: cancel_write_session_ss_def remove_write_session_def split: option.splits)
  then show ?thesis
    unfolding handle_cancel_def using removed_session [OF hold]
    by (intro unlock_reply_hold) (simp_all add: server_simps)
qed

text \<open>The other requests of clients touch no lock and no session.\<close>

lemma write_file_keeps:
  assumes "write_file_ss ss f u i j w = Some (ss', r)"
  shows "ss_sessions ss' = ss_sessions ss \<and> ss_locks ss' = ss_locks ss"
  using assms by (auto simp: write_file_ss_def Let_def split: option.splits prod.splits if_splits)

lemma handle_undo_keeps [server_simps]:
  "ss_sessions (fst (handle_undo ss msg)) = ss_sessions ss" "ss_locks (fst (handle_undo ss msg)) = ss_locks ss"
  by (auto simp: handle_undo_def Let_def split: prod.splits)

lemma client_keeps_hold:
  assumes "handle_client_request k ss msg = Some (ss', out)"
    and "sessions_hold (ss_locks ss) (ss_sessions ss)" and "length (m_sender msg) < MAX_USERNAME"
  shows "sessions_hold (ss_locks ss') (ss_sessions ss')"
  using assms handle_lock_hold [OF _ assms(2,3)] handle_unlock_hold [OF _ assms(2)]
    handle_cancel_hold [OF assms(2), of msg] handle_undo_keeps [of ss msg]
  by (auto simp: handle_client_request_def Let_def split_beta dest: write_file_keeps split: if_splits)

text \<open>No request of the name server touches a session, and none changes who holds a lock.\<close>

lemma create_file_keeps:
  assumes "create_file_ss ss f = Some (ss', r)"
  shows "ss_sessions ss' = ss_sessions ss \<and> holder (ss_locks ss') = holder (ss_locks ss)"
  using assms by (auto simp: create_file_ss_def Let_def dest: holder_init split: option.splits prod.splits if_splits)

lemma folder_ops_keep [server_simps]:
  "ss_sessions (fst (delete_file_ss ss f)) = ss_sessions ss" "ss_locks (fst (delete_file_ss ss f)) = ss_locks ss"
  "ss_sessions (fst (create_folder_ss ss d)) = ss_sessions ss" "ss_locks (fst (create_folder_ss ss d)) = ss_locks ss"
  "ss_sessions (fst (move_file_ss ss f d e)) = ss_sessions ss" "ss_locks (fst (move_file_ss ss f d e)) = ss_locks ss"
  by (auto simp: delete_file_ss_def create_folder_ss_def move_file_ss_def Let_def split: prod.splits)

lemma nm_keeps:
  assumes "handle_nm_request k ss msg = Some (ss', out)"
  shows "ss_sessions ss' = ss_sessions ss \<and> holder (ss_locks ss') = holder (ss_locks ss)"
  using assms
  by (auto simp: handle_nm_request_def Let_def split_beta server_simps dest: create_file_keeps
      split: if_splits option.splits)

theorem reachable_sessions_hold:
  "ss_reachable ss \<Longrightarrow> sessions_hold (ss_locks ss) (ss_sessions ss)"
proof (induction rule: ss_reachable.induct)
  case (start fs path i)
  show ?case by (simp add: fresh_server_def sessions_hold_def)
next
  case (client ss msg k ss' out)
  from client_keeps_hold [OF client.hyps(3) client.IH client.hyps(2)] show ?case .
next
  case (name_server ss k msg ss' out)
  with nm_keeps [OF name_server.hyps(2)] show ?case by (simp add: sessions_hold_same)
qed

section \<open>What one client can do to another\<close>

lemma remove_at_keeps:
  assumes "s \<in> set ses" and "\<not> session_matches f u i s" and "find_index (session_matches f u i) ses = Some k"
  shows "s \<in> set (remove_at k ses)"
proof -
  have k: "k < length ses" "session_matches f u i (ses ! k)" using find_index_SomeD [OF assms(3)] by auto
  have "ses = take k ses @ ses ! k # drop (Suc k) ses" using k(1) by (rule id_take_nth_drop)
  then have "s \<in> set (take k ses) \<or> s = ses ! k \<or> s \<in> set (drop (Suc k) ses)"
    using assms(1) by (metis Un_iff set_append set_ConsD)
  then show ?thesis using assms(2) k(2) by (auto simp: remove_at_def)
qed

lemma remove_session_others:
  assumes "s \<in> set (ss_sessions ss)" and "ws_username s \<noteq> u"
  shows "s \<in> set (ss_sessions (remove_write_session ss f u i))"
  using assms by (auto simp: server_simps find_session_def session_matches_def
      intro!: remove_at_keeps split: option.splits)

lemma update_keeps: "s \<in> set xs \<Longrightarrow> s \<noteq> xs ! j \<Longrightarrow> s \<in> set (xs[j := y])"
  by (metis in_set_conv_nth length_list_update nth_list_update_neq)

lemma get_session_others:
  assumes "get_write_session ss f u i c = (ss1, k)" and "s \<in> set (ss_sessions ss)"
  shows "s \<in> set (ss_sessions ss1)" and "k = Some j \<Longrightarrow> ws_username (ss_sessions ss1 ! j) = u"
  using assms
  by (auto simp: get_write_session_def find_session_def session_matches_def
      split: option.splits if_splits dest!: find_index_SomeD)

lemma start_session_others:
  assumes "start_write_session_ss ss f u i t = (ss', r)"
    and s: "s \<in> set (ss_sessions ss)" and user: "ws_username s \<noteq> u"
  shows "s \<in> set (ss_sessions ss')"
  using assms(1)
proof (cases rule: start_session_cases)
  case full
  from get_session_others(1) [OF full(1) s] show ?thesis .
next
  case (entry ss1 j s1 ss2 fs' w)
  have "s \<in> set (ss_sessions ss2)"
    using get_session_others [OF entry(1) s] user by (auto simp: entry(3) intro!: update_keeps)
  with entry(4) remove_session_others [of s ss2 u f i] user show ?thesis by auto
qed

lemma handle_lock_others:
  assumes "handle_lock k ss msg = Some (ss', r)" and "s \<in> set (ss_sessions ss)"
    and "ws_username s \<noteq> m_sender msg"
  shows "s \<in> set (ss_sessions ss')"
  using assms start_session_others [of _ "m_filename msg" "m_sender msg" "m_sentence_index msg" "now k" _ _ s]
  by (force simp: handle_lock_def Let_def split: option.splits prod.splits if_splits)

lemma client_keeps_others:
  assumes "handle_client_request k ss msg = Some (ss', out)" and s: "s \<in> set (ss_sessions ss)"
    and user: "ws_username s \<noteq> m_sender msg"
  shows "s \<in> set (ss_sessions ss')"
proof -
  have unlock: "s \<in> set (ss_sessions ss1)" if "handle_unlock ss msg = Some (ss1, st)" for ss1 st
    using that remove_session_others [OF s user]
    by (auto simp: handle_unlock_def unlock_reply_def Let_def split_beta dest!: committed_session split: option.splits)
  have cancel: "s \<in> set (ss_sessions (fst (handle_cancel ss msg)))"
    using remove_session_others [OF s user] s
    by (auto simp: handle_cancel_def unlock_reply_def cancel_write_session_ss_def Let_def split_beta
        split: option.splits)
  show ?thesis
    using assms handle_lock_others [OF _ s user] unlock cancel handle_undo_keeps(1) [of ss msg]
    by (auto simp: handle_client_request_def Let_def split_beta dest: write_file_keeps split: if_splits)
qed

section \<open>Example states\<close>

text \<open>A server with no files, and the state after user u has locked the first sentence of f.\<close>

definition lock_request :: "string \<Rightarrow> string \<Rightarrow> message" where
  "lock_request f u = init_message\<lparr>m_type := MSG_LOCK_SENTENCE, m_sender := u, m_filename := f,
     m_sentence_index := 0\<rparr>"

definition write_request :: "string \<Rightarrow> message" where
  "write_request w = init_message\<lparr>m_type := MSG_WRITE, m_sender := ''u'', m_filename := ''f'',
     m_sentence_index := 0, m_word_index := 1, m_data := w\<rparr>"

definition cancel_request :: message where
  "cancel_request = init_message\<lparr>m_type := MSG_CANCEL_WRITE, m_sender := ''u'', m_filename := ''f'',
     m_sentence_index := 0\<rparr>"

definition example_kernel :: kernel where
  "example_kernel = \<lparr>now = 7, stat_times = (\<lambda>p. (0, 0)), readdir = (\<lambda>p. None)\<rparr>"

definition opened_server :: storage_server where
  "opened_server =
     server_with ((\<lambda>p. None)(''s/f.temp_u_0'' := Some [])) [(''f'', [\<lparr>locked = True, locked_by = ''u'', lock_time = 7\<rparr>])]
       [\<lparr>ws_filename = ''f'', ws_username = ''u'', ws_sentence_idx = 0, ws_temp_filepath = ''s/f.temp_u_0'',
         ws_original_count = 0, ws_lock_time = 7\<rparr>] []"

definition two_sessions :: storage_server where
  "two_sessions =
     server_with ((\<lambda>p. None)(''s/f.temp_u_0'' := Some [], ''s/g.temp_v_0'' := Some []))
       [(''f'', [\<lparr>locked = True, locked_by = ''u'', lock_time = 7\<rparr>]),
        (''g'', [\<lparr>locked = True, locked_by = ''v'', lock_time = 7\<rparr>])]
       [\<lparr>ws_filename = ''f'', ws_username = ''u'', ws_sentence_idx = 0, ws_temp_filepath = ''s/f.temp_u_0'',
         ws_original_count = 0, ws_lock_time = 7\<rparr>,
        \<lparr>ws_filename = ''g'', ws_username = ''v'', ws_sentence_idx = 0, ws_temp_filepath = ''s/g.temp_v_0'',
         ws_original_count = 0, ws_lock_time = 7\<rparr>] []"

lemmas lock_eval = handle_client_request_def handle_lock_def lock_request_def init_message_def
  example_kernel_def lock_index_valid_def parse_or_empty_def fs_read_def lock_sentence_ss_def
  init_file_locks_def get_sentence_lock_def set_sentence_lock_def free_lock_def start_write_session_ss_def
  get_write_session_def find_session_def session_matches_def temp_path_def fs_write_def fs_writable_def
  parent_dir_def server_with_def opened_server_def two_sessions_def file_path_def c_copy_fits

lemma zero_digit: "show_int 0 = ''0''"
  by code_simp

lemma opening_requests:
  "handle_client_request example_kernel (server_with (\<lambda>p. None) [] [] []) (lock_request ''f'' ''u'') =
   Some (opened_server, [reply SUCCESS])"
  "handle_client_request example_kernel opened_server (lock_request ''g'' ''v'') =
   Some (two_sessions, [reply SUCCESS])"
  "handle_client_request example_kernel opened_server (lock_request ''f'' ''v'') =
   Some (opened_server, [reply ERR_SENTENCE_LOCKED])"
  by (simp_all add: lock_eval zero_digit)

lemma opened_reachable: "ss_reachable opened_server"
proof -
  have "ss_reachable (server_with (\<lambda>p. None) [] [] [])"
    using ss_reachable.start [of "\<lparr>contents = (\<lambda>p. None), dirs = (\<lambda>q. q = ''s''), permitted = (\<lambda>q. True)\<rparr>" "''s''" 1]
    by (simp add: fresh_server_def server_with_def)
  from ss_reachable.client [OF this _ opening_requests(1)] show ?thesis by (simp add: lock_request_def)
qed

lemma two_reachable: "ss_reachable two_sessions"
  using ss_reachable.client [OF opened_reachable _ opening_requests(2)] by (simp add: lock_request_def)

lemma lock_refused:
  assumes "handle_client_request k ss msg = Some (ss', out)" and "m_type msg = MSG_LOCK_SENTENCE"
    and "\<And>tbl st. 0 \<le> m_sentence_index msg \<Longrightarrow> lock_sentence_ss (ss_locks ss) (m_filename msg) (m_sentence_index msg)
      (m_sender msg) (now k) = Some (tbl, st) \<Longrightarrow> st = ERR_SENTENCE_LOCKED"
  shows "(out = [reply ERR_SENTENCE_LOCKED] \<or> out = [reply ERR_INVALID_INDEX]) \<and>
    ss_disk ss' = ss_disk ss \<and> ss_sessions ss' = ss_sessions ss"
proof -
  obtain r where r: "handle_lock k ss msg = Some (ss', r)" and out: "out = [reply r]"
    using assms(1,2) by (auto simp: handle_client_request_def)
  then show ?thesis
    using assms(3) lock_index_valid_nonneg by (auto simp: handle_lock_def split: option.splits if_splits)
qed

section \<open>Properties\<close>

text \<open>
  C7. Editing is exclusive: in every reachable state, two different open sessions never
  edit the same sentence of the same file, and every session holds the lock of its sentence.
\<close>

theorem editing_is_exclusive:
  assumes "ss_reachable ss" and "x < length (ss_sessions ss)" and "y < length (ss_sessions ss)" and "x \<noteq> y"
  shows "(ws_filename (ss_sessions ss ! x), ws_sentence_idx (ss_sessions ss ! x)) \<noteq>
      (ws_filename (ss_sessions ss ! y), ws_sentence_idx (ss_sessions ss ! y)) \<and>
    holder (ss_locks ss) (ws_filename (ss_sessions ss ! x), ws_sentence_idx (ss_sessions ss ! x)) =
      Some (ws_username (ss_sessions ss ! x))"
  using reachable_sessions_hold [OF assms(1)] assms(2-4)
  by (auto simp: sessions_hold_def distinct_conv_nth session_key_def)

theorem editing_is_exclusive_witness:
  "(ws_filename (ss_sessions two_sessions ! 0), ws_sentence_idx (ss_sessions two_sessions ! 0)) \<noteq>
   (ws_filename (ss_sessions two_sessions ! 1), ws_sentence_idx (ss_sessions two_sessions ! 1))"
  using editing_is_exclusive [OF two_reachable, of 0 1] by (simp add: two_sessions_def)

text \<open>
  C9. A client cannot disturb a session of another user: whatever it requests, the session
  stays open and keeps its lock, and an attempt to lock the same sentence is refused and
  changes neither the files nor the sessions.
\<close>

theorem others_cannot_disturb:
  assumes "ss_reachable ss" and "s \<in> set (ss_sessions ss)"
    and "m_sender msg \<noteq> ws_username s" and "length (m_sender msg) < MAX_USERNAME"
    and "handle_client_request k ss msg = Some (ss', out)"
  shows "s \<in> set (ss_sessions ss') \<and>
    holder (ss_locks ss') (ws_filename s, ws_sentence_idx s) = Some (ws_username s) \<and>
    (m_type msg = MSG_LOCK_SENTENCE \<and> m_filename msg = ws_filename s \<and> m_sentence_index msg = ws_sentence_idx s \<longrightarrow>
     (out = [reply ERR_SENTENCE_LOCKED] \<or> out = [reply ERR_INVALID_INDEX]) \<and>
     ss_disk ss' = ss_disk ss \<and> ss_sessions ss' = ss_sessions ss)"
proof -
  note hold = reachable_sessions_hold [OF assms(1)]
  have s': "s \<in> set (ss_sessions ss')" using client_keeps_others [OF assms(5,2)] assms(3) by metis
  have held': "holder (ss_locks ss') (session_key s) = Some (ws_username s)"
    by (rule sessions_holdD [OF client_keeps_hold [OF assms(5) hold assms(4)] s'])
  have held: "holder (ss_locks ss) (session_key s) = Some (ws_username s)"
    by (rule sessions_holdD [OF hold assms(2)])
  have "st = ERR_SENTENCE_LOCKED"
    if "m_filename msg = ws_filename s" "m_sentence_index msg = ws_sentence_idx s" "0 \<le> m_sentence_index msg"
      "lock_sentence_ss (ss_locks ss) (m_filename msg) (m_sentence_index msg) (m_sender msg) (now k) = Some (tbl, st)"
    for tbl st
    using locks.acquire_law [OF that(3) assms(4) that(4)] held assms(3) that(1,2) by (auto simp: session_key_def)
  then have "m_type msg = MSG_LOCK_SENTENCE \<and> m_filename msg = ws_filename s \<and> m_sentence_index msg = ws_sentence_idx s \<longrightarrow>
     (out = [reply ERR_SENTENCE_LOCKED] \<or> out = [reply ERR_INVALID_INDEX]) \<and>
     ss_disk ss' = ss_disk ss \<and> ss_sessions ss' = ss_sessions ss"
    using lock_refused [OF assms(5)] by blast
  with s' held' show ?thesis by (simp add: session_key_def)
qed

theorem others_cannot_disturb_witness:
  "handle_client_request example_kernel opened_server (lock_request ''f'' ''v'') =
     Some (opened_server, [reply ERR_SENTENCE_LOCKED]) \<and>
   holder (ss_locks opened_server) (''f'', 0) = Some ''u''"
  using others_cannot_disturb [OF opened_reachable _ _ _ opening_requests(3), of "hd (ss_sessions opened_server)"]
  by (simp add: opening_requests(3)) (simp add: opened_server_def lock_request_def)

text \<open>
  C16. Only the holder of a sentence can write to it, and until the commit a write is private:
  a successful write changes the temporary copy of the writer's session and nothing else.
\<close>

theorem write_is_private:
  assumes "ss_reachable ss" and "m_type msg = MSG_WRITE"
    and "handle_client_request k ss msg = Some (ss', [reply SUCCESS])"
  shows "holder (ss_locks ss) (m_filename msg, m_sentence_index msg) = Some (m_sender msg) \<and>
    (\<exists>s \<in> set (ss_sessions ss). session_matches (m_filename msg) (m_sender msg) (m_sentence_index msg) s \<and>
      (\<forall>p. p \<noteq> ws_temp_filepath s \<longrightarrow> contents (ss_disk ss') p = contents (ss_disk ss) p)) \<and>
    ss' = ss\<lparr>ss_disk := ss_disk ss'\<rparr>"
proof -
  have neq: "reply ERR_INVALID_OPERATION \<noteq> reply SUCCESS" "reply ERR_INVALID_INDEX \<noteq> reply SUCCESS"
    by (simp_all add: reply_def init_message_def)
  obtain r where w: "write_file_ss ss (m_filename msg) (m_sender msg) (m_sentence_index msg)
      (m_word_index msg) (m_data msg) = Some (ss', r)" and r: "reply r = reply SUCCESS"
    using assms(2,3) by (auto simp: handle_client_request_def)
  have r: "r = SUCCESS" using r by (simp add: reply_def init_message_def)
  obtain j where j: "find_session ss (m_filename msg) (m_sender msg) (m_sentence_index msg) = Some j"
    using w r by (auto simp: write_file_ss_def split: option.splits)
  define s where "s = ss_sessions ss ! j"
  have s: "s \<in> set (ss_sessions ss)" "session_matches (m_filename msg) (m_sender msg) (m_sentence_index msg) s"
    using find_index_SomeD [OF j [unfolded find_session_def]] by (auto simp: s_def)
  have "ss' = ss\<lparr>ss_disk := ss_disk ss'\<rparr> \<and>
    (\<forall>p. p \<noteq> ws_temp_filepath s \<longrightarrow> contents (ss_disk ss') p = contents (ss_disk ss) p)"
    using w r j
    by (auto simp: write_file_ss_def fs_write_def Let_def s_def [symmetric] split: option.splits prod.splits if_splits)
  moreover have "holder (ss_locks ss) (m_filename msg, m_sentence_index msg) = Some (m_sender msg)"
    using sessions_holdD [OF reachable_sessions_hold [OF assms(1)] s(1)] s(2) by (simp add: matches_key)
  ultimately show ?thesis using s by blast
qed

theorem write_is_private_witness:
  "holder (ss_locks opened_server) (''f'', 0) = Some ''u'' \<and>
   handle_client_request example_kernel opened_server (write_request ''Hi'') =
     Some (opened_server\<lparr>ss_disk := fst (fs_write (ss_disk opened_server) ''s/f.temp_u_0'' ''Hi'')\<rparr>, [reply SUCCESS])"
proof -
  have edit: "insert_word_in_sentence [[]] 0 1 ''Hi'' = Some ([[''Hi'']], 0)"
    and written: "write_file_content [[''Hi'']] = ''Hi''" and parse: "parse_file [] = []"
    by code_simp+
  have run: "handle_client_request example_kernel opened_server (write_request ''Hi'') =
    Some (opened_server\<lparr>ss_disk := fst (fs_write (ss_disk opened_server) ''s/f.temp_u_0'' ''Hi'')\<rparr>, [reply SUCCESS])"
    by (simp add: handle_client_request_def write_request_def init_message_def write_file_ss_def
        find_session_def session_matches_def opened_server_def server_with_def fs_read_def parse_or_empty_def
        parse edit written fs_write_def fs_writable_def parent_dir_def Let_def)
  from write_is_private [OF opened_reachable _ run] run show ?thesis by (simp add: write_request_def init_message_def)
qed

text \<open>
  The name server learns of every open session: in a reachable state the lock check of
  a file with an open session answers that the file is locked, so that the name server
  refuses to delete, move or revert it.
\<close>

theorem lock_check_sees_sessions:
  assumes "ss_reachable ss" and "s \<in> set (ss_sessions ss)"
    and "m_type msg = MSG_CHECK_LOCKS" and "m_filename msg = ws_filename s"
  shows "handle_nm_request k ss msg =
    Some (ss, init_message\<lparr>m_ss_id := ss_id ss, m_status := ERR_FILE_LOCKED\<rparr>)"
proof -
  have "check_file_locks (ss_locks ss) (m_filename msg)"
    unfolding check_file_locks_holder assms(4)
    using sessions_holdD [OF reachable_sessions_hold [OF assms(1)] assms(2)] by (auto simp: session_key_def)
  then show ?thesis using assms(3) by (simp add: handle_nm_request_def)
qed

theorem lock_check_sees_sessions_witness:
  "handle_nm_request example_kernel opened_server (init_message\<lparr>m_type := MSG_CHECK_LOCKS, m_filename := ''f''\<rparr>) =
   Some (opened_server, init_message\<lparr>m_ss_id := 1, m_status := ERR_FILE_LOCKED\<rparr>)"
  using lock_check_sees_sessions [OF opened_reachable, of "hd (ss_sessions opened_server)"
      "init_message\<lparr>m_type := MSG_CHECK_LOCKS, m_filename := ''f''\<rparr>" example_kernel]
  by (simp add: opened_server_def server_with_def)

text \<open>
  C17. The end of an edit: when the holder unlocks, whether the commit succeeded or not, the
  sentence is free, no session of the holder is left on it, and every other lock is as before.
\<close>

theorem unlock_frees_sentence:
  assumes "ss_reachable ss" and "m_type msg = MSG_UNLOCK_SENTENCE \<or> m_type msg = MSG_CANCEL_WRITE"
    and "holder (ss_locks ss) (m_filename msg, m_sentence_index msg) = Some (m_sender msg)"
    and "handle_client_request k ss msg = Some (ss', out)"
  shows "holder (ss_locks ss') = (holder (ss_locks ss))((m_filename msg, m_sentence_index msg) := None) \<and>
    (\<forall>s \<in> set (ss_sessions ss'). (ws_filename s, ws_sentence_idx s) \<noteq> (m_filename msg, m_sentence_index msg))"
proof -
  note hold = reachable_sessions_hold [OF assms(1)]
  define f i u where "f = m_filename msg" and "i = m_sentence_index msg" and "u = m_sender msg"
  note fiu = f_def i_def u_def
  have "ss_locks ss' = fst (unlock_sentence_ss (ss_locks ss) f i u) \<and> sessions_hold (ss_locks ss') (ss_sessions ss')"
    using assms(2)
  proof
    assume unlock: "m_type msg = MSG_UNLOCK_SENTENCE"
    then obtain r where r: "handle_unlock ss msg = Some (ss', r)"
      using assms(4) by (auto simp: handle_client_request_def)
    then obtain ss1 st where "commit_write_session_ss ss f u i = Some (ss1, st)" "ss' = fst (unlock_reply ss1 msg)"
      by (auto simp: handle_unlock_def fiu split_beta Let_def split: option.splits)
    with committed_session [of ss f u i ss1 st] handle_unlock_hold [OF r hold] show ?thesis
      by (simp add: unlock_reply_def fiu split_beta Let_def)
  next
    assume cancel: "m_type msg = MSG_CANCEL_WRITE"
    then have "ss' = fst (handle_cancel ss msg)" using assms(4) by (auto simp: handle_client_request_def split: prod.splits)
    moreover have "ss_locks (fst (cancel_write_session_ss ss f u i)) = ss_locks ss"
      by (simp add: cancel_write_session_ss_def server_simps split: option.splits)
    ultimately show ?thesis using handle_cancel_hold [OF hold, of msg]
      by (simp add: handle_cancel_def unlock_reply_def fiu split_beta Let_def)
  qed
  moreover have "holder (fst (unlock_sentence_ss (ss_locks ss) f i u)) = (holder (ss_locks ss))((f, i) := None)"
    using assms(3) by (simp add: locks.release_law fiu)
  ultimately have h: "holder (ss_locks ss') = (holder (ss_locks ss))((f, i) := None)"
    and hold': "sessions_hold (ss_locks ss') (ss_sessions ss')" by (metis, metis)
  have "session_key s \<noteq> (f, i)" if "s \<in> set (ss_sessions ss')" for s
    using sessions_holdD [OF hold' that] by (auto simp: h)
  with h show ?thesis by (simp add: fiu session_key_def)
qed

theorem unlock_frees_sentence_witness:
  "holder (ss_locks (fst (handle_cancel opened_server cancel_request))) (''f'', 0) = None"
proof -
  have "handle_client_request example_kernel opened_server cancel_request =
    Some (fst (handle_cancel opened_server cancel_request), [reply (snd (handle_cancel opened_server cancel_request))])"
    by (simp add: handle_client_request_def cancel_request_def split_beta)
  from unlock_frees_sentence [OF opened_reachable _ _ this] show ?thesis
    by (simp add: cancel_request_def holder_def get_sentence_lock_def opened_server_def)
qed

end
