(* ===== verification/NameState.thy ===== *)
theory NameState
  imports TrieMap LruCache Messages "HOL-Library.Monad_Syntax"
begin

text \<open>
  The state of the name server (\<^verbatim>\<open>nm.c\<close>, with the structures of \<^verbatim>\<open>common.h\<close>) and the
  functions below its handlers: the registry of users, the list of storage servers, the
  metadata of files and the access check. An array with its counter is a list, except for
  \<^verbatim>\<open>client_list\<close>, which is also read past its counter. \<^const>\<open>None\<close> is a call that never
  returns (theory \<^verbatim>\<open>LruCache\<close>) or a store outside a buffer.
\<close>

section \<open>Structures\<close>

record acl_entry =
  acl_user :: string
  acl_access :: int

record file_metadata =
  fm_filename :: string
  fm_folder_path :: string
  fm_owner :: string
  fm_ss_id :: int
  fm_size :: int
  fm_word_count :: int
  fm_char_count :: int
  fm_created :: int
  fm_modified :: int
  fm_accessed :: int
  fm_last_accessed_by :: string
  fm_acl :: "acl_entry list"

record folder_metadata =
  fo_foldername :: string
  fo_parent_path :: string
  fo_owner :: string
  fo_created :: int
  fo_ss_id :: int
  fo_acl :: "acl_entry list"

record ss_info =
  si_id :: int
  si_ip :: string
  si_nm_port :: int
  si_client_port :: int
  si_sock :: int
  si_hb_sock :: int
  si_active :: bool
  si_last_heartbeat :: int
  si_files :: "string list"

record client_info =
  ci_username :: string
  ci_ip :: string
  ci_sock :: int
  ci_connected :: int

record access_request =
  ar_username :: string
  ar_filename :: string
  ar_access :: int
  ar_time :: int

record registered_user =
  ru_username :: string
  ru_first_registered :: int
  ru_last_seen :: int
  ru_active :: bool
  ru_sock :: int

record name_server =
  nm_files :: "file_metadata trie_node"
  nm_folders :: "folder_metadata trie_node"
  nm_cache :: "file_metadata lru_cache"
  nm_ss_list :: "ss_info list"
  nm_next_ss_id :: nat
  nm_users :: "registered_user list"
  nm_clients :: "client_info list"
  nm_client_count :: nat
  nm_requests :: "access_request list"

abbreviation MAX_USERS :: nat where "MAX_USERS \<equiv> 1000"
abbreviation MAX_REQUESTS :: nat where "MAX_REQUESTS \<equiv> 100000"
abbreviation HEARTBEAT_TIMEOUT :: int where "HEARTBEAT_TIMEOUT \<equiv> 15"

definition blank_client :: client_info where
  "blank_client = \<lparr>ci_username = [], ci_ip = [], ci_sock = 0, ci_connected = 0\<rparr>"

definition init_name_server :: name_server where
  "init_name_server =
     \<lparr>nm_files = init_trie, nm_folders = init_folder_trie, nm_cache = init_cache CACHE_SIZE,
      nm_ss_list = [], nm_next_ss_id = 0, nm_users = [],
      nm_clients = replicate MAX_CLIENTS blank_client, nm_client_count = 0, nm_requests = []\<rparr>"

section \<open>Users\<close>

text \<open>The flag is \<^verbatim>\<open>*is_duplicate\<close>.\<close>

definition register_user_persistent ::
  "int \<Rightarrow> name_server \<Rightarrow> string \<Rightarrow> int \<Rightarrow> name_server \<times> bool" where
  "register_user_persistent t nm username client_sock =
     (case find_index (\<lambda>u. ru_username u = username) (nm_users nm) of
        Some k \<Rightarrow>
          if ru_active (nm_users nm ! k) then (nm, True)
          else (nm\<lparr>nm_users := (nm_users nm)[k := (nm_users nm ! k)\<lparr>ru_last_seen := t, ru_active := True,
                                                    ru_sock := client_sock\<rparr>]\<rparr>, False)
      | None \<Rightarrow>
          if length (nm_users nm) < MAX_USERS
          then (nm\<lparr>nm_users := nm_users nm @
                  [\<lparr>ru_username = username, ru_first_registered = t, ru_last_seen = t, ru_active = True,
                    ru_sock = client_sock\<rparr>]\<rparr>, False)
          else (nm, True))"

definition deregister_active_session :: "int \<Rightarrow> name_server \<Rightarrow> string \<Rightarrow> int \<Rightarrow> name_server" where
  "deregister_active_session t nm username client_sock =
     (case find_index (\<lambda>u. ru_username u = username) (nm_users nm) of
        None \<Rightarrow> nm
      | Some k \<Rightarrow>
          if ru_sock (nm_users nm ! k) = client_sock
          then nm\<lparr>nm_users := (nm_users nm)[k := (nm_users nm ! k)\<lparr>ru_active := False, ru_sock := - 1,
                                                  ru_last_seen := t\<rparr>]\<rparr>
          else nm)"

definition user_exists :: "name_server \<Rightarrow> string \<Rightarrow> bool" where
  "user_exists nm username = list_ex (\<lambda>u. ru_username u = username) (nm_users nm)"

section \<open>Storage servers\<close>

definition find_ss_for_file :: "name_server \<Rightarrow> string \<Rightarrow> (name_server \<times> int) option" where
  "find_ss_for_file nm filename = do {
     (cache, cached) \<leftarrow> cache_get (nm_cache nm) filename;
     let nm1 = nm\<lparr>nm_cache := cache\<rparr>;
     case cached of
       Some meta \<Rightarrow> Some (nm1, fm_ss_id meta)
     | None \<Rightarrow>
         (case trie_search (nm_files nm1) filename of
            None \<Rightarrow> Some (nm1, - 1)
          | Some meta \<Rightarrow> do {
              cache2 \<leftarrow> cache_put cache filename meta;
              Some (nm1\<lparr>nm_cache := cache2\<rparr>, fm_ss_id meta)
            })
   }"

definition get_next_ss_round_robin :: "name_server \<Rightarrow> name_server \<times> int" where
  "get_next_ss_round_robin nm =
     (if nm_ss_list nm = [] then (nm, - 1)
      else (nm\<lparr>nm_next_ss_id := nm_next_ss_id nm + 1\<rparr>,
            si_id (nm_ss_list nm ! (nm_next_ss_id nm mod length (nm_ss_list nm)))))"

text \<open>The two forms of the loop that looks for the slot of a storage server.\<close>

definition server_slot :: "name_server \<Rightarrow> int \<Rightarrow> nat option" where
  "server_slot nm ss_id = find_index (\<lambda>s. si_id s = ss_id) (nm_ss_list nm)"

definition active_server_slot :: "name_server \<Rightarrow> int \<Rightarrow> nat option" where
  "active_server_slot nm ss_id = find_index (\<lambda>s. si_id s = ss_id \<and> si_active s) (nm_ss_list nm)"

section \<open>Access control\<close>

definition entry_allows :: "int \<Rightarrow> int \<Rightarrow> bool" where
  "entry_allows access required \<longleftrightarrow>
     required = ACCESS_READ \<and> (access = ACCESS_READ \<or> access = ACCESS_READWRITE) \<or>
     required = ACCESS_WRITE \<and> access = ACCESS_READWRITE"

definition acl_index :: "acl_entry list \<Rightarrow> string \<Rightarrow> nat option" where
  "acl_index acl username = find_index (\<lambda>e. acl_user e = username) acl"

definition meta_allows :: "file_metadata \<Rightarrow> string \<Rightarrow> int \<Rightarrow> bool" where
  "meta_allows meta username required \<longleftrightarrow>
     fm_owner meta = username \<or>
     (case acl_index (fm_acl meta) username of
        None \<Rightarrow> False
      | Some k \<Rightarrow> entry_allows (acl_access (fm_acl meta ! k)) required)"

definition check_access :: "name_server \<Rightarrow> string \<Rightarrow> string \<Rightarrow> int \<Rightarrow> bool" where
  "check_access nm filename username required =
     (case trie_search (nm_files nm) filename of
        None \<Rightarrow> False
      | Some meta \<Rightarrow> meta_allows meta username required)"

text \<open>An entry is changed in place, or added while the array has room.\<close>

definition set_acl :: "acl_entry list \<Rightarrow> string \<Rightarrow> int \<Rightarrow> acl_entry list" where
  "set_acl acl username access =
     (case acl_index acl username of
        Some k \<Rightarrow> acl[k := (acl ! k)\<lparr>acl_access := access\<rparr>]
      | None \<Rightarrow> if length acl < MAX_ACL_ENTRIES
                then acl @ [\<lparr>acl_user = username, acl_access = access\<rparr>] else acl)"

definition remove_acl :: "acl_entry list \<Rightarrow> string \<Rightarrow> acl_entry list" where
  "remove_acl acl username =
     (case acl_index acl username of None \<Rightarrow> acl | Some k \<Rightarrow> remove_at k acl)"

text \<open>\<^verbatim>\<open>trie_update\<close> followed by \<^verbatim>\<open>cache_put\<close>\<close>

definition store_metadata :: "name_server \<Rightarrow> string \<Rightarrow> file_metadata \<Rightarrow> name_server option" where
  "store_metadata nm filename meta = do {
     cache \<leftarrow> cache_put (nm_cache nm) filename meta;
     Some (nm\<lparr>nm_files := fst (trie_update (nm_files nm) filename meta), nm_cache := cache\<rparr>)
   }"

section \<open>Storage-server connections and heartbeats\<close>

text \<open>\<^verbatim>\<open>strtok(list, ",")\<close>\<close>

fun split_commas :: "string \<Rightarrow> string \<Rightarrow> string list" where
  "split_commas token [] = (if token = [] then [] else [token])"
| "split_commas token (c # cs) =
     (if c = CHR '','' then (if token = [] then [] else [token]) @ split_commas [] cs
      else split_commas (token @ [c]) cs)"

definition register_file :: "int \<Rightarrow> int \<Rightarrow> file_metadata trie_node \<Rightarrow> string \<Rightarrow> file_metadata trie_node option" where
  "register_file t ss_id files name =
     (if length name \<ge> MAX_FILENAME then None
      else case trie_search files name of
             Some existing \<Rightarrow> Some (fst (trie_update files name (existing\<lparr>fm_ss_id := ss_id\<rparr>)))
           | None \<Rightarrow>
               Some (fst (trie_insert files name
                 \<lparr>fm_filename = name, fm_folder_path = [], fm_owner = ''system'', fm_ss_id = ss_id,
                  fm_size = 0, fm_word_count = 0, fm_char_count = 0, fm_created = t, fm_modified = t,
                  fm_accessed = t, fm_last_accessed_by = [], fm_acl = []\<rparr>)))"

fun register_files :: "int \<Rightarrow> int \<Rightarrow> file_metadata trie_node \<Rightarrow> string list \<Rightarrow> file_metadata trie_node option" where
  "register_files t ss_id files [] = Some files"
| "register_files t ss_id files (n # ns) = do {
     files' \<leftarrow> register_file t ss_id files n;
     register_files t ss_id files' ns
   }"

text \<open>The registration part of \<^verbatim>\<open>handle_ss_connection\<close>; the flag tells if the server was accepted.\<close>

definition register_ss :: "int \<Rightarrow> int \<Rightarrow> name_server \<Rightarrow> message \<Rightarrow> (name_server \<times> bool) option" where
  "register_ss t ss_sock nm msg =
     (if m_type msg \<noteq> MSG_REG_SS then Some (nm, False)
      else if server_slot nm (m_ss_id msg) = None \<and> length (nm_ss_list nm) \<ge> MAX_SS then Some (nm, False)
      else if length (m_sender msg) \<ge> INET_ADDRSTRLEN then None
      else let names = take MAX_FILES (split_commas [] (m_data msg));
               info = \<lparr>si_id = m_ss_id msg, si_ip = m_sender msg, si_nm_port = m_nm_port msg,
                       si_client_port = m_client_port msg, si_sock = ss_sock, si_hb_sock = - 1,
                       si_active = True, si_last_heartbeat = t, si_files = names\<rparr>;
               servers = (case server_slot nm (m_ss_id msg) of
                            Some k \<Rightarrow> (nm_ss_list nm)[k := info]
                          | None \<Rightarrow> nm_ss_list nm @ [info])
           in do {
             files \<leftarrow> register_files t (m_ss_id msg) (nm_files nm) names;
             Some (nm\<lparr>nm_files := files, nm_ss_list := servers\<rparr>, True)
           })"

definition update_server :: "name_server \<Rightarrow> int \<Rightarrow> (ss_info \<Rightarrow> ss_info) \<Rightarrow> name_server" where
  "update_server nm ss_id f =
     (case server_slot nm ss_id of
        None \<Rightarrow> nm
      | Some k \<Rightarrow> nm\<lparr>nm_ss_list := (nm_ss_list nm)[k := f (nm_ss_list nm ! k)]\<rparr>)"

text \<open>The three updates of \<^verbatim>\<open>handle_ss_heartbeat\<close> and one round of \<^verbatim>\<open>heartbeat_monitor\<close>.\<close>

definition heartbeat_connected :: "int \<Rightarrow> int \<Rightarrow> name_server \<Rightarrow> int \<Rightarrow> name_server" where
  "heartbeat_connected t hb_sock nm ss_id =
     update_server nm ss_id (\<lambda>s. s\<lparr>si_hb_sock := hb_sock, si_last_heartbeat := t\<rparr>)"

definition heartbeat_received :: "int \<Rightarrow> name_server \<Rightarrow> int \<Rightarrow> message \<Rightarrow> name_server" where
  "heartbeat_received t nm ss_id msg =
     (if m_type msg = MSG_ACK \<and> m_data msg = ''HEARTBEAT''
      then update_server nm ss_id (\<lambda>s. s\<lparr>si_last_heartbeat := t\<rparr>) else nm)"

definition heartbeat_lost :: "name_server \<Rightarrow> int \<Rightarrow> name_server" where
  "heartbeat_lost nm ss_id = update_server nm ss_id (\<lambda>s. s\<lparr>si_hb_sock := - 1, si_active := False\<rparr>)"

definition check_heartbeat :: "int \<Rightarrow> ss_info \<Rightarrow> ss_info" where
  "check_heartbeat t s =
     (let idle = t - si_last_heartbeat s;
          limit = (if idle < 60 then 60 else HEARTBEAT_TIMEOUT)
      in if si_active s \<and> idle > limit then s\<lparr>si_active := False, si_hb_sock := - 1\<rparr> else s)"

definition heartbeat_monitor :: "int \<Rightarrow> name_server \<Rightarrow> name_server" where
  "heartbeat_monitor t nm = nm\<lparr>nm_ss_list := map (check_heartbeat t) (nm_ss_list nm)\<rparr>"

end
