(* ===== verification/NameRequests.thy ===== *)
theory NameRequests
  imports NameState
begin

text \<open>
  The request handlers of the name server (\<^verbatim>\<open>nm.c\<close>), \<^verbatim>\<open>handle_client_connection\<close> and the
  states they reach. A handler is one step on the name server and on the world behind the
  sockets of the storage servers. That world, the clock, the text of a time stamp and the
  shell are arguments: \<^verbatim>\<open>exchange\<close> is one \<^verbatim>\<open>send_message\<close> and one \<^verbatim>\<open>recv_message\<close> on the
  command socket of a slot and yields the return value of \<^verbatim>\<open>recv_message\<close> with what the
  receive buffer holds afterwards, which is arbitrary after a failure.
\<close>

record 'w nm_env =
  clock :: int
  time_text :: "int \<Rightarrow> string"
  shell :: "string \<Rightarrow> string option"
  exchange :: "'w \<Rightarrow> nat \<Rightarrow> message \<Rightarrow> 'w \<times> int \<times> message"

abbreviation answer :: "int \<Rightarrow> message" where
  "answer status \<equiv> init_message\<lparr>m_status := status\<rparr>"

type_synonym 'w outcome = "((name_server \<times> 'w) \<times> message) option"

section \<open>Access requests\<close>

definition handle_requestaccess :: "'w nm_env \<Rightarrow> name_server \<times> 'w \<Rightarrow> message \<Rightarrow> 'w outcome" where
  "handle_requestaccess env = (\<lambda>(nm, w) msg.
     if trie_search (nm_files nm) (m_filename msg) = None then Some ((nm, w), answer ERR_FILE_NOT_FOUND)
     else if check_access nm (m_filename msg) (m_sender msg) (m_access msg)
     then Some ((nm, w), (answer SUCCESS)\<lparr>m_data := ''You already have this access''\<rparr>)
     else if list_ex (\<lambda>r. ar_username r = m_sender msg \<and> ar_filename r = m_filename msg \<and>
                          ar_access r = m_access msg) (nm_requests nm)
     then Some ((nm, w), (answer SUCCESS)\<lparr>m_data := ''Request already pending''\<rparr>)
     else if length (nm_requests nm) < MAX_REQUESTS
     then Some ((nm\<lparr>nm_requests := nm_requests nm @
                   [\<lparr>ar_username = m_sender msg, ar_filename = m_filename msg, ar_access = m_access msg,
                     ar_time = clock env\<rparr>]\<rparr>, w), answer SUCCESS)
     else Some ((nm, w), (answer ERR_SERVER_ERROR)\<lparr>m_data := ''Request queue full''\<rparr>))"

text \<open>
  \<^verbatim>\<open>pos += snprintf(buffer + pos, MAX_BUFFER - pos, ...)\<close>: the size is a \<^verbatim>\<open>size_t\<close>, so the
  call writes behind the buffer once the position has passed its end.
\<close>

definition print_at :: "string \<Rightarrow> string \<times> nat \<Rightarrow> (string \<times> nat) option" where
  "print_at s = (\<lambda>(buffer, pos).
     if pos > MAX_BUFFER then None
     else Some (take (MAX_BUFFER - 1) (buffer @ s), pos + length s))"

fun print_lines :: "string list \<Rightarrow> string \<times> nat \<Rightarrow> (string \<times> nat) option" where
  "print_lines [] out = Some out"
| "print_lines (s # ss) out = do { out' \<leftarrow> print_at s out; print_lines ss out' }"

definition owned_by :: "name_server \<Rightarrow> string \<Rightarrow> string \<Rightarrow> bool" where
  "owned_by nm filename username =
     (case trie_search (nm_files nm) filename of None \<Rightarrow> False | Some meta \<Rightarrow> fm_owner meta = username)"

definition request_line :: "'w nm_env \<Rightarrow> nat \<Rightarrow> access_request \<Rightarrow> string" where
  "request_line env i r =
     ''['' @ show_nat i @ ''] User: '' @ ar_username r @ '', File: '' @ ar_filename r @ '', Access: '' @
     (if ar_access r = ACCESS_READ then ''READ'' else ''WRITE'') @ '', Time: '' @ time_text env (ar_time r) @ [NEWLINE]"

definition handle_viewrequests :: "'w nm_env \<Rightarrow> name_server \<times> 'w \<Rightarrow> message \<Rightarrow> 'w outcome" where
  "handle_viewrequests env = (\<lambda>(nm, w) msg.
     (let lines = map (\<lambda>(i, r). request_line env i r)
            (filter (\<lambda>(i, r). owned_by nm (ar_filename r) (m_sender msg)) (enumerate 0 (nm_requests nm)));
          resp = (answer SUCCESS)\<lparr>m_type := MSG_DATA\<rparr>
      in do {
        (buffer, pos) \<leftarrow> print_lines lines ([], 0);
        Some ((nm, w), resp\<lparr>m_data := (if lines = [] then ''No pending access requests for your files.'' @ [NEWLINE]
                                        else buffer)\<rparr>)
      }))"

definition handle_approverequest :: "'w nm_env \<Rightarrow> name_server \<times> 'w \<Rightarrow> message \<Rightarrow> 'w outcome" where
  "handle_approverequest env = (\<lambda>(nm, w) msg.
     if m_sentence_index msg < 0 \<or> m_sentence_index msg \<ge> int (length (nm_requests nm))
     then Some ((nm, w), answer ERR_INVALID_INDEX)
     else let k = nat (m_sentence_index msg); req = nm_requests nm ! k in
       case trie_search (nm_files nm) (ar_filename req) of
         None \<Rightarrow> Some ((nm, w), answer ERR_NOT_OWNER)
       | Some meta \<Rightarrow>
           if fm_owner meta \<noteq> m_sender msg then Some ((nm, w), answer ERR_NOT_OWNER)
           else do {
             nm1 \<leftarrow> store_metadata nm (ar_filename req)
                      (meta\<lparr>fm_acl := set_acl (fm_acl meta) (ar_username req) (ar_access req)\<rparr>);
             Some ((nm1\<lparr>nm_requests := remove_at k (nm_requests nm)\<rparr>, w), answer SUCCESS)
           })"

definition handle_denyrequest :: "'w nm_env \<Rightarrow> name_server \<times> 'w \<Rightarrow> message \<Rightarrow> 'w outcome" where
  "handle_denyrequest env = (\<lambda>(nm, w) msg.
     if m_sentence_index msg < 0 \<or> m_sentence_index msg \<ge> int (length (nm_requests nm))
     then Some ((nm, w), answer ERR_INVALID_INDEX)
     else let k = nat (m_sentence_index msg); req = nm_requests nm ! k in
       if owned_by nm (ar_filename req) (m_sender msg)
       then Some ((nm\<lparr>nm_requests := remove_at k (nm_requests nm)\<rparr>, w), answer SUCCESS)
       else Some ((nm, w), answer ERR_NOT_OWNER))"

section \<open>Folders\<close>

definition handle_createfolder :: "'w nm_env \<Rightarrow> name_server \<times> 'w \<Rightarrow> message \<Rightarrow> 'w outcome" where
  "handle_createfolder env = (\<lambda>(nm, w) msg.
     (let full_path = c_copy MAX_PATH (if m_target_path msg \<noteq> []
                        then m_target_path msg @ ''/'' @ m_foldername msg else ''/'' @ m_foldername msg) in
      if folder_trie_search (nm_folders nm) full_path \<noteq> None then Some ((nm, w), answer ERR_FILE_EXISTS)
      else let (nm1, ss_id) = get_next_ss_round_robin nm in
        if ss_id < 0 then Some ((nm1, w), answer ERR_SS_UNAVAILABLE)
        else case active_server_slot nm1 ss_id of
               None \<Rightarrow> Some ((nm1, w), answer ERR_SS_UNAVAILABLE)
             | Some k \<Rightarrow>
                 (let (w1, rc, resp) = exchange env w k (init_message\<lparr>m_type := MSG_CREATEFOLDER,
                        m_foldername := m_foldername msg, m_target_path := full_path\<rparr>)
                  in if m_status resp = SUCCESS
                     then Some ((nm1\<lparr>nm_folders := fst (folder_trie_insert (nm_folders nm1) full_path
                            \<lparr>fo_foldername = m_foldername msg, fo_parent_path = m_target_path msg,
                             fo_owner = m_sender msg, fo_created = clock env, fo_ss_id = ss_id, fo_acl = []\<rparr>)\<rparr>,
                            w1), answer SUCCESS)
                     else Some ((nm1, w1), answer (m_status resp)))))"

definition is_root :: "string \<Rightarrow> bool" where
  "is_root path \<longleftrightarrow> path = [] \<or> path = ''/''"

definition handle_move :: "'w nm_env \<Rightarrow> name_server \<times> 'w \<Rightarrow> message \<Rightarrow> 'w outcome" where
  "handle_move env = (\<lambda>(nm, w) msg.
     case trie_search (nm_files nm) (m_filename msg) of
       None \<Rightarrow> Some ((nm, w), answer ERR_FILE_NOT_FOUND)
     | Some meta \<Rightarrow>
         if fm_owner meta \<noteq> m_sender msg \<and> \<not> check_access nm (m_filename msg) (m_sender msg) ACCESS_WRITE
         then Some ((nm, w), answer ERR_ACCESS_DENIED)
         else if \<not> is_root (m_target_path msg) \<and> folder_trie_search (nm_folders nm) (m_target_path msg) = None
         then Some ((nm, w), answer ERR_FILE_NOT_FOUND)
         else case active_server_slot nm (fm_ss_id meta) of
           None \<Rightarrow> Some ((nm, w), answer ERR_SS_UNAVAILABLE)
         | Some k \<Rightarrow>
             (let (w1, rc, resp) = exchange env w k (init_message\<lparr>m_type := MSG_MOVE,
                    m_filename := m_filename msg, m_target_path := m_target_path msg,
                    m_data := fm_folder_path meta\<rparr>)
              in if m_status resp = SUCCESS
                 then do {
                   nm1 \<leftarrow> store_metadata nm (m_filename msg) (meta\<lparr>fm_folder_path := m_target_path msg\<rparr>);
                   Some ((nm1, w1), answer SUCCESS)
                 }
                 else Some ((nm, w1), answer (m_status resp))))"

definition handle_viewfolder :: "'w nm_env \<Rightarrow> name_server \<times> 'w \<Rightarrow> message \<Rightarrow> 'w outcome" where
  "handle_viewfolder env = (\<lambda>(nm, w) msg.
     if \<not> is_root (m_target_path msg) \<and> folder_trie_search (nm_folders nm) (m_target_path msg) = None
     then Some ((nm, w), (answer ERR_FILE_NOT_FOUND)\<lparr>m_type := MSG_DATA\<rparr>)
     else let files = filter (\<lambda>f. fm_folder_path f = (if is_root (m_target_path msg) then [] else m_target_path msg) \<and>
                                  check_access nm (fm_filename f) (m_sender msg) ACCESS_READ)
                        (trie_get_all_files (nm_files nm) MAX_FILES)
          in do {
            (buffer, pos) \<leftarrow> print_lines (map (\<lambda>f. fm_filename f @ [NEWLINE]) files) ([], 0);
            Some ((nm, w), (answer SUCCESS)\<lparr>m_type := MSG_DATA,
                    m_data := (if pos = 0 then ''(empty folder)'' @ [NEWLINE] else buffer)\<rparr>)
          })"

section \<open>Checkpoints and execution\<close>

definition handle_checkpoint_request :: "'w nm_env \<Rightarrow> name_server \<times> 'w \<Rightarrow> message \<Rightarrow> 'w outcome" where
  "handle_checkpoint_request env = (\<lambda>(nm, w) msg.
     if \<not> check_access nm (m_filename msg) (m_sender msg) ACCESS_WRITE then Some ((nm, w), answer ERR_ACCESS_DENIED)
     else do {
       (nm1, ss_id) \<leftarrow> find_ss_for_file nm (m_filename msg);
       if ss_id < 0 then Some ((nm1, w), answer ERR_FILE_NOT_FOUND)
       else case active_server_slot nm1 ss_id of
              None \<Rightarrow> Some ((nm1, w), answer ERR_SS_UNAVAILABLE)
            | Some k \<Rightarrow> (let (w1, rc, resp) = exchange env w k msg in Some ((nm1, w1), resp))
     })"

definition handle_exec :: "'w nm_env \<Rightarrow> name_server \<times> 'w \<Rightarrow> message \<Rightarrow> 'w outcome" where
  "handle_exec env = (\<lambda>(nm, w) msg.
     if \<not> check_access nm (m_filename msg) (m_sender msg) ACCESS_READ then Some ((nm, w), answer ERR_ACCESS_DENIED)
     else do {
       (nm1, ss_id) \<leftarrow> find_ss_for_file nm (m_filename msg);
       if ss_id < 0 then Some ((nm1, w), answer ERR_FILE_NOT_FOUND)
       else case server_slot nm1 ss_id of
              None \<Rightarrow> Some ((nm1, w), answer ERR_SS_UNAVAILABLE)
            | Some k \<Rightarrow>
                (let (w1, rc, resp) = exchange env w k (init_message\<lparr>m_type := MSG_SS_INFO,
                       m_filename := m_filename msg, m_data := ''READ_CONTENT''\<rparr>)
                 in if m_status resp \<noteq> SUCCESS then Some ((nm1, w1), answer (m_status resp))
                    else case shell env (m_data resp) of
                           None \<Rightarrow> Some ((nm1, w1), answer ERR_SERVER_ERROR)
                         | Some output \<Rightarrow>
                             Some ((nm1, w1), (answer SUCCESS)\<lparr>m_data := c_str (take (MAX_BUFFER - 1) output)\<rparr>))
     })"

section \<open>Listings\<close>

text \<open>
  \<^verbatim>\<open>sscanf(text, "%zu|%d|%d|%ld|%ld", ...)\<close>: numbers with optional leading blanks and sign,
  separated by bars; the scan stops at the first thing that does not match and leaves the
  remaining variables alone.
\<close>

definition scan_number :: "string \<Rightarrow> (int \<times> string) option" where
  "scan_number s =
     (let digits = (\<lambda>sign s. if takeWhile is_digit s = [] then None
                             else Some (sign * read_digits s, dropWhile is_digit s))
      in case dropWhile c_isspace s of
           [] \<Rightarrow> None
         | c # cs \<Rightarrow> if c = CHR ''-'' then digits (- 1) cs
                     else if c = CHR ''+'' then digits 1 cs else digits 1 (c # cs))"

fun scan_numbers :: "nat \<Rightarrow> string \<Rightarrow> int list" where
  "scan_numbers 0 s = []"
| "scan_numbers (Suc k) s =
     (case scan_number s of
        None \<Rightarrow> []
      | Some (n, r) \<Rightarrow> n # (case r of c # cs \<Rightarrow> if c = BAR then scan_numbers k cs else [] | [] \<Rightarrow> []))"

text \<open>What \<^verbatim>\<open>%zu\<close>, \<^verbatim>\<open>%ld\<close> and \<^verbatim>\<open>%d\<close> keep of a number.\<close>

definition to_size :: "int \<Rightarrow> int" where
  "to_size v = (if \<bar>v\<bar> \<ge> 2 ^ 64 then 2 ^ 64 - 1 else v mod 2 ^ 64)"

definition to_long :: "int \<Rightarrow> int" where
  "to_long v = max (- (2 ^ 63)) (min (2 ^ 63 - 1) v)"

definition apply_info :: "int list \<Rightarrow> file_metadata \<Rightarrow> file_metadata" where
  "apply_info ns meta =
     (let n = length ns in
      meta\<lparr>fm_size := (if 0 < n then to_size (ns ! 0) else fm_size meta),
           fm_word_count := (if 1 < n then to_int32 (to_long (ns ! 1)) else fm_word_count meta),
           fm_char_count := (if 2 < n then to_int32 (to_long (ns ! 2)) else fm_char_count meta),
           fm_modified := (if 3 < n then to_long (ns ! 3) else fm_modified meta),
           fm_accessed := (if 4 < n then to_long (ns ! 4) else fm_accessed meta)\<rparr>)"

definition read_info :: "string \<Rightarrow> file_metadata \<Rightarrow> file_metadata" where
  "read_info text meta = apply_info (scan_numbers 5 text) meta"

text \<open>The flags of \<^verbatim>\<open>VIEW\<close>: whether the scan is between words, in a flag or in another word.\<close>

datatype flag_mode = Between | In_flag | In_word

fun view_flags :: "flag_mode \<Rightarrow> bool \<Rightarrow> bool \<Rightarrow> string \<Rightarrow> bool \<times> bool" where
  "view_flags mode show_all show_details [] = (show_all, show_details)"
| "view_flags mode show_all show_details (c # cs) =
     (if c_isspace c then view_flags Between show_all show_details cs
      else case mode of
             Between \<Rightarrow> view_flags (if c = CHR ''-'' then In_flag else In_word) show_all show_details cs
           | In_flag \<Rightarrow> view_flags In_flag (show_all \<or> c = CHR ''a'') (show_details \<or> c = CHR ''l'') cs
           | In_word \<Rightarrow> view_flags In_word show_all show_details cs)"

definition info_request :: "string \<Rightarrow> message" where
  "info_request filename = init_message\<lparr>m_type := MSG_SS_INFO, m_filename := filename\<rparr>"

text \<open>The detail loop of \<^verbatim>\<open>handle_view\<close>.\<close>

fun refresh_details ::
  "'w nm_env \<Rightarrow> name_server \<times> 'w \<Rightarrow> file_metadata list \<Rightarrow> ((name_server \<times> 'w) \<times> file_metadata list) option" where
  "refresh_details env (nm, w) [] = Some ((nm, w), [])"
| "refresh_details env (nm, w) (f # fs) =
     (case active_server_slot nm (fm_ss_id f) of
        None \<Rightarrow> do { (s, rest) \<leftarrow> refresh_details env (nm, w) fs; Some (s, f # rest) }
      | Some k \<Rightarrow>
          (let (w1, rc, resp) = exchange env w k (info_request (fm_filename f)) in
           if rc = 0 \<and> m_status resp = SUCCESS
           then let f' = read_info (m_data resp) f in do {
             nm1 \<leftarrow> store_metadata nm (fm_filename f) f';
             (s, rest) \<leftarrow> refresh_details env (nm1, w1) fs;
             Some (s, f' # rest)
           }
           else do { (s, rest) \<leftarrow> refresh_details env (nm, w1) fs; Some (s, f # rest) }))"

definition pad :: "nat \<Rightarrow> string \<Rightarrow> string" where
  "pad n s = s @ replicate (n - length s) SPACE"

definition view_header :: string where
  "view_header =
     pad 20 ''Filename'' @ '' '' @ pad 8 ''Words'' @ '' '' @ pad 8 ''Chars'' @ '' '' @ pad 20 ''Last Access'' @ '' '' @
     pad 10 ''Owner'' @ [NEWLINE] @ replicate 80 CHR ''-'' @ [NEWLINE]"

definition detail_line :: "'w nm_env \<Rightarrow> file_metadata \<Rightarrow> string" where
  "detail_line env f =
     pad 20 (fm_filename f) @ '' '' @ pad 8 (show_int (fm_word_count f)) @ '' '' @ pad 8 (show_int (fm_char_count f)) @
     '' '' @ pad 20 (time_text env (fm_accessed f)) @ '' '' @ pad 10 (fm_owner f) @ [NEWLINE]"

text \<open>\<^verbatim>\<open>sprintf\<close> into a buffer of \<^verbatim>\<open>MAX_BUFFER\<close> bytes\<close>

definition print_unchecked :: "string \<Rightarrow> string option" where
  "print_unchecked s = (if length s \<ge> MAX_BUFFER then None else Some s)"

definition handle_view :: "'w nm_env \<Rightarrow> name_server \<times> 'w \<Rightarrow> message \<Rightarrow> 'w outcome" where
  "handle_view env = (\<lambda>(nm, w) msg.
     (let (show_all, show_details) = view_flags Between False False (m_data msg);
          all_files = trie_get_all_files (nm_files nm) MAX_FILES
      in do {
        ((nm1, w1), files) \<leftarrow> (if show_details then refresh_details env (nm, w) all_files
                               else Some ((nm, w), all_files));
        let shown = filter (\<lambda>f. show_all \<or> check_access nm1 (fm_filename f) (m_sender msg) ACCESS_READ) files;
        buffer \<leftarrow> print_unchecked ((if show_details then view_header else []) @
                    concat (map (\<lambda>f. if show_details then detail_line env f else fm_filename f @ [NEWLINE]) shown));
        Some ((nm1, w1), (answer SUCCESS)\<lparr>m_type := MSG_DATA, m_data := buffer\<rparr>)
      }))"

definition access_text :: "int \<Rightarrow> string" where
  "access_text a =
     (if a = ACCESS_READ then ''R'' else if a = ACCESS_WRITE then ''W''
      else if a = ACCESS_READWRITE then ''RW'' else ''NONE'')"

definition info_text :: "'w nm_env \<Rightarrow> file_metadata \<Rightarrow> string" where
  "info_text env meta =
     ''File: '' @ fm_filename meta @ [NEWLINE] @ ''Owner: '' @ fm_owner meta @ [NEWLINE] @
     ''Created: '' @ time_text env (fm_created meta) @ [NEWLINE] @
     ''Last Modified: '' @ time_text env (fm_modified meta) @ [NEWLINE] @
     ''Last Accessed: '' @ time_text env (fm_accessed meta) @ '' by '' @ fm_last_accessed_by meta @ [NEWLINE] @
     ''Size: '' @ show_int (fm_size meta) @ '' bytes'' @ [NEWLINE] @
     ''Words: '' @ show_int (fm_word_count meta) @ [NEWLINE] @ ''Chars: '' @ show_int (fm_char_count meta) @ [NEWLINE] @
     ''Storage Server: '' @ show_int (fm_ss_id meta) @ [NEWLINE] @ ''Access Control:'' @ [NEWLINE] @
     concat (map (\<lambda>e. ''  '' @ acl_user e @ '': '' @ access_text (acl_access e) @ [NEWLINE]) (fm_acl meta))"

definition handle_info :: "'w nm_env \<Rightarrow> name_server \<times> 'w \<Rightarrow> message \<Rightarrow> 'w outcome" where
  "handle_info env = (\<lambda>(nm, w) msg.
     case trie_search (nm_files nm) (m_filename msg) of
       None \<Rightarrow> Some ((nm, w), (answer ERR_FILE_NOT_FOUND)\<lparr>m_type := MSG_DATA\<rparr>)
     | Some meta \<Rightarrow> do {
         (nm1, ss_id) \<leftarrow> find_ss_for_file nm (m_filename msg);
         let (w1, meta1) =
           (case (if ss_id \<ge> 0 then server_slot nm1 ss_id else None) of
              None \<Rightarrow> (w, meta)
            | Some k \<Rightarrow>
                (let (w1, rc, resp) = exchange env w k (info_request (m_filename msg))
                 in (w1, if rc = 0 \<and> m_status resp = SUCCESS then read_info (m_data resp) meta else meta)));
         buffer \<leftarrow> print_unchecked (info_text env meta1);
         Some ((nm1, w1), (answer SUCCESS)\<lparr>m_type := MSG_DATA, m_data := buffer\<rparr>)
       })"

text \<open>The loops of \<^verbatim>\<open>handle_list\<close> stop when fewer than about 100 bytes are left.\<close>

fun print_list :: "string list \<Rightarrow> string \<times> nat \<Rightarrow> (string \<times> nat) option" where
  "print_list [] out = Some out"
| "print_list (s # ss) out = do {
     out' \<leftarrow> print_at s out;
     if snd out' \<ge> MAX_BUFFER - 100 then Some out' else print_list ss out'
   }"

definition handle_list :: "'w nm_env \<Rightarrow> name_server \<times> 'w \<Rightarrow> message \<Rightarrow> 'w outcome" where
  "handle_list env = (\<lambda>(nm, w) msg. do {
     out1 \<leftarrow> print_at (''=== Connected Users ==='' @ [NEWLINE]) ([], 0);
     out2 \<leftarrow> print_list (map (\<lambda>c. ci_username c @ '' (online)'' @ [NEWLINE])
                          (take (nm_client_count nm) (nm_clients nm))) out1;
     out3 \<leftarrow> print_at ([NEWLINE] @ ''=== All Registered Users ==='' @ [NEWLINE]) out2;
     (buffer, pos) \<leftarrow> print_list (map (\<lambda>u. ru_username u @ [NEWLINE]) (nm_users nm)) out3;
     Some ((nm, w), (answer SUCCESS)\<lparr>m_type := MSG_DATA, m_data := buffer\<rparr>)
   })"

section \<open>Creating, deleting and sharing files\<close>

definition new_file_metadata :: "int \<Rightarrow> message \<Rightarrow> int \<Rightarrow> file_metadata" where
  "new_file_metadata t msg ss_id =
     \<lparr>fm_filename = m_filename msg, fm_folder_path = [], fm_owner = m_sender msg, fm_ss_id = ss_id,
      fm_size = 0, fm_word_count = 0, fm_char_count = 0, fm_created = t, fm_modified = t, fm_accessed = t,
      fm_last_accessed_by = m_sender msg, fm_acl = []\<rparr>"

definition handle_create :: "'w nm_env \<Rightarrow> name_server \<times> 'w \<Rightarrow> message \<Rightarrow> 'w outcome" where
  "handle_create env = (\<lambda>(nm, w) msg.
     if trie_search (nm_files nm) (m_filename msg) \<noteq> None then Some ((nm, w), answer ERR_FILE_EXISTS)
     else let (nm1, ss_id) = get_next_ss_round_robin nm in
       if ss_id < 0 then Some ((nm1, w), answer ERR_SS_UNAVAILABLE)
       else case server_slot nm1 ss_id of
              None \<Rightarrow> Some ((nm1, w), answer ERR_SS_UNAVAILABLE)
            | Some k \<Rightarrow>
                (let (w1, rc, resp) = exchange env w k (init_message\<lparr>m_type := MSG_CREATE,
                       m_filename := m_filename msg\<rparr>)
                 in if m_status resp = SUCCESS
                    then let meta = new_file_metadata (clock env) msg ss_id in do {
                      cache \<leftarrow> cache_put (nm_cache nm1) (m_filename msg) meta;
                      Some ((nm1\<lparr>nm_files := fst (trie_insert (nm_files nm1) (m_filename msg) meta),
                                 nm_cache := cache\<rparr>, w1), answer SUCCESS)
                    }
                    else Some ((nm1, w1), answer (m_status resp))))"

definition handle_delete :: "'w nm_env \<Rightarrow> name_server \<times> 'w \<Rightarrow> message \<Rightarrow> 'w outcome" where
  "handle_delete env = (\<lambda>(nm, w) msg.
     case trie_search (nm_files nm) (m_filename msg) of
       None \<Rightarrow> Some ((nm, w), answer ERR_FILE_NOT_FOUND)
     | Some meta \<Rightarrow>
         if fm_owner meta \<noteq> m_sender msg then Some ((nm, w), answer ERR_NOT_OWNER)
         else case server_slot nm (fm_ss_id meta) of
           None \<Rightarrow> Some ((nm, w), answer ERR_SS_UNAVAILABLE)
         | Some k \<Rightarrow>
             (let (w1, rc1, lock_resp) = exchange env w k (init_message\<lparr>m_type := MSG_CHECK_LOCKS,
                    m_filename := m_filename msg\<rparr>)
              in if m_status lock_resp = ERR_FILE_LOCKED then Some ((nm, w1), answer ERR_FILE_LOCKED)
                 else let (w2, rc2, resp) = exchange env w1 k (init_message\<lparr>m_type := MSG_DELETE,
                            m_filename := m_filename msg\<rparr>)
                   in if m_status resp = SUCCESS
                      then do {
                        cache \<leftarrow> cache_remove (nm_cache nm) (m_filename msg);
                        Some ((nm\<lparr>nm_files := fst (trie_delete (nm_files nm) (m_filename msg)),
                                  nm_cache := cache\<rparr>, w2), answer SUCCESS)
                      }
                      else Some ((nm, w2), answer (m_status resp))))"

definition handle_access :: "'w nm_env \<Rightarrow> name_server \<times> 'w \<Rightarrow> message \<Rightarrow> 'w outcome" where
  "handle_access env = (\<lambda>(nm, w) msg.
     case trie_search (nm_files nm) (m_filename msg) of
       None \<Rightarrow> Some ((nm, w), answer ERR_FILE_NOT_FOUND)
     | Some meta \<Rightarrow>
         if fm_owner meta \<noteq> m_sender msg then Some ((nm, w), answer ERR_NOT_OWNER)
         else if m_type msg = MSG_ADDACCESS
         then (if \<not> user_exists nm (m_target_user msg) then Some ((nm, w), answer ERR_USER_NOT_FOUND)
               else if m_target_user msg = m_sender msg then Some ((nm, w), answer ERR_INVALID_OPERATION)
               else do {
                 nm1 \<leftarrow> store_metadata nm (m_filename msg)
                          (meta\<lparr>fm_acl := set_acl (fm_acl meta) (m_target_user msg) (m_access msg)\<rparr>);
                 Some ((nm1, w), answer SUCCESS)
               })
         else if m_type msg = MSG_REMACCESS
         then do {
           nm1 \<leftarrow> store_metadata nm (m_filename msg)
                    (meta\<lparr>fm_acl := remove_acl (fm_acl meta) (m_target_user msg)\<rparr>);
           Some ((nm1, w), answer SUCCESS)
         }
         else Some ((nm, w), init_message))"

section \<open>Redirection to a storage server\<close>

text \<open>
  The reply buffer of a connection is declared outside its request loop: a redirection and
  an unknown request start from what the previous one left in it.
\<close>

definition server_address :: "ss_info \<Rightarrow> string" where
  "server_address s = si_ip s @ '':'' @ show_int (si_client_port s)"

text \<open>
  The access time is updated by a lookup, an assignment and a store, which other
  connections can come between.
\<close>

definition touch_metadata :: "int \<Rightarrow> string \<Rightarrow> file_metadata \<Rightarrow> file_metadata" where
  "touch_metadata t username meta = meta\<lparr>fm_accessed := t, fm_last_accessed_by := username\<rparr>"

definition record_access :: "int \<Rightarrow> name_server \<Rightarrow> string \<Rightarrow> string \<Rightarrow> name_server option" where
  "record_access t nm filename username =
     (case trie_search (nm_files nm) filename of
        None \<Rightarrow> Some nm
      | Some meta \<Rightarrow> store_metadata nm filename (touch_metadata t username meta))"

definition handle_redirect :: "'w nm_env \<Rightarrow> name_server \<times> 'w \<Rightarrow> message \<Rightarrow> message \<Rightarrow> 'w outcome" where
  "handle_redirect env = (\<lambda>(nm, w) msg response.
     (let resp = response\<lparr>m_type := MSG_DATA\<rparr>;
          required = (if m_type msg = MSG_WRITE \<or> m_type msg = MSG_UNDO then ACCESS_WRITE else ACCESS_READ)
      in if \<not> check_access nm (m_filename msg) (m_sender msg) required
         then Some ((nm, w), resp\<lparr>m_status := ERR_ACCESS_DENIED\<rparr>)
         else do {
           (nm1, ss_id) \<leftarrow> find_ss_for_file nm (m_filename msg);
           if ss_id < 0 then Some ((nm1, w), resp\<lparr>m_status := ERR_FILE_NOT_FOUND\<rparr>)
           else let resp1 = (case server_slot nm1 ss_id of
                               None \<Rightarrow> resp
                             | Some k \<Rightarrow> resp\<lparr>m_data := server_address (nm_ss_list nm1 ! k), m_status := SUCCESS\<rparr>)
             in do {
               nm2 \<leftarrow> record_access (clock env) nm1 (m_filename msg) (m_sender msg);
               Some ((nm2, w), resp1)
             }
         }))"

section \<open>Connections of clients\<close>

text \<open>
  One round of the request loop. The last component is the reply buffer of the connection;
  the handlers have reply buffers of their own.
\<close>

definition handle_request ::
  "'w nm_env \<Rightarrow> name_server \<times> 'w \<Rightarrow> message \<Rightarrow> message \<Rightarrow> (((name_server \<times> 'w) \<times> message) \<times> message) option" where
  "handle_request env s msg response =
     (let keep = map_option (\<lambda>out. (out, response));
          t = m_type msg
      in if t = MSG_REQUESTACCESS then keep (handle_requestaccess env s msg)
         else if t = MSG_VIEWREQUESTS then keep (handle_viewrequests env s msg)
         else if t = MSG_APPROVEREQUEST then keep (handle_approverequest env s msg)
         else if t = MSG_DENYREQUEST then keep (handle_denyrequest env s msg)
         else if t \<in> {MSG_CHECKPOINT, MSG_VIEWCHECKPOINT, MSG_REVERT, MSG_LISTCHECKPOINTS}
         then keep (handle_checkpoint_request env s msg)
         else if t = MSG_CREATEFOLDER then keep (handle_createfolder env s msg)
         else if t = MSG_MOVE then keep (handle_move env s msg)
         else if t = MSG_VIEWFOLDER then keep (handle_viewfolder env s msg)
         else if t = MSG_VIEW then keep (handle_view env s msg)
         else if t = MSG_INFO then keep (handle_info env s msg)
         else if t = MSG_LIST then keep (handle_list env s msg)
         else if t = MSG_CREATE then keep (handle_create env s msg)
         else if t = MSG_DELETE then keep (handle_delete env s msg)
         else if t \<in> {MSG_ADDACCESS, MSG_REMACCESS} then keep (handle_access env s msg)
         else if t = MSG_EXEC then keep (handle_exec env s msg)
         else if t \<in> {MSG_READ, MSG_WRITE, MSG_STREAM, MSG_UNDO}
         then map_option (\<lambda>out. (out, snd out)) (handle_redirect env s msg response)
         else let resp = response\<lparr>m_status := ERR_INVALID_OPERATION\<rparr> in Some ((s, resp), resp))"

text \<open>
  The start of a connection: the slot in the client list, if the client is accepted, and
  the message sent. A sender and an address that fit their buffers come from \<^verbatim>\<open>recv_message\<close>
  and from the length test here.
\<close>

definition connect_client ::
  "int \<Rightarrow> name_server \<Rightarrow> int \<Rightarrow> message \<Rightarrow> (name_server \<times> nat option \<times> message option) option" where
  "connect_client t nm client_sock msg =
     (if m_type msg \<noteq> MSG_REG_CLIENT then Some (nm, None, None)
      else let (nm1, is_duplicate) = register_user_persistent t nm (m_sender msg) client_sock in
        if is_duplicate
        then Some (nm1, None, Some ((answer ERR_INVALID_OPERATION)
               \<lparr>m_data := ''User already logged in from another session''\<rparr>))
        else if nm_client_count nm1 \<ge> MAX_CLIENTS
        then Some (deregister_active_session t nm1 (m_sender msg) client_sock, None, None)
        else if length (m_data msg) \<ge> INET_ADDRSTRLEN then None
        else let idx = nm_client_count nm1 in
          Some (nm1\<lparr>nm_clients := (nm_clients nm1)[idx :=
                      \<lparr>ci_username = m_sender msg, ci_ip = m_data msg, ci_sock = client_sock, ci_connected = t\<rparr>],
                    nm_client_count := idx + 1\<rparr>, Some idx, Some (answer SUCCESS)))"

text \<open>Entries \<^verbatim>\<open>i + 1 .. n - 1\<close> move down by one; the old last entry stays where it was.\<close>

definition shift_down :: "nat \<Rightarrow> nat \<Rightarrow> 'a list \<Rightarrow> 'a list" where
  "shift_down i n xs = take i xs @ drop (i + 1) (take n xs) @ drop (n - 1) xs"

definition disconnect_client :: "int \<Rightarrow> name_server \<Rightarrow> nat \<Rightarrow> int \<Rightarrow> name_server" where
  "disconnect_client t nm idx client_sock =
     (let username = ci_username (nm_clients nm ! idx);
          nm1 = (case find_index (\<lambda>c. ci_sock c = client_sock) (take (nm_client_count nm) (nm_clients nm)) of
                   None \<Rightarrow> nm
                 | Some i \<Rightarrow> nm\<lparr>nm_clients := shift_down i (nm_client_count nm) (nm_clients nm),
                                nm_client_count := nm_client_count nm - 1\<rparr>)
      in deregister_active_session t nm1 username client_sock)"

section \<open>Reachable states\<close>

text \<open>
  Any interleaving of registrations, heartbeats, connections and requests, each with any
  environment, while the world changes on its own. A sender, a file name and a user name
  that were received fit their buffers.
\<close>

inductive nm_reachable :: "name_server \<times> 'w \<Rightarrow> bool" where
  start: "nm_reachable (init_name_server, w)"
| outside: "nm_reachable (nm, w) \<Longrightarrow> nm_reachable (nm, w')"
| register: "nm_reachable (nm, w) \<Longrightarrow> register_ss t sock nm msg = Some (nm', ok) \<Longrightarrow> nm_reachable (nm', w)"
| hb_connect: "nm_reachable (nm, w) \<Longrightarrow> nm_reachable (heartbeat_connected t sock nm ss_id, w)"
| hb_receive: "nm_reachable (nm, w) \<Longrightarrow> nm_reachable (heartbeat_received t nm ss_id msg, w)"
| hb_lose: "nm_reachable (nm, w) \<Longrightarrow> nm_reachable (heartbeat_lost nm ss_id, w)"
| monitor: "nm_reachable (nm, w) \<Longrightarrow> nm_reachable (heartbeat_monitor t nm, w)"
| connect: "nm_reachable (nm, w) \<Longrightarrow> length (m_sender msg) < MAX_USERNAME \<Longrightarrow>
     connect_client t nm sock msg = Some (nm', idx, out) \<Longrightarrow> nm_reachable (nm', w)"
| disconnect: "nm_reachable (nm, w) \<Longrightarrow> idx < MAX_CLIENTS \<Longrightarrow> nm_reachable (disconnect_client t nm idx sock, w)"
| request: "nm_reachable (nm, w) \<Longrightarrow> length (m_sender msg) < MAX_USERNAME \<Longrightarrow> length (m_filename msg) < MAX_FILENAME \<Longrightarrow>
     length (m_target_user msg) < MAX_USERNAME \<Longrightarrow>
     handle_request env (nm, w) msg resp = Some ((s', out), resp') \<Longrightarrow> nm_reachable s'"

end
