(* ===== verification/NameSafety.thy ===== *)
theory NameSafety
  imports NameRequests
begin

text \<open>
  Access control of the name server: what a request of a user can do to the files. The
  abstract specification is a relation between two file maps; every handler implements it,
  and the invariants and the protection of other users' files follow from it.
\<close>

section \<open>The abstract specification\<close>

abbreviation files_of :: "name_server \<Rightarrow> string \<Rightarrow> file_metadata option" where
  "files_of nm \<equiv> trie_search (nm_files nm)"

abbreviation server_ids :: "name_server \<Rightarrow> int set" where
  "server_ids nm \<equiv> si_id ` set (nm_ss_list nm)"

definition acl_ok :: "acl_entry list \<Rightarrow> bool" where
  "acl_ok acl \<longleftrightarrow> length acl \<le> MAX_ACL_ENTRIES \<and> distinct (map acl_user acl)"

lemma acl_ok_Nil [simp]: "acl_ok []"
  by (simp add: acl_ok_def)

text \<open>
  One change of the file map by a user, with the storage servers known: a file's record
  changes without its owner, and its access list only if the user is the owner; a new file
  belongs to the user; only the owner deletes.
\<close>

inductive file_change :: "int set \<Rightarrow> string \<Rightarrow> (string \<Rightarrow> file_metadata option) \<Rightarrow> (string \<Rightarrow> file_metadata option) \<Rightarrow> bool"
  for servers user where
  unchanged: "file_change servers user g g"
| changed: "g f = Some m \<Longrightarrow> fm_filename m' = fm_filename m \<Longrightarrow> fm_owner m' = fm_owner m \<Longrightarrow>
     fm_ss_id m' = fm_ss_id m \<Longrightarrow> fm_acl m' = fm_acl m \<or> fm_owner m = user \<and>
       (acl_ok (fm_acl m) \<longrightarrow> acl_ok (fm_acl m')) \<Longrightarrow>
     file_change servers user g (g(f := Some m'))"
| created: "g f = None \<Longrightarrow> fm_filename m = f \<Longrightarrow> fm_owner m = user \<Longrightarrow> fm_acl m = [] \<Longrightarrow>
     fm_ss_id m \<in> servers \<Longrightarrow> file_change servers user g (g(f := Some m))"
| deleted: "g f = Some m \<Longrightarrow> fm_owner m = user \<Longrightarrow> file_change servers user g (g(f := None))"

abbreviation file_changes :: "int set \<Rightarrow> string \<Rightarrow> (string \<Rightarrow> file_metadata option) \<Rightarrow> (string \<Rightarrow> file_metadata option) \<Rightarrow> bool" where
  "file_changes servers user \<equiv> (file_change servers user)\<^sup>*\<^sup>*"

text \<open>What the specification gives: well-formed files stay well-formed, other users' files stay.\<close>

definition file_ok :: "int set \<Rightarrow> string \<Rightarrow> file_metadata \<Rightarrow> bool" where
  "file_ok servers name m \<longleftrightarrow>
     fm_filename m = name \<and> fm_ss_id m \<in> servers \<and> acl_ok (fm_acl m)"

definition files_ok :: "int set \<Rightarrow> (string \<Rightarrow> file_metadata option) \<Rightarrow> bool" where
  "files_ok servers g \<longleftrightarrow> (\<forall>f m. g f = Some m \<longrightarrow> file_ok servers f m)"

definition protected_from :: "string \<Rightarrow> (string \<Rightarrow> file_metadata option) \<Rightarrow> (string \<Rightarrow> file_metadata option) \<Rightarrow> bool" where
  "protected_from user g g' \<longleftrightarrow>
     (\<forall>f m. g f = Some m \<and> fm_owner m \<noteq> user \<longrightarrow>
       (\<exists>m'. g' f = Some m' \<and> fm_owner m' = fm_owner m \<and> fm_acl m' = fm_acl m))"

lemma file_change_ok: "file_change servers user g g' \<Longrightarrow> files_ok servers g \<Longrightarrow> files_ok servers g'"
  by (induction rule: file_change.induct) (auto simp: files_ok_def file_ok_def)

lemma file_changes_ok: "file_changes servers user g g' \<Longrightarrow> files_ok servers g \<Longrightarrow> files_ok servers g'"
  by (induction rule: rtranclp_induct) (auto dest: file_change_ok)

lemma file_change_protects: "file_change servers user g g' \<Longrightarrow> protected_from user g g'"
  by (induction rule: file_change.induct) (auto simp: protected_from_def)

lemma protected_trans:
  assumes "protected_from user g g'" and "protected_from user g' g''"
  shows "protected_from user g g''"
  unfolding protected_from_def
proof (intro allI impI)
  fix f m assume m: "g f = Some m \<and> fm_owner m \<noteq> user"
  then obtain m' where m': "g' f = Some m'" "fm_owner m' = fm_owner m" "fm_acl m' = fm_acl m"
    using assms(1) unfolding protected_from_def by blast
  then obtain m'' where "g'' f = Some m''" "fm_owner m'' = fm_owner m'" "fm_acl m'' = fm_acl m'"
    using assms(2) m unfolding protected_from_def by metis
  with m' show "\<exists>m'. g'' f = Some m' \<and> fm_owner m' = fm_owner m \<and> fm_acl m' = fm_acl m" by simp
qed

lemma file_changes_protect: "file_changes servers user g g' \<Longrightarrow> protected_from user g g'"
proof (induction rule: rtranclp_induct)
  case base
  show ?case by (auto simp: protected_from_def)
next
  case (step g' g'')
  from protected_trans [OF step.IH file_change_protects [OF step.hyps(2)]] show ?case .
qed

section \<open>The operations below the handlers\<close>

named_theorems nm_simps \<open>what the operations of the name server leave alone\<close>

lemma store_metadata_files:
  assumes "store_metadata nm f m = Some nm'" and "files_of nm f = Some m0"
  shows "files_of nm' = (files_of nm)(f := Some m)"
  using assms by (auto simp: store_metadata_def file_trie.update_fun split: Option.bind_splits)

lemma store_metadata_keeps:
  assumes "store_metadata nm f m = Some nm'"
  shows "nm_ss_list nm' = nm_ss_list nm \<and> nm_users nm' = nm_users nm \<and> nm_clients nm' = nm_clients nm \<and>
    nm_client_count nm' = nm_client_count nm \<and> nm_requests nm' = nm_requests nm \<and> nm_folders nm' = nm_folders nm \<and>
    nm_next_ss_id nm' = nm_next_ss_id nm"
  using assms by (auto simp: store_metadata_def split: Option.bind_splits)

lemma store_metadata_change:
  assumes "store_metadata nm f m' = Some nm'" and "files_of nm f = Some m"
    and "fm_filename m' = fm_filename m" "fm_owner m' = fm_owner m" "fm_ss_id m' = fm_ss_id m"
    and "fm_acl m' = fm_acl m \<or> fm_owner m = user \<and>
      (acl_ok (fm_acl m) \<longrightarrow> acl_ok (fm_acl m'))"
  shows "file_changes servers user (files_of nm) (files_of nm')"
  unfolding store_metadata_files [OF assms(1,2)]
  by (rule r_into_rtranclp, rule file_change.changed) (use assms in auto)

lemma find_ss_keeps:
  assumes "find_ss_for_file nm f = Some (nm', r)"
  obtains cache where "nm' = nm\<lparr>nm_cache := cache\<rparr>"
  using assms that by (auto simp: find_ss_for_file_def Let_def split: Option.bind_splits option.splits)

lemma round_robin_keeps:
  assumes "get_next_ss_round_robin nm = (nm', r)"
  obtains n where "nm' = nm\<lparr>nm_next_ss_id := n\<rparr>" "0 \<le> r \<Longrightarrow> r \<in> server_ids nm"
proof
  have "nm = nm\<lparr>nm_next_ss_id := nm_next_ss_id nm\<rparr>" by simp
  with assms show "nm' = nm\<lparr>nm_next_ss_id := if nm_ss_list nm = [] then nm_next_ss_id nm else nm_next_ss_id nm + 1\<rparr>"
    by (auto simp: get_next_ss_round_robin_def split: if_splits)
  show "0 \<le> r \<Longrightarrow> r \<in> server_ids nm"
    using assms by (auto simp: get_next_ss_round_robin_def split: if_splits intro!: imageI nth_mem)
qed

text \<open>An access list as a partial map, and the two operations on it.\<close>

definition acl_right :: "acl_entry list \<Rightarrow> string \<Rightarrow> int option" where
  "acl_right acl u = map_of (map (\<lambda>e. (acl_user e, acl_access e)) acl) u"

lemma acl_right_simps [simp]:
  "acl_right [] u = None"
  "acl_right (e # acl) u = (if acl_user e = u then Some (acl_access e) else acl_right acl u)"
  "acl_right (xs @ ys) u = (case acl_right xs u of None \<Rightarrow> acl_right ys u | Some a \<Rightarrow> Some a)"
  by (auto simp: acl_right_def map_add_def split: option.splits)

lemma acl_right_None: "acl_right acl u = None \<longleftrightarrow> u \<notin> acl_user ` set acl"
  by (induction acl) auto

lemma acl_index_right: "acl_right acl u = map_option (\<lambda>k. acl_access (acl ! k)) (acl_index acl u)"
  by (induction acl) (auto simp: acl_index_def option.map_comp comp_def)

lemma acl_index_None: "acl_index acl u = None \<longleftrightarrow> u \<notin> acl_user ` set acl"
  by (auto simp: acl_index_def find_index_None)

lemma acl_index_Some:
  assumes "acl_index acl u = Some k"
  shows "k < length acl" and "acl_user (acl ! k) = u"
  using find_index_SomeD [OF assms [unfolded acl_index_def]] by auto

lemma set_acl_ok:
  assumes "acl_ok acl"
  shows "acl_ok (set_acl acl u a)"
proof (cases "acl_index acl u")
  case None
  with assms acl_index_None [of acl u] show ?thesis by (auto simp: set_acl_def acl_ok_def)
next
  case (Some k)
  have "map acl_user (acl[k := (acl ! k)\<lparr>acl_access := a\<rparr>]) = map acl_user acl"
    using acl_index_Some(1) [OF Some] by (simp add: map_update list_update_same_conv)
  then show ?thesis using assms Some unfolding acl_ok_def set_acl_def by (metis length_map option.simps(5))
qed

lemma remove_acl_split:
  assumes "acl_index acl u = Some k"
  obtains pre e post where "acl = pre @ e # post" "acl_user e = u" "remove_acl acl u = pre @ post"
proof (rule that [of "take k acl" "acl ! k" "drop (Suc k) acl"])
  show "acl = take k acl @ acl ! k # drop (Suc k) acl" by (rule id_take_nth_drop [OF acl_index_Some(1) [OF assms]])
  show "acl_user (acl ! k) = u" by (rule acl_index_Some(2) [OF assms])
  show "remove_acl acl u = take k acl @ drop (Suc k) acl" using assms by (simp add: remove_acl_def remove_at_def)
qed

lemma remove_acl_ok: "acl_ok acl \<Longrightarrow> acl_ok (remove_acl acl u)"
proof (cases "acl_index acl u")
  case (Some k)
  then obtain pre e post where "acl = pre @ e # post" "remove_acl acl u = pre @ post"
    by (rule remove_acl_split)
  moreover assume "acl_ok acl"
  ultimately show ?thesis by (simp add: acl_ok_def)
qed (simp add: remove_acl_def)

lemma set_acl_right:
  "acl_right (set_acl acl u a) v =
   (if v = u \<and> (acl_right acl u \<noteq> None \<or> length acl < MAX_ACL_ENTRIES) then Some a else acl_right acl v)"
proof (cases "acl_index acl u")
  case None
  then have "acl_right acl u = None" by (simp add: acl_index_right)
  with None show ?thesis by (auto simp: set_acl_def split: option.splits)
next
  case (Some k)
  define pre post where "pre = take k acl" and "post = drop (Suc k) acl"
  have acl: "acl = pre @ acl ! k # post"
    unfolding pre_def post_def by (rule id_take_nth_drop [OF acl_index_Some(1) [OF Some]])
  have pre: "acl_right pre u = None"
    unfolding acl_right_None pre_def
    using find_index_SomeD [OF Some [unfolded acl_index_def]] by (fastforce simp: in_set_conv_nth)
  have "set_acl acl u a = pre @ (acl ! k)\<lparr>acl_access := a\<rparr> # post"
    using upd_conv_take_nth_drop [OF acl_index_Some(1) [OF Some]] by (simp add: set_acl_def Some pre_def post_def)
  then have "acl_right (set_acl acl u a) v = (if v = u then Some a else acl_right (pre @ acl ! k # post) v)"
    using pre acl_index_Some(2) [OF Some] by (auto split: option.splits)
  moreover have "acl_right acl u \<noteq> None" by (simp add: acl_index_right Some)
  ultimately show ?thesis using acl by simp
qed

lemma remove_acl_right:
  assumes "acl_ok acl"
  shows "acl_right (remove_acl acl u) = (acl_right acl)(u := None)"
proof (cases "acl_index acl u")
  case None
  then have "acl_right acl u = None" by (simp add: acl_index_right)
  then show ?thesis using None by (auto simp: remove_acl_def)
next
  case (Some k)
  then obtain pre e post where "acl = pre @ e # post" "acl_user e = u" "remove_acl acl u = pre @ post"
    by (rule remove_acl_split)
  moreover from this assms have "u \<notin> acl_user ` set pre" "u \<notin> acl_user ` set post" by (auto simp: acl_ok_def)
  ultimately show ?thesis
    using acl_right_None [of pre u] acl_right_None [of post u] by (auto simp: fun_eq_iff split: option.splits)
qed

lemma meta_allows_right:
  "meta_allows m u required \<longleftrightarrow>
     fm_owner m = u \<or> (\<exists>a. acl_right (fm_acl m) u = Some a \<and> entry_allows a required)"
  by (auto simp: meta_allows_def acl_index_right split: option.splits)

section \<open>The handlers implement the specification\<close>

text \<open>The cache keeps the representation invariant of theory \<^verbatim>\<open>LruCache\<close> and its size.\<close>

definition cache_sound :: "file_metadata lru_cache \<Rightarrow> bool" where
  "cache_sound c \<longleftrightarrow> (\<exists>xs. cache_rep c xs) \<and> capacity c = CACHE_SIZE"

lemma cache_sound_init: "cache_sound (init_cache CACHE_SIZE)"
  using rep_init [of CACHE_SIZE] by (auto simp: cache_sound_def init_cache_def)

lemma cache_sound_ops:
  "cache_sound c \<Longrightarrow> cache_put c f m = Some c' \<Longrightarrow> cache_sound c'"
  "cache_sound c \<Longrightarrow> cache_get c f = Some (c', r) \<Longrightarrow> cache_sound c'"
  "cache_sound c \<Longrightarrow> cache_remove c f = Some c' \<Longrightarrow> cache_sound c'"
  unfolding cache_sound_def using put_rep get_rep remove_rep by metis+

lemma store_cache: "store_metadata nm f m = Some nm' \<Longrightarrow> cache_sound (nm_cache nm) \<Longrightarrow> cache_sound (nm_cache nm')"
  by (auto simp: store_metadata_def split: Option.bind_splits intro: cache_sound_ops)

lemma find_cache: "find_ss_for_file nm f = Some (nm', r) \<Longrightarrow> cache_sound (nm_cache nm) \<Longrightarrow> cache_sound (nm_cache nm')"
  by (auto simp: find_ss_for_file_def Let_def split: Option.bind_splits option.splits)
    (blast dest: cache_sound_ops)+

text \<open>What every handler promises about a step on the name server by a user.\<close>

definition allowed_step :: "string \<Rightarrow> name_server \<Rightarrow> name_server \<Rightarrow> bool" where
  "allowed_step user nm nm' \<longleftrightarrow>
     file_changes (server_ids nm) user (files_of nm) (files_of nm') \<and>
     nm_ss_list nm' = nm_ss_list nm \<and> nm_users nm' = nm_users nm \<and>
     nm_clients nm' = nm_clients nm \<and> nm_client_count nm' = nm_client_count nm \<and>
     (cache_sound (nm_cache nm) \<longrightarrow> cache_sound (nm_cache nm'))"

lemma allowed_same:
  "nm_files nm' = nm_files nm \<Longrightarrow> nm_ss_list nm' = nm_ss_list nm \<Longrightarrow> nm_users nm' = nm_users nm \<Longrightarrow>
   nm_clients nm' = nm_clients nm \<Longrightarrow> nm_client_count nm' = nm_client_count nm \<Longrightarrow>
   cache_sound (nm_cache nm) \<longrightarrow> cache_sound (nm_cache nm') \<Longrightarrow> allowed_step user nm nm'"
  by (simp add: allowed_step_def)

lemma allowed_refl [simp, intro]: "allowed_step user nm nm"
  by (rule allowed_same) simp_all

lemma allowed_trans: "allowed_step user nm nm' \<Longrightarrow> allowed_step user nm' nm'' \<Longrightarrow> allowed_step user nm nm''"
  by (auto simp: allowed_step_def)

lemma allowed_store:
  assumes "store_metadata nm f m' = Some nm'" and "files_of nm f = Some m"
    and "fm_filename m' = fm_filename m" "fm_owner m' = fm_owner m" "fm_ss_id m' = fm_ss_id m"
    and "fm_acl m' = fm_acl m \<or> fm_owner m = user \<and>
      (acl_ok (fm_acl m) \<longrightarrow> acl_ok (fm_acl m'))"
  shows "allowed_step user nm nm'"
  using store_metadata_change [OF assms] store_metadata_keeps [OF assms(1)] store_cache [OF assms(1)]
  by (simp add: allowed_step_def)

lemma allowed_find: "find_ss_for_file nm f = Some (nm', r) \<Longrightarrow> allowed_step user nm nm'"
  using find_cache [of nm f nm' r] by (auto intro: allowed_same elim!: find_ss_keeps)

lemma allowed_round_robin:
  assumes "get_next_ss_round_robin nm = (nm', r)"
  shows "allowed_step user nm nm'" and "files_of nm' = files_of nm" and "server_ids nm' = server_ids nm"
    and "0 \<le> r \<Longrightarrow> r \<in> server_ids nm"
proof -
  obtain n where n: "nm' = nm\<lparr>nm_next_ss_id := n\<rparr>" and r: "0 \<le> r \<Longrightarrow> r \<in> server_ids nm"
    using assms by (rule round_robin_keeps) blast
  show "allowed_step user nm nm'" by (rule allowed_same) (simp_all add: n)
  show "files_of nm' = files_of nm" "server_ids nm' = server_ids nm" by (simp_all add: n)
  show "0 \<le> r \<Longrightarrow> r \<in> server_ids nm" by (rule r)
qed

text \<open>Handlers that change at most the request queue or the folders.\<close>

lemma request_handlers_allowed:
  "handle_requestaccess env (nm, w) msg = Some ((nm', w'), out) \<Longrightarrow> allowed_step u nm nm'"
  "handle_viewrequests env (nm, w) msg = Some ((nm', w'), out) \<Longrightarrow> allowed_step u nm nm'"
  "handle_denyrequest env (nm, w) msg = Some ((nm', w'), out) \<Longrightarrow> allowed_step u nm nm'"
  "handle_viewfolder env (nm, w) msg = Some ((nm', w'), out) \<Longrightarrow> allowed_step u nm nm'"
  "handle_list env (nm, w) msg = Some ((nm', w'), out) \<Longrightarrow> allowed_step u nm nm'"
  by (auto simp: handle_requestaccess_def handle_viewrequests_def handle_denyrequest_def handle_viewfolder_def
      handle_list_def Let_def split: if_splits Option.bind_splits prod.splits intro: allowed_same)

lemma handle_createfolder_allowed:
  assumes "handle_createfolder env (nm, w) msg = Some ((nm', w'), out)"
  shows "allowed_step u nm nm'"
proof -
  obtain nm1 id where rr: "get_next_ss_round_robin nm = (nm1, id)" by fastforce
  have "allowed_step u nm (nm1\<lparr>nm_folders := fs\<rparr>)" for fs
    by (rule allowed_trans [OF allowed_round_robin(1) [OF rr] allowed_same]) simp_all
  then show ?thesis
    using assms rr allowed_round_robin(1) [OF rr]
    by (auto simp: handle_createfolder_def Let_def split: if_splits prod.splits option.splits)
qed

lemma handle_exec_allowed:
  "handle_exec env (nm, w) msg = Some ((nm', w'), out) \<Longrightarrow> allowed_step u nm nm'"
  "handle_checkpoint_request env (nm, w) msg = Some ((nm', w'), out) \<Longrightarrow> allowed_step u nm nm'"
  by (auto simp: handle_exec_def handle_checkpoint_request_def Let_def
      split: if_splits Option.bind_splits prod.splits option.splits dest: allowed_find)

lemma handle_info_allowed:
  "handle_info env (nm, w) msg = Some ((nm', w'), out) \<Longrightarrow> allowed_step u nm nm'"
  by (auto simp: handle_info_def Let_def split_beta
      split: if_splits Option.bind_splits option.splits dest: allowed_find)

text \<open>Handlers that change the record of one file.\<close>

lemma handle_approverequest_allowed:
  assumes "handle_approverequest env (nm, w) msg = Some ((nm', w'), out)"
  shows "allowed_step (m_sender msg) nm nm'"
proof -
  have "allowed_step (m_sender msg) nm (nm1\<lparr>nm_requests := rs\<rparr>)"
    if "store_metadata nm f (m\<lparr>fm_acl := set_acl (fm_acl m) v a\<rparr>) = Some nm1" "files_of nm f = Some m"
      "fm_owner m = m_sender msg" for f m v a nm1 rs
    using allowed_trans [OF allowed_store [OF that(1,2)] allowed_same] that(3) by (simp add: set_acl_ok)
  then show ?thesis
    using assms by (auto simp: handle_approverequest_def Let_def split: if_splits option.splits Option.bind_splits)
qed

lemma handle_move_allowed:
  assumes "handle_move env (nm, w) msg = Some ((nm', w'), out)"
  shows "allowed_step u nm nm'"
  using assms by (auto simp: handle_move_def Let_def split: if_splits option.splits Option.bind_splits prod.splits
      intro: allowed_store)

lemma handle_access_allowed:
  assumes "handle_access env (nm, w) msg = Some ((nm', w'), out)"
  shows "allowed_step (m_sender msg) nm nm'"
  using assms
  by (auto simp: handle_access_def Let_def set_acl_ok remove_acl_ok
      split: if_splits option.splits Option.bind_splits elim!: allowed_store)

lemma handle_create_allowed:
  assumes "handle_create env (nm, w) msg = Some ((nm', w'), out)"
  shows "allowed_step (m_sender msg) nm nm'"
proof -
  obtain nm1 id where rr: "get_next_ss_round_robin nm = (nm1, id)" by fastforce
  note facts = allowed_round_robin [OF rr]
  have "allowed_step (m_sender msg) nm (nm1\<lparr>nm_files := fst (trie_insert (nm_files nm1) (m_filename msg)
      (new_file_metadata t msg id)), nm_cache := cache\<rparr>)"
    if "files_of nm (m_filename msg) = None" "0 \<le> id"
      "cache_put (nm_cache nm1) (m_filename msg) (new_file_metadata t msg id) = Some cache" for t cache
  proof -
    have "file_changes (server_ids nm) (m_sender msg) (files_of nm)
        (trie_search (fst (trie_insert (nm_files nm1) (m_filename msg) (new_file_metadata t msg id))))"
      using facts(2,4) that
      by (auto simp: file_trie.insert_fun new_file_metadata_def intro!: r_into_rtranclp file_change.created)
    then show ?thesis using facts(1) cache_sound_ops(1) [OF _ that(3)] by (simp add: allowed_step_def)
  qed
  then show ?thesis
    using assms rr facts(1)
    by (auto simp: handle_create_def Let_def split: if_splits option.splits Option.bind_splits prod.splits)
qed

lemma handle_delete_allowed:
  assumes "handle_delete env (nm, w) msg = Some ((nm', w'), out)"
  shows "allowed_step (m_sender msg) nm nm'"
proof -
  have "allowed_step (m_sender msg) nm (nm\<lparr>nm_files := fst (trie_delete (nm_files nm) (m_filename msg)), nm_cache := c\<rparr>)"
    if "files_of nm (m_filename msg) = Some m" "fm_owner m = m_sender msg"
      "cache_remove (nm_cache nm) (m_filename msg) = Some c" for m c
    using that(1,2) cache_sound_ops(3) [OF _ that(3)] by (auto simp: allowed_step_def file_trie.delete_fun intro!: r_into_rtranclp file_change.deleted)
  then show ?thesis
    using assms by (auto simp: handle_delete_def Let_def split: if_splits option.splits Option.bind_splits prod.splits)
qed

lemma record_access_allowed: "record_access t nm f v = Some nm' \<Longrightarrow> allowed_step u nm nm'"
  by (auto simp: record_access_def touch_metadata_def split: option.splits elim!: allowed_store)

lemma handle_redirect_allowed:
  assumes "handle_redirect env (nm, w) msg resp = Some ((nm', w'), out)"
  shows "allowed_step u nm nm'"
  using assms
  by (auto simp: handle_redirect_def Let_def split: if_splits Option.bind_splits prod.splits
      dest!: allowed_find [where user = u] record_access_allowed [where u = u] intro: allowed_trans)

text \<open>
  The detail loop of \<^verbatim>\<open>VIEW\<close> stores the records of the listing again; they are still the
  current ones, because a listing names each file once and under its own name.
\<close>

definition listed :: "name_server \<Rightarrow> file_metadata list \<Rightarrow> bool" where
  "listed nm fs \<longleftrightarrow> distinct (map fm_filename fs) \<and> (\<forall>f \<in> set fs. files_of nm (fm_filename f) = Some f)"

lemma listed_all:
  assumes "files_ok servers (files_of nm)"
  shows "listed nm (trie_get_all_files (nm_files nm) n)"
proof -
  have names: "fm_filename v = k" if "(k, v) \<in> set (trie_entries (nm_files nm))" for k v
    using assms that by (auto simp: entries_search files_ok_def file_ok_def)
  then have "map fm_filename (map snd (trie_entries (nm_files nm))) = map fst (trie_entries (nm_files nm))"
    by auto
  then have "distinct (map fm_filename (map snd (trie_entries (nm_files nm))))"
    using sorted_name_less_distinct [OF entries_sorted] by metis
  moreover have "files_of nm (fm_filename v) = Some v" if "(k, v) \<in> set (trie_entries (nm_files nm))" for k v
    using names [OF that] that by (simp add: entries_search)
  ultimately show ?thesis
    unfolding listed_def get_all_entries
    by (auto simp flip: take_map intro!: distinct_take dest!: in_set_takeD)
qed

lemma read_info_keeps [simp]:
  "fm_filename (read_info s f) = fm_filename f" "fm_owner (read_info s f) = fm_owner f"
  "fm_ss_id (read_info s f) = fm_ss_id f" "fm_acl (read_info s f) = fm_acl f"
  by (simp_all add: read_info_def apply_info_def Let_def)

lemma listed_store:
  assumes "listed nm (f # fs)" and "store_metadata nm (fm_filename f) f' = Some nm'"
  shows "listed nm' fs"
proof -
  have "files_of nm (fm_filename f) = Some f" using assms(1) by (simp add: listed_def)
  from store_metadata_files [OF assms(2) this]
  have "files_of nm' g = files_of nm g" if "g \<noteq> fm_filename f" for g
    using that by simp
  moreover have "\<forall>g \<in> set fs. fm_filename g \<noteq> fm_filename f"
    using assms(1) unfolding listed_def by (metis distinct.simps(2) image_eqI list.map(2) list.set_map)
  ultimately show ?thesis using assms(1) by (simp add: listed_def)
qed

lemma refresh_details_allowed:
  assumes "refresh_details env (nm, w) fs = Some ((nm', w'), fs')" and "listed nm fs"
  shows "allowed_step u nm nm'"
  using assms
proof (induction fs arbitrary: nm w fs')
  case Nil
  then show ?case by simp
next
  case (Cons f fs)
  have rest: "listed nm fs" using Cons.prems(2) by (simp add: listed_def)
  have stored: "allowed_step u nm nm1" if "store_metadata nm (fm_filename f) (read_info s f) = Some nm1" for s nm1
    using allowed_store [OF that, of f u] Cons.prems(2) by (simp add: listed_def)
  show ?case
    using Cons.prems(1) Cons.IH [OF _ rest] Cons.IH [OF _ listed_store [OF Cons.prems(2)]] stored
    by (auto simp: Let_def split: option.splits Option.bind_splits prod.splits if_splits) (blast intro: allowed_trans)+
qed

lemma handle_view_allowed:
  assumes "handle_view env (nm, w) msg = Some ((nm', w'), out)" and "files_ok servers (files_of nm)"
  shows "allowed_step u nm nm'"
  using assms(1) refresh_details_allowed [OF _ listed_all [OF assms(2)]]
  by (auto simp: handle_view_def Let_def split: Option.bind_splits prod.splits if_splits)

theorem request_allowed:
  assumes "handle_request env (nm, w) msg resp = Some (((nm', w'), out), resp')"
    and "files_ok servers (files_of nm)"
  shows "allowed_step (m_sender msg) nm nm'"
  using assms(1) handle_view_allowed [OF _ assms(2)]
  by (auto simp: handle_request_def Let_def split: if_splits prod.splits
      dest: request_handlers_allowed [where u = "m_sender msg"] handle_approverequest_allowed
        handle_exec_allowed [where u = "m_sender msg"] handle_createfolder_allowed [where u = "m_sender msg"]
        handle_move_allowed [where u = "m_sender msg"] handle_info_allowed [where u = "m_sender msg"]
        handle_create_allowed handle_delete_allowed handle_access_allowed
        handle_redirect_allowed [where u = "m_sender msg"])

section \<open>The invariant of the name server\<close>

definition users_ok :: "registered_user list \<Rightarrow> bool" where
  "users_ok us \<longleftrightarrow> distinct (map ru_username us) \<and> length us \<le> MAX_USERS \<and>
     (\<forall>u \<in> set us. length (ru_username u) < MAX_USERNAME)"

definition clients_ok :: "name_server \<Rightarrow> bool" where
  "clients_ok nm \<longleftrightarrow> length (nm_clients nm) = MAX_CLIENTS \<and> nm_client_count nm \<le> MAX_CLIENTS \<and>
     (\<forall>c \<in> set (nm_clients nm). length (ci_username c) < MAX_USERNAME)"

definition servers_ok :: "ss_info list \<Rightarrow> bool" where
  "servers_ok ss \<longleftrightarrow> distinct (map si_id ss) \<and> length ss \<le> MAX_SS"

definition nm_ok :: "name_server \<Rightarrow> bool" where
  "nm_ok nm \<longleftrightarrow> files_ok (server_ids nm) (files_of nm) \<and> users_ok (nm_users nm) \<and> clients_ok nm \<and>
     servers_ok (nm_ss_list nm) \<and> cache_sound (nm_cache nm)"

lemma files_ok_mono: "files_ok A g \<Longrightarrow> A \<subseteq> B \<Longrightarrow> files_ok B g"
  by (auto simp: files_ok_def file_ok_def)

lemma nm_ok_init: "nm_ok init_name_server"
  by (simp add: nm_ok_def init_name_server_def cache_sound_init files_ok_def search_init users_ok_def clients_ok_def servers_ok_def
      blank_client_def)

lemma nm_ok_step: "allowed_step u nm nm' \<Longrightarrow> nm_ok nm \<Longrightarrow> nm_ok nm'"
  by (auto simp: nm_ok_def allowed_step_def clients_ok_def dest: file_changes_ok)

text \<open>Storage servers\<close>

lemma register_file_ok:
  assumes "register_file t sid files f = Some files'" and "files_ok A (trie_search files)" and "sid \<in> A"
  shows "files_ok A (trie_search files')"
  using assms
  by (auto simp: register_file_def file_trie.update_fun file_trie.insert_fun files_ok_def file_ok_def
      split: if_splits option.splits)

lemma register_files_ok:
  "register_files t sid files fs = Some files' \<Longrightarrow> files_ok A (trie_search files) \<Longrightarrow> sid \<in> A \<Longrightarrow>
   files_ok A (trie_search files')"
proof (induction fs arbitrary: files)
  case Nil
  then show ?case by simp
next
  case (Cons f fs)
  obtain files1 where one: "register_file t sid files f = Some files1"
    and rest: "register_files t sid files1 fs = Some files'"
    using Cons.prems(1) by (auto split: Option.bind_splits)
  from Cons.IH [OF rest register_file_ok [OF one Cons.prems(2,3)] Cons.prems(3)] show ?case .
qed

lemma updated_servers:
  assumes "find_index (\<lambda>s. si_id s = sid) ss = Some k" and "si_id info = sid"
  shows "map si_id (ss[k := info]) = map si_id ss"
  using find_index_SomeD [OF assms(1)] assms(2) by (auto simp: map_update list_update_same_conv)

lemma update_server_ok:
  assumes "nm_ok nm" and "\<And>s. si_id (f s) = si_id s"
  shows "nm_ok (update_server nm sid f)"
proof (cases "server_slot nm sid")
  case None
  with assms(1) show ?thesis by (simp add: update_server_def)
next
  case (Some k)
  define ss' where "ss' = (nm_ss_list nm)[k := f (nm_ss_list nm ! k)]"
  have "map si_id ss' = map si_id (nm_ss_list nm)"
    unfolding ss'_def using find_index_SomeD [OF Some [unfolded server_slot_def]] assms(2)
    by (intro updated_servers [OF Some [unfolded server_slot_def]]) simp
  then have "server_ids (nm\<lparr>nm_ss_list := ss'\<rparr>) = server_ids nm" "servers_ok ss' = servers_ok (nm_ss_list nm)"
    unfolding servers_ok_def by (metis list.set_map name_server.select_convs(4) name_server.surjective
        name_server.update_convs(4), metis length_map)
  then show ?thesis
    using assms(1) Some by (simp add: update_server_def ss'_def [symmetric] nm_ok_def clients_ok_def)
qed

lemma register_ss_ok:
  assumes "register_ss t sock nm msg = Some (nm', ok)" and ok: "nm_ok nm"
  shows "nm_ok nm'"
proof (cases "nm' = nm")
  case True
  with ok show ?thesis by simp
next
  case False
  define info where "info = \<lparr>si_id = m_ss_id msg, si_ip = m_sender msg, si_nm_port = m_nm_port msg,
    si_client_port = m_client_port msg, si_sock = sock, si_hb_sock = - 1, si_active = True, si_last_heartbeat = t,
    si_files = take MAX_FILES (split_commas [] (m_data msg))\<rparr>"
  define ss where "ss = (case server_slot nm (m_ss_id msg) of
    Some k \<Rightarrow> (nm_ss_list nm)[k := info] | None \<Rightarrow> nm_ss_list nm @ [info])"
  obtain files where files: "register_files t (m_ss_id msg) (nm_files nm)
      (take MAX_FILES (split_commas [] (m_data msg))) = Some files"
    and nm': "nm' = nm\<lparr>nm_files := files, nm_ss_list := ss\<rparr>"
    and room: "server_slot nm (m_ss_id msg) = None \<Longrightarrow> length (nm_ss_list nm) < MAX_SS"
    using assms(1) False that
    unfolding register_ss_def Let_def info_def [symmetric] ss_def [symmetric]
    by (auto split: if_splits Option.bind_splits)
  have sid: "si_id info = m_ss_id msg" by (simp add: info_def)
  have servers: "servers_ok ss \<and> insert (m_ss_id msg) (server_ids nm) \<subseteq> si_id ` set ss"
  proof (cases "server_slot nm (m_ss_id msg)")
    case None
    then have "m_ss_id msg \<notin> server_ids nm" by (auto simp: server_slot_def find_index_None)
    then show ?thesis using None room ok by (auto simp: ss_def sid nm_ok_def servers_ok_def)
  next
    case (Some k)
    note found = Some [unfolded server_slot_def]
    have same: "map si_id ss = map si_id (nm_ss_list nm)"
      using updated_servers [OF found sid] Some by (simp add: ss_def)
    then have "servers_ok ss" using ok unfolding nm_ok_def servers_ok_def by (metis length_map)
    moreover have "m_ss_id msg \<in> server_ids nm"
      using find_index_SomeD [OF found] by (metis image_eqI nth_mem)
    ultimately show ?thesis using same by (metis insert_absorb list.set_map order_refl)
  qed
  have "files_ok (si_id ` set ss) (trie_search files)"
    using register_files_ok [OF files] files_ok_mono ok servers unfolding nm_ok_def by (metis insert_subset)
  then show ?thesis using ok servers unfolding nm' by (simp add: nm_ok_def clients_ok_def)
qed

lemma monitor_ok:
  assumes "nm_ok nm"
  shows "nm_ok (heartbeat_monitor t nm)"
proof -
  define ss where "ss = map (check_heartbeat t) (nm_ss_list nm)"
  have "si_id (check_heartbeat t s) = si_id s" for s by (simp add: check_heartbeat_def Let_def)
  then have "map si_id ss = map si_id (nm_ss_list nm)" by (simp add: ss_def)
  then have "si_id ` set ss = server_ids nm" "servers_ok ss = servers_ok (nm_ss_list nm)"
    unfolding servers_ok_def by (metis list.set_map, metis length_map)
  then show ?thesis using assms by (simp add: heartbeat_monitor_def ss_def [symmetric] nm_ok_def clients_ok_def)
qed

text \<open>Users and clients\<close>

lemma users_ok_update:
  assumes "users_ok us" and "k < length us" and "ru_username u = ru_username (us ! k)"
  shows "users_ok (us[k := u])"
proof -
  have "map ru_username (us[k := u]) = map ru_username us"
    using assms(2,3) by (simp add: map_update list_update_same_conv)
  moreover have "\<forall>v \<in> set (us[k := u]). length (ru_username v) < MAX_USERNAME"
    using assms set_update_subset_insert [of us k u] by (auto simp: users_ok_def)
  ultimately show ?thesis using assms(1) unfolding users_ok_def by (metis length_list_update)
qed

lemma register_user_ok:
  assumes "register_user_persistent t nm u sock = (nm', dup)" and "nm_ok nm" and "length u < MAX_USERNAME"
  shows "nm_ok nm'"
proof (cases "find_index (\<lambda>r. ru_username r = u) (nm_users nm)")
  case None
  then have "u \<notin> ru_username ` set (nm_users nm)" by (auto simp: find_index_None)
  with None assms show ?thesis
    by (auto simp: register_user_persistent_def nm_ok_def clients_ok_def users_ok_def split: if_splits)
next
  case (Some k)
  with assms find_index_SomeD [OF Some] users_ok_update [of "nm_users nm" k] show ?thesis
    by (auto simp: register_user_persistent_def nm_ok_def clients_ok_def split: if_splits)
qed

lemma deregister_ok: "nm_ok nm \<Longrightarrow> nm_ok (deregister_active_session t nm u sock)"
  using users_ok_update [of "nm_users nm"]
  by (auto simp: deregister_active_session_def nm_ok_def clients_ok_def split: option.splits dest!: find_index_SomeD)

lemma register_user_clients:
  "register_user_persistent t nm u sock = (nm', dup) \<Longrightarrow>
   nm_clients nm' = nm_clients nm \<and> nm_client_count nm' = nm_client_count nm"
  by (auto simp: register_user_persistent_def split: option.splits if_splits)

lemma connect_client_ok:
  assumes "connect_client t nm sock msg = Some (nm', idx, out)" and "nm_ok nm"
    and "length (m_sender msg) < MAX_USERNAME"
  shows "nm_ok nm'"
proof -
  obtain nm1 dup where reg: "register_user_persistent t nm (m_sender msg) sock = (nm1, dup)" by fastforce
  note ok = register_user_ok [OF reg assms(2,3)]
  have "nm_ok (nm1\<lparr>nm_clients := (nm_clients nm1)[i := c], nm_client_count := Suc i\<rparr>)"
    if "i < MAX_CLIENTS" "length (ci_username c) < MAX_USERNAME" for i c
    using ok that by (auto simp: nm_ok_def clients_ok_def dest!: subsetD [OF set_update_subset_insert])
  then show ?thesis
    using assms reg ok deregister_ok [OF ok, of t "m_sender msg" sock]
    by (auto simp: connect_client_def Let_def split: if_splits)
qed

lemma shift_down_keeps:
  assumes "i < n" and "n \<le> length xs"
  shows "length (shift_down i n xs) = length xs" and "set (shift_down i n xs) \<subseteq> set xs"
  using assms by (auto simp: shift_down_def dest: in_set_takeD in_set_dropD)

lemma disconnect_client_ok:
  assumes "nm_ok nm"
  shows "nm_ok (disconnect_client t nm idx sock)"
proof -
  have shift: "nm_ok (nm\<lparr>nm_clients := shift_down i n (nm_clients nm), nm_client_count := n - 1\<rparr>)"
    if "i < n" "n = nm_client_count nm" for i n
    using assms that shift_down_keeps [of i n "nm_clients nm"] by (auto simp: nm_ok_def clients_ok_def)
  have "i < nm_client_count nm"
    if "find_index P (take (nm_client_count nm) (nm_clients nm)) = Some i" for P i
    using find_index_SomeD [OF that] by simp
  with shift show ?thesis
    using assms by (auto simp: disconnect_client_def Let_def intro!: deregister_ok split: option.splits)
qed

lemma reachable_ok: "nm_reachable s \<Longrightarrow> nm_ok (fst s)"
proof (induction rule: nm_reachable.induct)
  case (request nm w msg env resp s' out resp')
  obtain nm' w' where s': "s' = (nm', w')" by fastforce
  have "files_ok (server_ids nm) (files_of nm)" using request.IH by (simp add: nm_ok_def)
  from nm_ok_step [OF request_allowed [OF request.hyps(5) [unfolded s'] this]] request.IH s' show ?case by simp
qed (auto simp: nm_ok_init heartbeat_connected_def heartbeat_received_def heartbeat_lost_def
    intro!: update_server_ok monitor_ok disconnect_client_ok dest: register_ss_ok connect_client_ok)

end
