(* ===== verification/NameProps.thy ===== *)
theory NameProps
  imports NameSafety
begin

text \<open>
  What the name server does for its users: the properties of access control, sharing, access
  requests, listings, logins and heartbeats, each with a concrete instance.
\<close>

section \<open>Example states\<close>

text \<open>
  A world in which every storage server accepts everything, a name server with one storage
  server on which the user a has created the file f, and a request of another user.
\<close>

definition yes_env :: "unit nm_env" where
  "yes_env = \<lparr>clock = 5, time_text = (\<lambda>t. show_int t), shell = (\<lambda>s. None),
     exchange = (\<lambda>w k msg. (w, 0, answer SUCCESS))\<rparr>"

definition ss_hello :: "int \<Rightarrow> string \<Rightarrow> message" where
  "ss_hello i files = init_message\<lparr>m_type := MSG_REG_SS, m_ss_id := i, m_sender := ''h'', m_client_port := 9,
     m_data := files\<rparr>"

definition one_server :: name_server where
  "one_server = fst (the (register_ss 0 3 init_name_server (ss_hello 1 [])))"

definition file_request :: "int \<Rightarrow> string \<Rightarrow> message" where
  "file_request t u = init_message\<lparr>m_type := t, m_sender := u, m_filename := ''f''\<rparr>"

definition file_of_a :: file_metadata where
  "file_of_a = new_file_metadata 5 (file_request MSG_CREATE ''a'') 1"

lemma one_server_fields:
  "nm_files one_server = init_trie" "nm_cache one_server = init_cache CACHE_SIZE"
  "map si_id (nm_ss_list one_server) = [1]" "nm_users one_server = []" "nm_requests one_server = []"
  "nm_folders one_server = init_folder_trie" "nm_next_ss_id one_server = 0"
  by (simp_all add: one_server_def register_ss_def ss_hello_def init_message_def init_name_server_def server_slot_def)

lemma one_server_reachable: "nm_reachable (one_server, w)"
proof -
  have "register_ss 0 3 init_name_server (ss_hello 1 []) = Some (one_server, True)"
    by (simp add: one_server_def register_ss_def ss_hello_def init_message_def init_name_server_def server_slot_def)
  from nm_reachable.register [OF nm_reachable.start this] show ?thesis .
qed

text \<open>A cache with room for a number of new names: the next operations return.\<close>

definition cache_room :: "nat \<Rightarrow> 'v lru_cache \<Rightarrow> bool" where
  "cache_room k c \<longleftrightarrow> (\<exists>ys. cache_rep c ys \<and> cache_coherent c ys \<and> length ys + k < capacity c)"

lemma cache_room_init: "k < cap \<Longrightarrow> cache_room k (init_cache cap)"
  unfolding cache_room_def
  using rep_init [of cap] coherent_init [of cap] by (intro exI [of _ "[]"]) (simp add: init_cache_def)

lemma lru_put_length: "length (lru_put k v xs) \<le> length xs + 1"
  by simp

lemma cache_room_put:
  assumes "cache_room (Suc k) c" and "length key < MAX_FILENAME"
  obtains c' where "cache_put c key v = Some c'" "cache_room k c'"
proof -
  obtain ys where ys: "cache_rep c ys" "cache_coherent c ys" "length ys + Suc k < capacity c"
    using assms(1) by (auto simp: cache_room_def)
  then obtain c' zs where c': "cache_put c key v = Some c'" "cache_rep c' zs" "cache_coherent c' zs"
    "capacity c' = capacity c" "cache_entries c' zs = lru_put key v (cache_entries c ys)"
    using put_refines [OF ys(1,2) assms(2), of v] by auto
  have "length zs \<le> length ys + 1"
    using arg_cong [OF c'(5), of length] lru_put_length [of key v "cache_entries c ys"]
    by (simp add: cache_entries_def)
  then have "cache_room k c'" using c' ys(3) unfolding cache_room_def by (intro exI [of _ zs]) simp
  then show thesis using that c'(1) by blast
qed

definition created_server :: name_server where
  "created_server = fst (fst (the (handle_create yes_env (one_server, ()) (file_request MSG_CREATE ''a''))))"

lemma server_fields_simps [simp]:
  "m_filename (file_request i u) = ''f''" "m_sender (file_request i u) = u" "m_type (file_request i u) = i"
  "m_target_user (file_request i u) = []"
  by (simp_all add: file_request_def init_message_def)

lemma one_server_robin: "get_next_ss_round_robin one_server = (one_server\<lparr>nm_next_ss_id := 1\<rparr>, 1)"
  and one_server_slot: "server_slot (one_server\<lparr>nm_next_ss_id := n\<rparr>) 1 = Some 0"
  using one_server_fields(3,7) by (auto simp: get_next_ss_round_robin_def server_slot_def map_eq_Cons_conv)

lemma create_returns:
  obtains c where "handle_create yes_env (one_server, ()) (file_request MSG_CREATE ''a'') =
      Some ((created_server, ()), answer SUCCESS)"
    "created_server = one_server\<lparr>nm_next_ss_id := 1, nm_files := fst (trie_insert init_trie ''f'' file_of_a), nm_cache := c\<rparr>"
    "cache_room 90 c"
proof -
  have room: "cache_room (Suc 90) (init_cache CACHE_SIZE :: file_metadata lru_cache)"
    by (rule cache_room_init) simp
  obtain c :: "file_metadata lru_cache" where c: "cache_put (init_cache CACHE_SIZE) ''f'' file_of_a = Some c"
    "cache_room 90 c"
    by (rule cache_room_put [OF room, of "''f''" file_of_a]) auto
  have run: "handle_create yes_env (one_server, ()) (file_request MSG_CREATE ''a'') =
    Some ((one_server\<lparr>nm_next_ss_id := 1, nm_files := fst (trie_insert init_trie ''f'' file_of_a), nm_cache := c\<rparr>, ()),
          answer SUCCESS)"
    using c(1) by (simp add: handle_create_def one_server_fields one_server_robin one_server_slot search_init yes_env_def
        file_of_a_def Let_def)
  then show thesis using c(2) that by (simp add: created_server_def)
qed

lemma created_run: "handle_create yes_env (one_server, ()) (file_request MSG_CREATE ''a'') =
    Some ((created_server, ()), answer SUCCESS)"
  by (rule create_returns)

lemma created_files: "files_of created_server = [''f'' \<mapsto> file_of_a]"
proof -
  obtain c where "created_server =
      one_server\<lparr>nm_next_ss_id := 1, nm_files := fst (trie_insert init_trie ''f'' file_of_a), nm_cache := c\<rparr>"
    by (rule create_returns)
  from arg_cong [OF this, of nm_files] show ?thesis
    by (simp add: file_trie.insert_fun search_init char_index_def)
qed

lemma created_request:
  "handle_request yes_env (one_server, ()) (file_request MSG_CREATE ''a'') init_message =
   Some (((created_server, ()), answer SUCCESS), init_message)"
  by (simp add: handle_request_def created_run)

lemma created_reachable: "nm_reachable (created_server, ())"
  using nm_reachable.request [OF one_server_reachable _ _ _ created_request] by simp

text \<open>The same name server after the user b has connected, and requests about access to f.\<close>

definition client_hello :: "string \<Rightarrow> message" where
  "client_hello u = init_message\<lparr>m_type := MSG_REG_CLIENT, m_sender := u, m_data := ''h''\<rparr>"

lemma client_hello_simps [simp]:
  "m_type (client_hello u) = MSG_REG_CLIENT" "m_sender (client_hello u) = u" "m_data (client_hello u) = ''h''"
  by (simp_all add: client_hello_def)

definition shared_server :: name_server where
  "shared_server = fst (the (connect_client 0 created_server 4 (client_hello ''b'')))"

definition access_message :: "int \<Rightarrow> string \<Rightarrow> int \<Rightarrow> message" where
  "access_message t v a = (file_request t ''a'')\<lparr>m_target_user := v, m_access := a\<rparr>"

lemma access_message_simps [simp]:
  "m_filename (access_message t v a) = ''f''" "m_sender (access_message t v a) = ''a''"
  "m_type (access_message t v a) = t" "m_target_user (access_message t v a) = v" "m_access (access_message t v a) = a"
  by (simp_all add: access_message_def)

lemma created_fields:
  "nm_users created_server = []" "nm_client_count created_server = 0" "cache_room 90 (nm_cache created_server)"
proof -
  obtain c where c: "created_server =
      one_server\<lparr>nm_next_ss_id := 1, nm_files := fst (trie_insert init_trie ''f'' file_of_a), nm_cache := c\<rparr>"
    "cache_room 90 c" by (rule create_returns)
  show "nm_users created_server = []" "cache_room 90 (nm_cache created_server)"
    using arg_cong [OF c(1), of nm_users] arg_cong [OF c(1), of nm_cache] c(2) by (simp_all add: one_server_fields)
  show "nm_client_count created_server = 0"
    using arg_cong [OF c(1), of nm_client_count]
    by (simp add: one_server_def register_ss_def ss_hello_def init_message_def init_name_server_def server_slot_def)
qed

lemma created_cached: "\<exists>c. cache_get (nm_cache created_server) ''f'' = Some (c, Some file_of_a)"
proof -
  obtain c where c: "cache_put (init_cache CACHE_SIZE) ''f'' file_of_a = Some c"
    using cache_room_put [of 0 "init_cache CACHE_SIZE" "''f''" file_of_a] cache_room_init [of 1 CACHE_SIZE] by auto
  have "handle_create yes_env (one_server, ()) (file_request MSG_CREATE ''a'') =
    Some ((one_server\<lparr>nm_next_ss_id := 1, nm_files := fst (trie_insert init_trie ''f'' file_of_a), nm_cache := c\<rparr>, ()),
          answer SUCCESS)"
    using c by (simp add: handle_create_def one_server_fields one_server_robin one_server_slot search_init yes_env_def
        file_of_a_def Let_def)
  then have "nm_cache created_server = c" by (simp add: created_server_def)
  then show ?thesis using put_then_get [OF rep_init c] by simp
qed

lemma created_slots: "server_slot created_server 2 = None" "length (nm_ss_list created_server) < MAX_SS"
proof -
  obtain c where c: "created_server =
      one_server\<lparr>nm_next_ss_id := 1, nm_files := fst (trie_insert init_trie ''f'' file_of_a), nm_cache := c\<rparr>"
    by (rule create_returns)
  have "map si_id (nm_ss_list created_server) = [1]"
    using arg_cong [OF c, of nm_ss_list] by (simp add: one_server_fields)
  then show "server_slot created_server 2 = None" "length (nm_ss_list created_server) < MAX_SS"
    by (auto simp: server_slot_def map_eq_Cons_conv)
qed

lemma created_active: "active_server_slot created_server 1 = Some 0" "server_slot created_server 1 = Some 0"
proof -
  obtain c where c: "created_server =
      one_server\<lparr>nm_next_ss_id := 1, nm_files := fst (trie_insert init_trie ''f'' file_of_a), nm_cache := c\<rparr>"
    by (rule create_returns)
  show "active_server_slot created_server 1 = Some 0" "server_slot created_server 1 = Some 0"
    using arg_cong [OF c, of nm_ss_list]
    by (simp_all add: active_server_slot_def one_server_def register_ss_def ss_hello_def init_message_def
        init_name_server_def server_slot_def)
qed

lemma shared_run:
  "\<exists>k. connect_client 0 created_server 4 (client_hello ''b'') = Some (shared_server, k, Some (answer SUCCESS))"
  by (simp add: shared_server_def connect_client_def register_user_persistent_def created_fields)

lemma shared_fields:
  "nm_files shared_server = nm_files created_server" "nm_cache shared_server = nm_cache created_server"
  "user_exists shared_server ''b''"
  by (simp_all add: shared_server_def connect_client_def register_user_persistent_def created_fields user_exists_def)

lemma shared_files: "files_of shared_server = [''f'' \<mapsto> file_of_a]"
  by (simp add: shared_fields created_files)

lemma shared_reachable: "nm_reachable (shared_server, ())"
proof -
  obtain k where "connect_client 0 created_server 4 (client_hello ''b'') = Some (shared_server, k, Some (answer SUCCESS))"
    using shared_run ..
  from nm_reachable.connect [OF created_reachable _ this] show ?thesis by simp
qed

lemma file_of_a_fields [simp]: "fm_owner file_of_a = ''a''" "fm_acl file_of_a = []" "fm_ss_id file_of_a = 1"
  by (simp_all add: file_of_a_def new_file_metadata_def)

lemma store_returns:
  assumes "cache_room (Suc k) (nm_cache nm)" and "length f < MAX_FILENAME"
  obtains nm' where "store_metadata nm f m = Some nm'" "cache_room k (nm_cache nm')"
proof -
  obtain c where c: "cache_put (nm_cache nm) f m = Some c" "cache_room k c"
    using assms by (rule cache_room_put)
  with that show thesis by (simp add: store_metadata_def)
qed

definition granted_server :: name_server where
  "granted_server = fst (fst (the (handle_access yes_env (shared_server, ()) (access_message MSG_ADDACCESS ''b'' ACCESS_READ))))"

lemma granted_run:
  "handle_access yes_env (shared_server, ()) (access_message MSG_ADDACCESS ''b'' ACCESS_READ) =
     Some ((granted_server, ()), answer SUCCESS)"
  and granted_files: "files_of granted_server = [''f'' \<mapsto> file_of_a\<lparr>fm_acl := [\<lparr>acl_user = ''b'', acl_access = ACCESS_READ\<rparr>]\<rparr>]"
  and granted_room: "cache_room 89 (nm_cache granted_server)"
proof -
  obtain nm' where st: "store_metadata shared_server ''f''
      (file_of_a\<lparr>fm_acl := set_acl [] ''b'' ACCESS_READ\<rparr>) = Some nm'" and room: "cache_room 89 (nm_cache nm')"
    using store_returns [of 89 shared_server "''f''"] created_fields(3) shared_fields(2) by auto
  have run: "handle_access yes_env (shared_server, ()) (access_message MSG_ADDACCESS ''b'' ACCESS_READ) =
      Some ((nm', ()), answer SUCCESS)"
    by (simp add: handle_access_def shared_files shared_fields(3) st)
  then have nm': "granted_server = nm'" by (simp add: granted_server_def)
  show "handle_access yes_env (shared_server, ()) (access_message MSG_ADDACCESS ''b'' ACCESS_READ) =
     Some ((granted_server, ()), answer SUCCESS)" using run nm' by simp
  show "files_of granted_server = [''f'' \<mapsto> file_of_a\<lparr>fm_acl := [\<lparr>acl_user = ''b'', acl_access = ACCESS_READ\<rparr>]\<rparr>]"
    unfolding nm' using store_metadata_files [OF st] by (simp add: shared_files set_acl_def acl_index_def)
  show "cache_room 89 (nm_cache granted_server)" using room nm' by simp
qed

lemma granted_reachable: "nm_reachable (granted_server, ())"
proof -
  have "handle_request yes_env (shared_server, ()) (access_message MSG_ADDACCESS ''b'' ACCESS_READ) init_message =
    Some (((granted_server, ()), answer SUCCESS), init_message)"
    by (simp add: handle_request_def granted_run)
  from nm_reachable.request [OF shared_reachable _ _ _ this] show ?thesis by simp
qed

section \<open>Properties\<close>

text \<open>
  C6. Another user's file is out of reach: in a reachable state, no request of a user can
  delete a file that somebody else owns, change its owner or its access list, or change
  what any user may do with it.
\<close>

theorem others_files_protected:
  assumes "nm_reachable (nm, w)" and "files_of nm f = Some m" and "fm_owner m \<noteq> m_sender msg"
    and "handle_request env (nm, w) msg resp = Some (((nm', w'), out), resp')"
  shows "(\<exists>m'. files_of nm' f = Some m' \<and> fm_owner m' = fm_owner m \<and> fm_acl m' = fm_acl m) \<and>
    (\<forall>v required. check_access nm' f v required = check_access nm f v required)"
proof -
  have "files_ok (server_ids nm) (files_of nm)" using reachable_ok [OF assms(1)] by (simp add: nm_ok_def)
  then have "protected_from (m_sender msg) (files_of nm) (files_of nm')"
    using request_allowed [OF assms(4)] file_changes_protect by (metis allowed_step_def)
  then obtain m' where "files_of nm' f = Some m'" "fm_owner m' = fm_owner m" "fm_acl m' = fm_acl m"
    using assms(2,3) by (auto simp: protected_from_def)
  then show ?thesis using assms(2) by (simp add: check_access_def meta_allows_right)
qed

theorem others_files_protected_witness:
  "handle_request yes_env (created_server, ()) (file_request MSG_DELETE ''b'') init_message =
     Some (((created_server, ()), answer ERR_NOT_OWNER), init_message) \<and>
   (\<forall>v required. check_access created_server ''f'' v required = check_access created_server ''f'' v required)"
proof -
  have run: "handle_request yes_env (created_server, ()) (file_request MSG_DELETE ''b'') init_message =
     Some (((created_server, ()), answer ERR_NOT_OWNER), init_message)"
    by (simp add: handle_request_def handle_delete_def created_files file_of_a_def new_file_metadata_def)
  from others_files_protected [OF created_reachable _ _ run] run show ?thesis
    by (simp add: created_files file_of_a_def new_file_metadata_def)
qed

text \<open>
  C23. The invariant of the name server: in a reachable state every file is filed under its
  own name, lies on a registered storage server and has at most 100 access entries for distinct users; no user
  is registered twice and no storage server listed twice.
\<close>

theorem name_server_invariant:
  assumes "nm_reachable (nm, w)"
  shows "(\<forall>f m. files_of nm f = Some m \<longrightarrow> fm_filename m = f \<and> length (fm_acl m) \<le> MAX_ACL_ENTRIES \<and>
            distinct (map acl_user (fm_acl m)) \<and> server_slot nm (fm_ss_id m) \<noteq> None) \<and>
    distinct (map ru_username (nm_users nm)) \<and> distinct (map si_id (nm_ss_list nm)) \<and>
    length (nm_ss_list nm) \<le> MAX_SS \<and> nm_client_count nm \<le> MAX_CLIENTS"
proof -
  have "server_slot nm i \<noteq> None \<longleftrightarrow> i \<in> server_ids nm" for i
    by (auto simp: server_slot_def find_index_None)
  then show ?thesis
    using reachable_ok [OF assms] by (simp add: nm_ok_def files_ok_def file_ok_def acl_ok_def users_ok_def clients_ok_def servers_ok_def)
qed

theorem name_server_invariant_witness:
  "files_of granted_server ''f'' \<noteq> None \<and> server_slot granted_server 1 \<noteq> None"
proof -
  have "files_of granted_server ''f'' = Some (file_of_a\<lparr>fm_acl := [\<lparr>acl_user = ''b'', acl_access = ACCESS_READ\<rparr>]\<rparr>)"
    by (simp add: granted_files)
  with conjunct1 [OF name_server_invariant [OF granted_reachable]] show ?thesis
    by (metis file_metadata.select_convs(4) file_metadata.surjective file_metadata.update_convs(12) file_of_a_fields(3) option.distinct(1))
qed

text \<open>
  C24. Sharing: when the owner grants access to another registered user, the answer is always
  SUCCESS. The user can then do what the entry allows if the access list had an entry for
  the user or room for one; with a full list nothing is granted. Nobody else is affected.
\<close>

theorem sharing_grants:
  assumes "files_of nm (m_filename msg) = Some m" and "fm_owner m = m_sender msg"
    and "m_type msg = MSG_ADDACCESS" and "user_exists nm (m_target_user msg)" and "m_target_user msg \<noteq> m_sender msg"
    and "handle_access env (nm, w) msg = Some ((nm', w'), out)"
  shows "m_status out = SUCCESS \<and>
    check_access nm' (m_filename msg) (m_target_user msg) required =
      ((acl_index (fm_acl m) (m_target_user msg) \<noteq> None \<or> length (fm_acl m) < MAX_ACL_ENTRIES) \<and>
       entry_allows (m_access msg) required) \<and>
    (v \<noteq> m_target_user msg \<longrightarrow> check_access nm' (m_filename msg) v required = check_access nm (m_filename msg) v required)"
proof -
  obtain nm1 where st: "store_metadata nm (m_filename msg)
      (m\<lparr>fm_acl := set_acl (fm_acl m) (m_target_user msg) (m_access msg)\<rparr>) = Some nm1"
    and out: "nm' = nm1" "out = answer SUCCESS"
    using assms by (auto simp: handle_access_def split: Option.bind_splits)
  have "acl_index (fm_acl m) (m_target_user msg) \<noteq> None \<longleftrightarrow> acl_right (fm_acl m) (m_target_user msg) \<noteq> None"
    by (simp add: acl_index_right)
  then show ?thesis
    using assms(1,2,5) store_metadata_files [OF st assms(1)]
    by (simp add: out check_access_def meta_allows_right set_acl_right)
qed

theorem sharing_grants_witness:
  "handle_access yes_env (shared_server, ()) (access_message MSG_ADDACCESS ''b'' ACCESS_READ) =
      Some ((granted_server, ()), answer SUCCESS) \<and>
   check_access granted_server ''f'' ''b'' ACCESS_READ \<and> \<not> check_access granted_server ''f'' ''b'' ACCESS_WRITE"
  using sharing_grants [of shared_server "access_message MSG_ADDACCESS ''b'' ACCESS_READ", OF _ _ _ _ _ granted_run]
    granted_run
  by (simp add: shared_files shared_fields(3) entry_allows_def)

text \<open>
  C25. Revoking: after the owner has removed a user from the access list, that user can
  neither read nor write the file, and nobody else is affected.
\<close>

theorem revoking_removes:
  assumes "nm_reachable (nm, w)" and "files_of nm (m_filename msg) = Some m" and "fm_owner m = m_sender msg"
    and "m_type msg = MSG_REMACCESS" and "m_target_user msg \<noteq> m_sender msg"
    and "handle_access env (nm, w) msg = Some ((nm', w'), out)"
  shows "m_status out = SUCCESS \<and> \<not> check_access nm' (m_filename msg) (m_target_user msg) required \<and>
    (v \<noteq> m_target_user msg \<longrightarrow> check_access nm' (m_filename msg) v required = check_access nm (m_filename msg) v required)"
proof -
  obtain nm1 where st: "store_metadata nm (m_filename msg)
      (m\<lparr>fm_acl := remove_acl (fm_acl m) (m_target_user msg)\<rparr>) = Some nm1"
    and out: "nm' = nm1" "out = answer SUCCESS"
    using assms by (auto simp: handle_access_def split: Option.bind_splits)
  have "acl_ok (fm_acl m)"
    using reachable_ok [OF assms(1)] assms(2) by (simp add: nm_ok_def files_ok_def file_ok_def)
  then show ?thesis
    using assms(2,3,5) store_metadata_files [OF st assms(2)]
    by (simp add: out check_access_def meta_allows_right remove_acl_right)
qed

theorem revoking_removes_witness:
  "\<exists>nm'. handle_access yes_env (granted_server, ()) (access_message MSG_REMACCESS ''b'' ACCESS_READ) =
      Some ((nm', ()), answer SUCCESS) \<and>
    check_access granted_server ''f'' ''b'' ACCESS_READ \<and> \<not> check_access nm' ''f'' ''b'' ACCESS_READ"
proof -
  obtain nm' where st: "store_metadata granted_server ''f'' (file_of_a\<lparr>fm_acl := []\<rparr>) = Some nm'"
    using store_returns [of 88 granted_server "''f''"] granted_room by auto
  have run: "handle_access yes_env (granted_server, ()) (access_message MSG_REMACCESS ''b'' ACCESS_READ) =
      Some ((nm', ()), answer SUCCESS)"
    using st by (simp add: handle_access_def granted_files remove_acl_def acl_index_def remove_at_def)
  have "check_access granted_server ''f'' ''b'' ACCESS_READ"
    by (simp add: check_access_def granted_files meta_allows_right entry_allows_def)
  with revoking_removes [OF granted_reachable _ _ _ _ run] run show ?thesis by (simp add: granted_files)
qed

section \<open>Listing the users\<close>

lemma print_at_fits:
  "length buffer + length s < MAX_BUFFER \<Longrightarrow> print_at s (buffer, length buffer) = Some (buffer @ s, length (buffer @ s))"
  by (simp add: print_at_def)

text \<open>Short lines never run over the end, whether the loop stops early or not.\<close>

lemma print_list_fits:
  assumes "\<forall>s \<in> set ss. length s \<le> 72" and "length buffer < MAX_BUFFER - 100"
  shows "\<exists>n. print_list ss (buffer, length buffer) =
    Some (buffer @ concat (take n ss), length (buffer @ concat (take n ss))) \<and>
    length (buffer @ concat (take n ss)) \<le> MAX_BUFFER - 29"
  using assms
proof (induction ss arbitrary: buffer)
  case Nil
  then show ?case by simp
next
  case (Cons s ss)
  have short: "length (buffer @ s) \<le> MAX_BUFFER - 29" using Cons.prems by simp
  have step: "print_at s (buffer, length buffer) = Some (buffer @ s, length (buffer @ s))"
    by (rule print_at_fits) (use Cons.prems in simp)
  show ?case
  proof (cases "length (buffer @ s) \<ge> MAX_BUFFER - 100")
    case True
    then show ?thesis using step short by (intro exI [of _ 1]) simp
  next
    case False
    then obtain n where "print_list ss (buffer @ s, length (buffer @ s)) =
      Some ((buffer @ s) @ concat (take n ss), length ((buffer @ s) @ concat (take n ss)))"
      "length ((buffer @ s) @ concat (take n ss)) \<le> MAX_BUFFER - 29"
      using Cons.IH [of "buffer @ s"] Cons.prems(1) by auto
    then show ?thesis using step False by (intro exI [of _ "Suc n"]) simp
  qed
qed

lemma print_list_all:
  assumes "length buffer + length (concat ss) < MAX_BUFFER - 100"
  shows "print_list ss (buffer, length buffer) = Some (buffer @ concat ss, length (buffer @ concat ss))"
  using assms
proof (induction ss arbitrary: buffer)
  case Nil
  then show ?case by simp
next
  case (Cons s ss)
  have step: "print_at s (buffer, length buffer) = Some (buffer @ s, length (buffer @ s))"
    by (rule print_at_fits) (use Cons.prems in simp)
  show ?case using Cons.IH [of "buffer @ s"] Cons.prems step by simp
qed

lemma length_concat_bound: "\<forall>s \<in> set ss. length s \<le> k \<Longrightarrow> length (concat ss) \<le> k * length ss"
  by (induction ss) auto

definition online_line :: "client_info \<Rightarrow> string" where
  "online_line c = ci_username c @ '' (online)'' @ [NEWLINE]"

text \<open>
  The listing of users stays inside its buffer: in a reachable state \<^verbatim>\<open>LIST\<close> always
  answers, it shows every connected user, and then as many registered users as fit.
\<close>

theorem list_never_overruns:
  assumes "nm_reachable (nm, w)"
  shows "\<exists>n out. handle_list env (nm, w) msg = Some ((nm, w), out) \<and> m_status out = SUCCESS \<and>
    m_data out = ''=== Connected Users ==='' @ [NEWLINE] @
      concat (map online_line (take (nm_client_count nm) (nm_clients nm))) @
      [NEWLINE] @ ''=== All Registered Users ==='' @ [NEWLINE] @
      concat (take n (map (\<lambda>u. ru_username u @ [NEWLINE]) (nm_users nm))) \<and>
    length (m_data out) < MAX_BUFFER"
proof -
  have ok: "clients_ok nm" "users_ok (nm_users nm)" using reachable_ok [OF assms] by (simp_all add: nm_ok_def)
  define online where "online = map online_line (take (nm_client_count nm) (nm_clients nm))"
  define users where "users = map (\<lambda>u. ru_username u @ [NEWLINE]) (nm_users nm)"
  define h1 where "h1 = ''=== Connected Users ==='' @ [NEWLINE]"
  define h2 where "h2 = [NEWLINE] @ ''=== All Registered Users ==='' @ [NEWLINE]"
  have lines: "map (\<lambda>c. ci_username c @ '' (online)'' @ [NEWLINE]) (take (nm_client_count nm) (nm_clients nm)) = online"
    by (simp add: online_def online_line_def)
  have lens: "length h1 = 24" "length h2 = 30" by (simp_all add: h1_def h2_def)
  have "\<forall>s \<in> set online. length s \<le> 73"
    using ok(1) by (force simp: online_def online_line_def clients_ok_def dest: in_set_takeD)
  then have "length (concat online) \<le> 73 * length online" by (rule length_concat_bound)
  also have "\<dots> \<le> 73 * MAX_CLIENTS" using ok(1) by (simp add: online_def clients_ok_def)
  finally have online: "length (concat online) \<le> 7300" by simp
  have u: "\<forall>s \<in> set users. length s \<le> 72" using ok(2) by (fastforce simp: users_def users_ok_def)
  obtain n where n: "print_list users (h1 @ concat online @ h2, length (h1 @ concat online @ h2)) =
      Some ((h1 @ concat online @ h2) @ concat (take n users), length ((h1 @ concat online @ h2) @ concat (take n users)))"
    "length ((h1 @ concat online @ h2) @ concat (take n users)) \<le> MAX_BUFFER - 29"
    using print_list_fits [OF u, of "h1 @ concat online @ h2"] online lens by auto
  have "print_at h1 ([], 0) = Some (h1, length h1)" using print_at_fits [of "[]" h1] lens by simp
  moreover have "print_list online (h1, length h1) = Some (h1 @ concat online, length (h1 @ concat online))"
    by (rule print_list_all) (use online lens in simp)
  moreover have "print_at h2 (h1 @ concat online, length (h1 @ concat online)) =
      Some (h1 @ concat online @ h2, length (h1 @ concat online @ h2))"
    using print_at_fits [of "h1 @ concat online" h2] online lens by simp
  ultimately have "handle_list env (nm, w) msg = Some ((nm, w), (answer SUCCESS)\<lparr>m_type := MSG_DATA,
      m_data := h1 @ concat online @ h2 @ concat (take n users)\<rparr>)"
    using n(1) unfolding handle_list_def prod.case lines h1_def [symmetric] h2_def [symmetric] users_def [symmetric]
    by simp
  moreover have "length (h1 @ concat online @ h2 @ concat (take n users)) < MAX_BUFFER" using n(2) by simp
  moreover have "''=== Connected Users ==='' @ [NEWLINE] @ x = h1 @ x"
    and "[NEWLINE] @ ''=== All Registered Users ==='' @ [NEWLINE] @ x = h2 @ x" for x
    by (simp_all only: h1_def h2_def append_assoc)
  ultimately show ?thesis
    unfolding online_def [symmetric] users_def [symmetric]
    by (intro exI [of _ n] exI [of _ "(answer SUCCESS)\<lparr>m_type := MSG_DATA,
          m_data := h1 @ concat online @ h2 @ concat (take n users)\<rparr>"]) (simp only:, simp)
qed

theorem list_never_overruns_witness:
  "\<exists>n out. handle_list yes_env (shared_server, ()) (file_request MSG_LIST ''b'') = Some ((shared_server, ()), out) \<and>
    length (m_data out) < MAX_BUFFER"
  using list_never_overruns [OF shared_reachable, of yes_env "file_request MSG_LIST ''b''"] by blast

section \<open>Heartbeats\<close>

text \<open>
  The heartbeat monitor takes a storage server out of service exactly if its last
  heartbeat is at least 60 seconds ago, and changes nothing else; the limit of 15 seconds
  has no effect.
\<close>

theorem heartbeat_limit:
  "nm_ss_list (heartbeat_monitor t nm) =
   map (\<lambda>s. if si_active s \<and> t - si_last_heartbeat s \<ge> 60 then s\<lparr>si_active := False, si_hb_sock := - 1\<rparr> else s)
     (nm_ss_list nm) \<and>
   heartbeat_monitor t nm = nm\<lparr>nm_ss_list := nm_ss_list (heartbeat_monitor t nm)\<rparr>"
  by (auto simp: heartbeat_monitor_def check_heartbeat_def Let_def)

end
