(* ===== verification/NameRaces.thy ===== *)
theory NameRaces
  imports NameProps
begin

text \<open>
  Interleavings of requests that the name server does not handle: each handler is correct on
  its own (theory \<^verbatim>\<open>NameProps\<close>), but a request that depends on what an earlier one saw can
  hit something else.
\<close>

section \<open>Requests that depend on earlier ones\<close>

text \<open>
  A pending access request is identified by its position in the queue of all owners. If
  another owner denies an earlier request after a listing was shown, an approval hits the
  request behind the one meant: the user of the next request is granted access instead.
\<close>

theorem approval_hits_next_request:
  assumes "nm_requests nm = r0 # r1 # r2 # rs" and "owned_by nm (ar_filename r0) (m_sender deny)"
    and "m_sentence_index deny = 0" and "m_sentence_index approve = 1"
    and "files_of nm (ar_filename r2) = Some m" and "fm_owner m = m_sender approve"
    and "handle_denyrequest env (nm, w) deny = Some (s1, out1)"
    and "handle_approverequest env s1 approve = Some ((nm2, w2), out2)"
  shows "out1 = answer SUCCESS \<and> out2 = answer SUCCESS \<and> nm_requests nm2 = r1 # rs \<and>
    files_of nm2 (ar_filename r2) =
      Some (m\<lparr>fm_acl := set_acl (fm_acl m) (ar_username r2) (ar_access r2)\<rparr>)"
proof -
  define nm1 where "nm1 = nm\<lparr>nm_requests := r1 # r2 # rs\<rparr>"
  have s1: "s1 = (nm1, w)" "out1 = answer SUCCESS"
    using assms(1-3,7) by (auto simp: handle_denyrequest_def nm1_def remove_at_def)
  obtain nm' where st: "store_metadata nm1 (ar_filename r2)
      (m\<lparr>fm_acl := set_acl (fm_acl m) (ar_username r2) (ar_access r2)\<rparr>) = Some nm'"
    and nm2: "nm2 = nm'\<lparr>nm_requests := r1 # rs\<rparr>" "out2 = answer SUCCESS"
    using assms(4-6,8)
    by (auto simp: handle_approverequest_def s1 nm1_def remove_at_def split: Option.bind_splits)
  have "files_of nm1 (ar_filename r2) = Some m" using assms(5) by (simp add: nm1_def)
  from store_metadata_files [OF st this] show ?thesis using s1(2) by (simp add: nm2)
qed

definition pending :: "string \<Rightarrow> access_request" where
  "pending u = \<lparr>ar_username = u, ar_filename = ''f'', ar_access = ACCESS_READ, ar_time = 0\<rparr>"

definition queue_request :: "int \<Rightarrow> int \<Rightarrow> message" where
  "queue_request t i = (file_request t ''a'')\<lparr>m_sentence_index := i\<rparr>"

lemma queue_request_simps [simp]:
  "m_sender (queue_request t i) = ''a''" "m_sentence_index (queue_request t i) = i"
  by (simp_all add: queue_request_def)

theorem approval_hits_next_request_witness:
  "\<exists>nm1 nm2. handle_denyrequest yes_env (created_server\<lparr>nm_requests := [pending ''x'', pending ''y'', pending ''z'']\<rparr>, ())
        (queue_request MSG_DENYREQUEST 0) = Some ((nm1, ()), answer SUCCESS) \<and>
     handle_approverequest yes_env (nm1, ()) (queue_request MSG_APPROVEREQUEST 1) = Some ((nm2, ()), answer SUCCESS) \<and>
     nm_requests nm2 = [pending ''y''] \<and> check_access nm2 ''f'' ''z'' ACCESS_READ"
proof -
  let ?nm = "created_server\<lparr>nm_requests := [pending ''x'', pending ''y'', pending ''z'']\<rparr>"
  let ?nm1 = "created_server\<lparr>nm_requests := [pending ''y'', pending ''z'']\<rparr>"
  have deny: "handle_denyrequest yes_env (?nm, ()) (queue_request MSG_DENYREQUEST 0) = Some ((?nm1, ()), answer SUCCESS)"
    by (simp add: handle_denyrequest_def owned_by_def created_files pending_def remove_at_def)
  have "cache_room (Suc 89) (nm_cache ?nm1)" using created_fields(3) by simp
  then obtain nm' where st: "store_metadata ?nm1 ''f'' (file_of_a\<lparr>fm_acl := set_acl [] ''z'' ACCESS_READ\<rparr>) = Some nm'"
    using store_returns [of 89 ?nm1 "''f''"] by auto
  have approve: "handle_approverequest yes_env (?nm1, ()) (queue_request MSG_APPROVEREQUEST 1) =
      Some ((nm'\<lparr>nm_requests := [pending ''y'']\<rparr>, ()), answer SUCCESS)"
    using st by (simp add: handle_approverequest_def created_files remove_at_def) (simp add: pending_def created_files remove_at_def)
  have "files_of (nm'\<lparr>nm_requests := [pending ''y'']\<rparr>) ''f'' = Some (file_of_a\<lparr>fm_acl := set_acl [] ''z'' ACCESS_READ\<rparr>)"
    using approval_hits_next_request [OF _ _ _ _ _ _ deny approve, of "pending ''x''" "pending ''y''" "pending ''z''" "[]" file_of_a]
    by (simp add: pending_def owned_by_def created_files)
  then have "check_access (nm'\<lparr>nm_requests := [pending ''y'']\<rparr>) ''f'' ''z'' ACCESS_READ"
    by (simp add: check_access_def meta_allows_right set_acl_right entry_allows_def)
  with deny approve show ?thesis by (intro exI [of _ ?nm1] exI [of _ "nm'\<lparr>nm_requests := [pending ''y'']\<rparr>"]) simp
qed

text \<open>
  An access to a file is recorded by a lookup of its record and a store of the changed
  copy. If the owner grants access in between, the store puts the old access list back: the
  grant was answered with SUCCESS and is lost.
\<close>

theorem concurrent_access_undoes_grant:
  assumes "files_of nm f = Some m" and "m_filename msg = f" and "m_type msg = MSG_ADDACCESS"
    and "handle_access env (nm, w) msg = Some ((nm1, w1), answer SUCCESS)"
    and "store_metadata nm1 f (touch_metadata t u m) = Some nm2"
  shows "files_of nm2 f = Some (touch_metadata t u m) \<and>
    check_access nm2 f v required = check_access nm f v required"
proof -
  have "\<exists>m1. files_of nm1 f = Some m1"
    using assms(1-4) by (auto simp: handle_access_def store_metadata_files
        split: if_splits Option.bind_splits)
  then obtain m1 where "files_of nm1 f = Some m1" ..
  from store_metadata_files [OF assms(5) this] show ?thesis
    using assms(1) by (simp add: check_access_def meta_allows_right touch_metadata_def)
qed

theorem concurrent_access_undoes_grant_witness:
  "\<exists>nm2. store_metadata granted_server ''f'' (touch_metadata 9 ''c'' file_of_a) = Some nm2 \<and>
     check_access granted_server ''f'' ''b'' ACCESS_READ \<and> \<not> check_access nm2 ''f'' ''b'' ACCESS_READ"
proof -
  obtain nm2 where st: "store_metadata granted_server ''f'' (touch_metadata 9 ''c'' file_of_a) = Some nm2"
    using store_returns [of 88 granted_server "''f''"] granted_room by auto
  have "check_access nm2 ''f'' ''b'' ACCESS_READ = check_access shared_server ''f'' ''b'' ACCESS_READ"
    by (rule conjunct2 [OF concurrent_access_undoes_grant [OF _ _ _ granted_run st]]) (simp_all add: shared_files)
  then have "\<not> check_access nm2 ''f'' ''b'' ACCESS_READ"
    by (simp add: check_access_def shared_files meta_allows_right)
  moreover have "check_access granted_server ''f'' ''b'' ACCESS_READ"
    by (simp add: check_access_def granted_files meta_allows_right entry_allows_def)
  ultimately show ?thesis using st by blast
qed

section \<open>Logins\<close>

text \<open>
  The client list is compacted when a connection ends, but each connection remembers
  the slot it was given. Of three users who connect one after the other, let the first and
  then the second leave: the name read for the second is that of the third, so the second
  user's session stays active for good and every further login is refused.
\<close>

theorem early_logout_blocks_login:
  assumes "distinct [a, b, c]" and "distinct [x, y, z]"
  shows "\<exists>nm1 nm2 nm3. connect_client t1 init_name_server x (client_hello a) = Some (nm1, Some 0, Some (answer SUCCESS)) \<and>
    connect_client t2 nm1 y (client_hello b) = Some (nm2, Some 1, Some (answer SUCCESS)) \<and>
    connect_client t3 nm2 z (client_hello c) = Some (nm3, Some 2, Some (answer SUCCESS)) \<and>
    (let nm5 = disconnect_client t5 (disconnect_client t4 nm3 0 x) 1 y in
     nm_client_count nm5 = 1 \<and>
     connect_client t6 nm5 v (client_hello b) =
       Some (nm5, None, Some ((answer ERR_INVALID_OPERATION)\<lparr>m_data := ''User already logged in from another session''\<rparr>)))"
  using assms
  by (simp add: connect_client_def register_user_persistent_def init_name_server_def disconnect_client_def
      deregister_active_session_def shift_down_def Let_def numeral_eq_Suc)

theorem early_logout_blocks_login_witness:
  "\<exists>nm. nm_client_count nm = 1 \<and> connect_client 0 nm 7 (client_hello ''b'') =
     Some (nm, None, Some ((answer ERR_INVALID_OPERATION)\<lparr>m_data := ''User already logged in from another session''\<rparr>))"
  using early_logout_blocks_login [of "''a''" "''b''" "''c''" 4 5 6 0 0 0 0 0 0 7] by (auto simp: Let_def)

section \<open>The metadata cache of the name server\<close>

text \<open>
  When a storage server registers a file that the name server already knows, the file's
  record in the trie names the new server, but a cached record does not: as long as the
  entry is cached, requests for the file still go to the old server.
\<close>

theorem stale_server_after_registration:
  assumes "cache_get (nm_cache nm) f = Some (c, Some old)" and "files_of nm f = Some m" and "length f < MAX_FILENAME"
    and "m_type msg = MSG_REG_SS" and "length (m_sender msg) < INET_ADDRSTRLEN" and "m_data msg = f"
    and "CHR '','' \<notin> set f" and "f \<noteq> []" and "server_slot nm (m_ss_id msg) = None" and "length (nm_ss_list nm) < MAX_SS"
  shows "\<exists>nm'. register_ss t sock nm msg = Some (nm', True) \<and>
    files_of nm' f = Some (m\<lparr>fm_ss_id := m_ss_id msg\<rparr>) \<and>
    map_option snd (find_ss_for_file nm' f) = Some (fm_ss_id old)"
proof -
  have split: "split_commas acc g = (if acc @ g = [] then [] else [acc @ g])" if "CHR '','' \<notin> set g" for acc g
    using that by (induction g arbitrary: acc) auto
  show ?thesis
    using assms
    by (simp add: register_ss_def split register_file_def file_trie.update_fun find_ss_for_file_def Let_def)
qed

theorem stale_server_after_registration_witness:
  "\<exists>nm'. register_ss 0 8 created_server (ss_hello 2 ''f'') = Some (nm', True) \<and>
    files_of nm' ''f'' = Some (file_of_a\<lparr>fm_ss_id := 2\<rparr>) \<and> map_option snd (find_ss_for_file nm' ''f'') = Some 1"
proof -
  obtain c where c: "cache_get (nm_cache created_server) ''f'' = Some (c, Some file_of_a)"
    using created_cached by blast
  show ?thesis
    using stale_server_after_registration [OF c, of file_of_a "ss_hello 2 ''f''" 0 8]
    by (simp add: created_files ss_hello_def init_message_def created_slots)
qed

section \<open>The size of the cache bounds the number of files\<close>

definition create_request :: "string \<Rightarrow> string \<Rightarrow> message" where
  "create_request u f = init_message\<lparr>m_type := MSG_CREATE, m_sender := u, m_filename := f\<rparr>"

fun create_all :: "'w nm_env \<Rightarrow> string \<Rightarrow> string list \<Rightarrow> name_server \<times> 'w \<Rightarrow> (name_server \<times> 'w) option" where
  "create_all env u [] s = Some s"
| "create_all env u (f # fs) s = do {
     (s', out) \<leftarrow> handle_create env s (create_request u f);
     if m_status out = SUCCESS then create_all env u fs s' else None
   }"

definition accepting :: "'w nm_env \<Rightarrow> bool" where
  "accepting env \<longleftrightarrow> (\<forall>w k msg. m_status (snd (snd (exchange env w k msg))) = SUCCESS)"

text \<open>What a creation does to a name server whose storage servers accept it.\<close>

lemma handle_create_accepting:
  assumes "accepting env" and "files_of nm f = None" and "nm_ss_list nm \<noteq> []" and "\<forall>s \<in> set (nm_ss_list nm). 0 \<le> si_id s"
  obtains sid w' where "handle_create env (nm, w) (create_request u f) =
    map_option (\<lambda>c. ((nm\<lparr>nm_next_ss_id := nm_next_ss_id nm + 1, nm_cache := c,
      nm_files := fst (trie_insert (nm_files nm) f (new_file_metadata (clock env) (create_request u f) sid))\<rparr>, w'), answer SUCCESS))
    (cache_put (nm_cache nm) f (new_file_metadata (clock env) (create_request u f) sid))"
proof -
  define s where "s = nm_ss_list nm ! (nm_next_ss_id nm mod length (nm_ss_list nm))"
  have s: "s \<in> set (nm_ss_list nm)" using assms(3) by (simp add: s_def)
  have rr: "get_next_ss_round_robin nm = (nm\<lparr>nm_next_ss_id := nm_next_ss_id nm + 1\<rparr>, si_id s)"
    using assms(3) by (simp add: get_next_ss_round_robin_def s_def)
  obtain k where k: "server_slot (nm\<lparr>nm_next_ss_id := nm_next_ss_id nm + 1\<rparr>) (si_id s) = Some k"
    using s find_index_None [of "\<lambda>t. si_id t = si_id s" "nm_ss_list nm"] by (auto simp: server_slot_def)
  obtain w' rc resp where ex: "exchange env w k (init_message\<lparr>m_type := MSG_CREATE, m_filename := f\<rparr>) = (w', rc, resp)"
    by (metis prod_cases3)
  have "m_status resp = SUCCESS" using assms(1) ex unfolding accepting_def by (metis snd_conv)
  moreover have "0 \<le> si_id s" using s assms(4) by blast
  ultimately show thesis
    using that [of "si_id s" w'] assms(2) rr k ex
    by (simp add: handle_create_def create_request_def Let_def map_option_case Option.bind_def split: option.split)
qed

definition cached_names :: "name_server \<Rightarrow> nat \<Rightarrow> string set \<Rightarrow> bool" where
  "cached_names nm cap names \<longleftrightarrow> (\<exists>xs. cache_rep (nm_cache nm) xs \<and> cache_coherent (nm_cache nm) xs \<and>
     capacity (nm_cache nm) = cap \<and> fst ` set (cache_entries (nm_cache nm) xs) = names)"

lemma cached_names_put:
  assumes "cached_names nm cap names" and "card names < cap" and "length f < MAX_FILENAME"
  obtains c where "cache_put (nm_cache nm) f v = Some c"
    and "\<And>nm'. nm_cache nm' = c \<Longrightarrow> cached_names nm' cap (insert f names)"
proof -
  obtain xs where xs: "cache_rep (nm_cache nm) xs" "cache_coherent (nm_cache nm) xs" "capacity (nm_cache nm) = cap"
    "fst ` set (cache_entries (nm_cache nm) xs) = names" using assms(1) by (auto simp: cached_names_def)
  have room: "length xs < capacity (nm_cache nm)" using coherent_length [OF xs(1,2)] xs(3,4) assms(2) by simp
  obtain c ys where c: "cache_put (nm_cache nm) f v = Some c" "cache_rep c ys" "cache_coherent c ys"
    "capacity c = cap" "cache_entries c ys = lru_put f v (cache_entries (nm_cache nm) xs)"
    using put_refines [OF xs(1,2) assms(3) room, of v] xs(3) by auto
  have "fst ` set (cache_entries c ys) = insert f names" using c(5) xs(4) by auto
  then show thesis using that c(1-4) by (auto simp: cached_names_def)
qed

lemma cached_names_full:
  assumes "cached_names nm cap names" and "card names = cap" and "f \<notin> names"
  shows "cache_put (nm_cache nm) f v = None"
proof -
  obtain xs where xs: "cache_rep (nm_cache nm) xs" "cache_coherent (nm_cache nm) xs" "capacity (nm_cache nm) = cap"
    "fst ` set (cache_entries (nm_cache nm) xs) = names" using assms(1) by (auto simp: cached_names_def)
  have "length xs = capacity (nm_cache nm)" using coherent_length [OF xs(1,2)] xs(3,4) assms(2) by simp
  moreover have "node_key (heap (nm_cache nm) n) \<noteq> f" if "n \<in> set xs" for n
    using xs(4) assms(3) that by (force simp: cache_entries_def)
  ultimately show ?thesis by (rule full_table_hangs(2) [OF xs(1)])
qed

lemma creations_fill:
  assumes "accepting env" and "nm_ss_list nm \<noteq> []" and "\<forall>s \<in> set (nm_ss_list nm). 0 \<le> si_id s"
    and "cached_names nm cap names" and "finite names" and "card names + length fs \<le> cap"
    and "distinct fs" and "set fs \<inter> names = {}" and "\<forall>f. files_of nm f \<noteq> None \<longrightarrow> f \<in> names"
    and "list_all (\<lambda>f. length f < MAX_FILENAME) fs"
  shows "\<exists>nm' w'. create_all env u fs (nm, w) = Some (nm', w') \<and> nm_ss_list nm' = nm_ss_list nm \<and>
    cached_names nm' cap (names \<union> set fs) \<and> (\<forall>f. files_of nm' f \<noteq> None \<longrightarrow> f \<in> names \<union> set fs)"
  using assms
proof (induction fs arbitrary: nm w names)
  case Nil
  then show ?case by simp
next
  case (Cons f fs)
  have absent: "files_of nm f = None" using Cons.prems(8,9) by auto
  obtain sid w1 where create: "handle_create env (nm, w) (create_request u f) =
    map_option (\<lambda>c. ((nm\<lparr>nm_next_ss_id := nm_next_ss_id nm + 1, nm_cache := c,
      nm_files := fst (trie_insert (nm_files nm) f (new_file_metadata (clock env) (create_request u f) sid))\<rparr>, w1), answer SUCCESS))
    (cache_put (nm_cache nm) f (new_file_metadata (clock env) (create_request u f) sid))"
    by (rule handle_create_accepting [OF Cons.prems(1) absent Cons.prems(2,3)])
  have "card names < cap" "length f < MAX_FILENAME" using Cons.prems(6,10) by auto
  then obtain c where put: "cache_put (nm_cache nm) f (new_file_metadata (clock env) (create_request u f) sid) = Some c"
    and cached: "\<And>nm'. nm_cache nm' = c \<Longrightarrow> cached_names nm' cap (insert f names)"
    by (rule cached_names_put [OF Cons.prems(4), where v = "new_file_metadata (clock env) (create_request u f) sid"]) blast
  define nm1 where "nm1 = nm\<lparr>nm_next_ss_id := nm_next_ss_id nm + 1, nm_cache := c,
      nm_files := fst (trie_insert (nm_files nm) f (new_file_metadata (clock env) (create_request u f) sid))\<rparr>"
  have step: "handle_create env (nm, w) (create_request u f) = Some ((nm1, w1), answer SUCCESS)"
    using create put by (simp add: nm1_def)
  have "\<exists>nm' w'. create_all env u fs (nm1, w1) = Some (nm', w') \<and> nm_ss_list nm' = nm_ss_list nm1 \<and>
    cached_names nm' cap (insert f names \<union> set fs) \<and> (\<forall>g. files_of nm' g \<noteq> None \<longrightarrow> g \<in> insert f names \<union> set fs)"
  proof (rule Cons.IH [OF Cons.prems(1)])
    show "nm_ss_list nm1 \<noteq> []" "\<forall>s \<in> set (nm_ss_list nm1). 0 \<le> si_id s" using Cons.prems(2,3) by (simp_all add: nm1_def)
    show "cached_names nm1 cap (insert f names)" by (rule cached) (simp add: nm1_def)
    show "finite (insert f names)" "distinct fs" "set fs \<inter> insert f names = {}"
      "list_all (\<lambda>f. length f < MAX_FILENAME) fs" using Cons.prems(5,7,8,10) by auto
    show "card (insert f names) + length fs \<le> cap" using Cons.prems(5,6) card_insert_le_m1 [of "Suc (card names)" names f] by simp
    show "\<forall>g. files_of nm1 g \<noteq> None \<longrightarrow> g \<in> insert f names"
      using Cons.prems(9) by (auto simp: nm1_def file_trie.insert_fun split: if_splits)
  qed
  then show ?case using step by (auto simp: nm1_def)
qed

section \<open>No room for another file\<close>

text \<open>
  C20. The name server stops at the size of its cache: on a name server that has just
  started and has accepting storage servers, as many creations of distinct files as the
  cache has slots (100) succeed, and the creation of one more file never returns.
\<close>

theorem creation_never_returns:
  assumes "accepting env" and "nm_ss_list nm \<noteq> []" and "\<forall>s \<in> set (nm_ss_list nm). 0 \<le> si_id s"
    and "nm_files nm = init_trie" and "nm_cache nm = init_cache cap" and "0 < cap"
    and "distinct fs" and "length fs = cap" and "list_all (\<lambda>f. length f < MAX_FILENAME) fs" and "f \<notin> set fs"
  shows "\<exists>s. create_all env u fs (nm, w) = Some s \<and> handle_create env s (create_request u f) = None"
proof -
  have "capacity (init_cache cap :: file_metadata lru_cache) = cap" by (simp add: init_cache_def)
  then have "cached_names nm cap {}"
    unfolding cached_names_def assms(5)
    by (intro exI [of _ "[]"]) (simp add: cache_entries_def rep_init [OF assms(6)] coherent_init)
  from creations_fill [OF assms(1-3) this, of fs u w] assms(4,7-9) obtain nm' w' where
    run: "create_all env u fs (nm, w) = Some (nm', w')" "nm_ss_list nm' = nm_ss_list nm"
      "cached_names nm' cap (set fs)" "\<forall>f. files_of nm' f \<noteq> None \<longrightarrow> f \<in> set fs"
    by (simp add: search_init) blast
  have absent: "files_of nm' f = None" using run(4) assms(10) by blast
  have servers: "nm_ss_list nm' \<noteq> []" "\<forall>s \<in> set (nm_ss_list nm'). 0 \<le> si_id s" using assms(2,3) run(2) by simp_all
  obtain sid w1 where create: "handle_create env (nm', w') (create_request u f) =
    map_option (\<lambda>c. ((nm'\<lparr>nm_next_ss_id := nm_next_ss_id nm' + 1, nm_cache := c,
      nm_files := fst (trie_insert (nm_files nm') f (new_file_metadata (clock env) (create_request u f) sid))\<rparr>, w1), answer SUCCESS))
    (cache_put (nm_cache nm') f (new_file_metadata (clock env) (create_request u f) sid))"
    by (rule handle_create_accepting [OF assms(1) absent servers])
  have "card (set fs) = cap" using assms(7,8) by (simp add: distinct_card)
  then show ?thesis using cached_names_full [OF run(3) _ assms(10)] run(1) create by auto
qed

theorem creation_never_returns_witness:
  "\<exists>s. create_all yes_env ''u'' [''a'', ''b''] (one_server\<lparr>nm_cache := init_cache 2\<rparr>, ()) = Some s \<and>
    handle_create yes_env s (create_request ''u'' ''c'') = None"
proof -
  have "nm_ss_list one_server \<noteq> []" "\<forall>s \<in> set (nm_ss_list one_server). 0 \<le> si_id s"
    using one_server_fields(3) by (auto simp: map_eq_Cons_conv)
  then show ?thesis
    using creation_never_returns [of yes_env "one_server\<lparr>nm_cache := init_cache 2\<rparr>" 2 "[''a'', ''b'']" "''c''" "''u''" "()"]
    by (simp add: accepting_def yes_env_def one_server_fields del: create_all.simps)
qed

end
