(* ===== verification/System.thy ===== *)
theory System
  imports ServerSafety NameRaces
begin

text \<open>
  The name server and its storage servers together: the command socket of a slot of the name
  server leads to \<^verbatim>\<open>handle_nm_communication\<close> of a storage server, and every message
  crosses the wire format of \<^verbatim>\<open>common.c\<close>.
\<close>

section \<open>The network\<close>

definition wire :: "message \<Rightarrow> message" where
  "wire m = deserialize_message (serialize_message m)"

text \<open>Without an answer the receive buffer of the caller holds what was on its stack.\<close>

definition network ::
  "kernel \<Rightarrow> message \<Rightarrow> storage_server list \<Rightarrow> nat \<Rightarrow> message \<Rightarrow> storage_server list \<times> int \<times> message" where
  "network k stack ws i msg =
     (if i < length ws
      then (case handle_nm_request k (ws ! i) (wire msg) of
              Some (ss', resp) \<Rightarrow> (ws[i := ss'], 0, wire resp)
            | None \<Rightarrow> (ws, - 1, stack))
      else (ws, - 1, stack))"

definition name_ok :: "nat \<Rightarrow> string \<Rightarrow> bool" where
  "name_ok n s \<longleftrightarrow> length s < n \<and> NUL \<notin> set s \<and> BAR \<notin> set s"

lemma wire_id:
  assumes "message_ok m" and "bar_free m" and "length (m_target_path m) < MAX_FILENAME"
  shows "wire m = m"
  using deserialize_serialize [OF assms(1,2)] assms(3) by (simp add: wire_def c_copy_fits)

text \<open>The sender arrives whatever the later fields hold: nothing that a user types comes before it.\<close>

lemma loop_sender: "3 \<le> f \<Longrightarrow> m_sender (deserialize_loop f p msg) = m_sender msg"
proof (induction f p msg rule: deserialize_loop.induct)
  case (1 f p msg)
  have "m_sender (store_field f t msg) = m_sender msg" for t
    using "1.prems" by (simp add: store_field_def)
  then show ?case
    using 1 by (subst deserialize_loop.simps) (auto simp: Let_def split: prod.split option.split)
qed

lemma wire_sender:
  assumes "name_ok MAX_USERNAME (m_sender m)"
  shows "m_sender (wire m) = m_sender m"
proof -
  define rest where "rest = c_str (m_filename m @ BAR # m_foldername m @ BAR # m_target_path m @ BAR #
     show_int (m_sentence_index m) @ BAR # show_int (m_word_index m) @ BAR # show_int (m_ss_id m) @ BAR # show_int (m_client_port m) @ BAR #
     show_int (m_nm_port m) @ BAR # show_int (m_access m) @ BAR # m_target_user m @ BAR # m_checkpoint_tag m @ BAR # m_data m)"
  have app: "NUL \<notin> set a \<Longrightarrow> c_str (a @ b) = a @ c_str b" for a b
    unfolding c_str_def by (rule takeWhile_append2) auto
  have bar: "c_str (BAR # b) = BAR # c_str b" for b by (simp add: c_str_def)
  have sender: "NUL \<notin> set (m_sender m)" "BAR \<notin> set (m_sender m)" "length (m_sender m) < MAX_USERNAME"
    using assms by (simp_all add: name_ok_def)
  have line: "c_str (serialize_message m) = show_int (m_type m) @ BAR # show_int (m_status m) @ BAR # m_sender m @ BAR # rest"
    by (simp add: serialize_message_def app bar sender rest_def)
  have token: "next_token f (t @ BAR # r) = (t, Some r)" if "BAR \<notin> set t" "f \<noteq> 14" for f t r
    using that by (simp add: next_token_def)
  have "deserialize_loop 0 (show_int (m_type m) @ BAR # show_int (m_status m) @ BAR # m_sender m @ BAR # rest) init_message =
      deserialize_loop 3 rest (store_field 2 (take (MAX_BUFFER - 1) (m_sender m))
        (store_field 1 (take (MAX_BUFFER - 1) (show_int (m_status m))) (store_field 0 (take (MAX_BUFFER - 1) (show_int (m_type m))) init_message)))"
    by (subst deserialize_loop.simps, simp add: token, subst deserialize_loop.simps, simp add: token,
        subst deserialize_loop.simps, simp add: token sender eval_nat_numeral)
  then have "m_sender (wire m) = m_sender (store_field 2 (take (MAX_BUFFER - 1) (m_sender m))
        (store_field 1 (take (MAX_BUFFER - 1) (show_int (m_status m))) (store_field 0 (take (MAX_BUFFER - 1) (show_int (m_type m))) init_message)))"
    by (simp add: wire_def deserialize_message_def line loop_sender)
  then show ?thesis
    using sender(3) by (simp add: store_field_def c_copy_def)
qed

lemma wire_file_request:
  assumes "name_ok MAX_FILENAME f" and "int32 t"
  shows "wire (init_message\<lparr>m_type := t, m_filename := f\<rparr>) = init_message\<lparr>m_type := t, m_filename := f\<rparr>"
  using assms
  by (intro wire_id) (simp_all add: message_ok_def bar_free_def init_message_def int32_def buffer_ok_def name_ok_def)

lemma wire_response:
  assumes "int32 i" and "int32 status" and "buffer_ok MAX_BUFFER d"
  shows "wire (init_message\<lparr>m_ss_id := i, m_status := status, m_data := d\<rparr>) =
    init_message\<lparr>m_ss_id := i, m_status := status, m_data := d\<rparr>"
  using assms
  by (intro wire_id) (simp_all add: message_ok_def bar_free_def init_message_def int32_def buffer_ok_def)

section \<open>Deleting a file that is being edited\<close>

text \<open>
  C19. A file with an open write session cannot be deleted: whoever asks the name server,
  the answer is an error and nothing changes, neither at the name server nor at the storage
  server, as long as the storage server is in a reachable state.
\<close>

theorem delete_refused_while_editing:
  assumes "exchange env = network k stack" and "files_of nm (m_filename msg) = Some m"
    and "server_slot nm (fm_ss_id m) = Some i" and "i < length ws" and "ss_reachable (ws ! i)"
    and "s \<in> set (ss_sessions (ws ! i))" and "ws_filename s = m_filename msg"
    and "name_ok MAX_FILENAME (m_filename msg)" and "int32 (ss_id (ws ! i))"
  shows "\<exists>status. handle_delete env (nm, ws) msg = Some ((nm, ws), answer status) \<and>
    status = (if fm_owner m = m_sender msg then ERR_FILE_LOCKED else ERR_NOT_OWNER)"
proof -
  let ?check = "init_message\<lparr>m_type := MSG_CHECK_LOCKS, m_filename := m_filename msg\<rparr>"
  have sent: "wire ?check = ?check" by (rule wire_file_request [OF assms(8)]) (simp add: int32_def)
  have "handle_nm_request k (ws ! i) ?check =
      Some (ws ! i, init_message\<lparr>m_ss_id := ss_id (ws ! i), m_status := ERR_FILE_LOCKED\<rparr>)"
    by (rule lock_check_sees_sessions [OF assms(5,6)]) (simp_all add: assms(7) init_message_def)
  then have "exchange env ws i ?check = (ws, 0, init_message\<lparr>m_ss_id := ss_id (ws ! i), m_status := ERR_FILE_LOCKED\<rparr>)"
    using assms(4,9) sent wire_response [of "ss_id (ws ! i)" ERR_FILE_LOCKED "[]"]
    by (simp add: assms(1) network_def int32_def buffer_ok_def) (simp add: init_message_def)
  then show ?thesis using assms(2,3) by (simp add: handle_delete_def Let_def)
qed

section \<open>Creating a file\<close>

text \<open>A name that a lookup has just found can be put again.\<close>

lemma put_after_get:
  assumes "cache_rep c xs" and "cache_get c key = Some (c', Some v)"
  shows "cache_put c' key v' \<noteq> None"
proof -
  obtain s where p: "probe (capacity c) (occupied_by_other c key) (hash_string key (capacity c)) = Some s"
    using assms(2) by (auto simp: cache_get_def split: option.splits)
  have "hash_string key (capacity c) < capacity c" using rep_capacity [OF assms(1)] by simp
  from probe_SomeD [OF this p] have s: "s < capacity c" "\<not> occupied_by_other c key s" by blast+
  have c': "c' = c\<lparr>heap := move_to_head (head_ptr c) (heap c) (hash_table c ! s)\<rparr>"
    using assms(2) p by (auto simp: cache_get_def Let_def split: if_splits)
  obtain ys where rep: "cache_rep c' ys" using get_rep [OF assms] by blast
  have "\<not> occupied_by_other c' key s" "s < capacity c'" using s by (simp_all add: c' occupied_by_other_def)
  then show ?thesis by (cases rule: cache_put_cases [OF rep, of key v']) auto
qed

lemma create_file_on_disk:
  assumes "create_file_ss ss f = Some (ss', status)"
  shows "status \<in> {SUCCESS, ERR_FILE_EXISTS, ERR_SERVER_ERROR}" and "ss_path ss' = ss_path ss" "ss_id ss' = ss_id ss"
    and "status = SUCCESS \<Longrightarrow> contents (ss_disk ss') (file_path ss f) = Some []"
  using assms by (auto simp: create_file_ss_def fs_write_def Let_def split: if_splits option.splits)

lemma nm_create:
  "handle_nm_request k ss (init_message\<lparr>m_type := MSG_CREATE, m_filename := f\<rparr>) =
   map_option (\<lambda>(ss', status). (ss', init_message\<lparr>m_ss_id := ss_id ss, m_status := status\<rparr>)) (create_file_ss ss f)"
  by (simp add: handle_nm_request_def init_message_def Let_def split: option.split)

lemma create_exchange:
  assumes "exchange env = network k stack" and "i < length ws" and "name_ok MAX_FILENAME f"
    and "int32 (ss_id (ws ! i))" and "m_status stack \<noteq> SUCCESS"
    and "exchange env ws i (init_message\<lparr>m_type := MSG_CREATE, m_filename := f\<rparr>) = (ws', rc, resp)"
    and "m_status resp = SUCCESS"
  obtains ss' where "ws' = ws[i := ss']" "ss_path ss' = ss_path (ws ! i)"
    "contents (ss_disk ss') (file_path ss' f) = Some []"
proof -
  let ?msg = "init_message\<lparr>m_type := MSG_CREATE, m_filename := f\<rparr>"
  have sent: "wire ?msg = ?msg" by (rule wire_file_request [OF assms(3)]) (simp add: int32_def)
  obtain ss' status where create: "create_file_ss (ws ! i) f = Some (ss', status)"
    and out: "ws' = ws[i := ss']" "resp = wire (init_message\<lparr>m_ss_id := ss_id (ws ! i), m_status := status\<rparr>)"
    using assms(2,5-7) sent by (auto simp: assms(1) network_def nm_create split: option.splits)
  note facts = create_file_on_disk [OF create]
  have "int32 status" using facts(1) by (auto simp: int32_def)
  then have "resp = init_message\<lparr>m_ss_id := ss_id (ws ! i), m_status := status\<rparr>"
    using wire_response [OF assms(4), of status "[]"] out(2) by (simp add: buffer_ok_def) (simp add: init_message_def)
  then have "status = SUCCESS" using assms(7) by simp
  with facts(2,4) have "contents (ss_disk ss') (file_path ss' f) = Some []" by (simp add: file_path_def)
  with that out(1) facts(2) show thesis by blast
qed

text \<open>The steps of a successful creation.\<close>

lemma handle_create_success:
  assumes "handle_create env (nm, w) msg = Some ((nm', w'), answer SUCCESS)"
  obtains nm1 sid i rc resp cache where "get_next_ss_round_robin nm = (nm1, sid)" "0 \<le> sid" "server_slot nm1 sid = Some i"
    "exchange env w i (init_message\<lparr>m_type := MSG_CREATE, m_filename := m_filename msg\<rparr>) = (w', rc, resp)"
    "m_status resp = SUCCESS" "cache_put (nm_cache nm) (m_filename msg) (new_file_metadata (clock env) msg sid) = Some cache"
    "nm' = nm1\<lparr>nm_files := fst (trie_insert (nm_files nm) (m_filename msg) (new_file_metadata (clock env) msg sid)),
       nm_cache := cache\<rparr>"
proof -
  obtain nm1 sid where rr: "get_next_ss_round_robin nm = (nm1, sid)" by fastforce
  have same: "nm_files nm1 = nm_files nm" "nm_cache nm1 = nm_cache nm"
    using rr by (auto simp: get_next_ss_round_robin_def split: if_splits)
  have neq: "answer e \<noteq> answer SUCCESS" if "e \<noteq> SUCCESS" for e using that by (simp add: init_message_def)
  have "0 \<le> sid" "server_slot nm1 sid \<noteq> None"
    using assms rr neq by (auto simp: handle_create_def split: if_splits option.splits)
  then obtain i where i: "server_slot nm1 sid = Some i" by blast
  obtain w1 rc resp where ex: "exchange env w i (init_message\<lparr>m_type := MSG_CREATE, m_filename := m_filename msg\<rparr>) =
    (w1, rc, resp)" by (metis prod_cases3)
  show thesis
    using that [OF rr \<open>0 \<le> sid\<close> i] assms rr i ex same neq \<open>0 \<le> sid\<close>
    by (auto simp: handle_create_def Let_def split: if_splits Option.bind_splits)
qed

lemma redirect_after_put:
  assumes "cache_rep c xs" and "cache_put c f meta = Some (nm_cache nm)" and "files_of nm f = Some meta"
    and "0 \<le> fm_ss_id meta" and "server_slot nm (fm_ss_id meta) = Some i" and "m_filename rd = f"
    and "fm_owner meta = m_sender rd" and "length f < MAX_FILENAME"
  shows "\<exists>nm'. handle_redirect env (nm, w) rd resp = Some ((nm', w),
    resp\<lparr>m_type := MSG_DATA, m_data := server_address (nm_ss_list nm ! i), m_status := SUCCESS\<rparr>)"
proof -
  obtain c' where get: "cache_get (nm_cache nm) f = Some (c', Some meta)"
    using put_then_get [OF assms(1,2,8)] by blast
  obtain ys where "cache_rep (nm_cache nm) ys" using put_rep [OF assms(1,2)] by blast
  from put_after_get [OF this get] obtain c'' where
    put: "cache_put c' f (touch_metadata (clock env) (m_sender rd) meta) = Some c''" by blast
  have find: "find_ss_for_file nm f = Some (nm\<lparr>nm_cache := c'\<rparr>, fm_ss_id meta)"
    using get by (simp add: find_ss_for_file_def)
  have slot: "server_slot (nm\<lparr>nm_cache := c'\<rparr>) (fm_ss_id meta) = Some i"
    using assms(5) by (simp add: server_slot_def)
  have access: "check_access nm f (m_sender rd) required" for required
    using assms(3,7) by (simp add: check_access_def meta_allows_def)
  show ?thesis
    using assms(3,4,6) find slot access put
    by (simp add: handle_redirect_def record_access_def store_metadata_def)
qed

text \<open>
  C18. A file that was created is there: after a creation with an ASCII name that is answered with success,
  every redirection of its owner names a storage server, and a read at that server finds
  the file, empty. The messages pass through the wire format in both directions. The buffer into which the name server receives
  the answer of the storage server is not initialised; the theorem is about runs in which its old status is not
  the one of a success, which the code would take for the answer of a server that failed to give one.
\<close>

theorem created_file_is_served:
  assumes "exchange env = network k stack" and "m_status stack \<noteq> SUCCESS" and "nm_reachable (nm, ws)"
    and "length ws = length (nm_ss_list nm)" and "\<forall>ss \<in> set ws. int32 (ss_id ss)"
    and "name_ok MAX_FILENAME (m_filename msg)" and "ascii_name (m_filename msg)"
    and "handle_create env (nm, ws) msg = Some ((nm', ws'), answer SUCCESS)"
    and "m_filename rd = m_filename msg" and "m_sender rd = m_sender msg"
  shows "\<exists>i nm''. i < length ws' \<and>
    handle_redirect env' (nm', ws') rd resp = Some ((nm'', ws'),
      resp\<lparr>m_type := MSG_DATA, m_data := server_address (nm_ss_list nm' ! i), m_status := SUCCESS\<rparr>) \<and>
    handle_client_request k' (ws' ! i) (rd\<lparr>m_type := MSG_READ\<rparr>) = Some (ws' ! i, [(reply SUCCESS)\<lparr>m_data := []\<rparr>])"
proof -
  let ?meta = "\<lambda>sid. new_file_metadata (clock env) msg sid"
  from assms(8) obtain nm1 sid i rc rs cache where rr: "get_next_ss_round_robin nm = (nm1, sid)" "0 \<le> sid"
    and slot: "server_slot nm1 sid = Some i"
    and ex: "exchange env ws i (init_message\<lparr>m_type := MSG_CREATE, m_filename := m_filename msg\<rparr>) = (ws', rc, rs)"
      "m_status rs = SUCCESS" and put: "cache_put (nm_cache nm) (m_filename msg) (?meta sid) = Some cache"
    and nm': "nm' = nm1\<lparr>nm_files := fst (trie_insert (nm_files nm) (m_filename msg) (?meta sid)), nm_cache := cache\<rparr>"
    by (rule handle_create_success)
  have list1: "nm_ss_list nm1 = nm_ss_list nm"
    using rr(1) by (auto simp: get_next_ss_round_robin_def split: if_splits)
  have i: "i < length ws"
    using find_index_SomeD [OF slot [unfolded server_slot_def]] list1 assms(4) by simp
  have "int32 (ss_id (ws ! i))" using i assms(5) by simp
  then obtain ss' where ws': "ws' = ws[i := ss']" "contents (ss_disk ss') (file_path ss' (m_filename msg)) = Some []"
    by (rule create_exchange [OF assms(1) i assms(6) _ assms(2) ex])
  obtain xs where rep: "cache_rep (nm_cache nm) xs"
    using reachable_ok [OF assms(3)] by (auto simp: nm_ok_def cache_sound_def)
  have meta: "fm_ss_id (?meta sid) = sid" "fm_owner (?meta sid) = m_sender msg" by (simp_all add: new_file_metadata_def)
  have "\<exists>nm''. handle_redirect env' (nm', ws') rd resp = Some ((nm'', ws'),
      resp\<lparr>m_type := MSG_DATA, m_data := server_address (nm_ss_list nm' ! i), m_status := SUCCESS\<rparr>)"
  proof (rule redirect_after_put [OF rep])
    show "cache_put (nm_cache nm) (m_filename msg) (?meta sid) = Some (nm_cache nm')" using put by (simp add: nm')
    show "files_of nm' (m_filename msg) = Some (?meta sid)" using assms(7) by (simp add: nm' file_trie.insert_fun)
    show "server_slot nm' (fm_ss_id (?meta sid)) = Some i" using slot by (simp add: nm' meta server_slot_def)
  qed (use assms(6,9,10) rr(2) in \<open>simp_all add: meta name_ok_def\<close>)
  moreover have "handle_client_request k' ss' (rd\<lparr>m_type := MSG_READ\<rparr>) = Some (ss', [(reply SUCCESS)\<lparr>m_data := []\<rparr>])"
    using ws'(2) assms(9) by (simp add: handle_client_request_def read_file_ss_def fs_read_def c_str_def)
  ultimately show ?thesis using ws'(1) i by (intro exI [of _ i]) auto
qed

definition net_env :: "storage_server list nm_env" where
  "net_env = \<lparr>clock = 5, time_text = show_int, shell = (\<lambda>s. None),
     exchange = network example_kernel (answer ERR_SERVER_ERROR)\<rparr>"

definition empty_storage :: storage_server where
  "empty_storage = server_with (\<lambda>p. None) [] [] []"

lemma one_server_list: "length (nm_ss_list one_server) = 1"
  using one_server_fields(3) by (metis length_map list.size(3,4) One_nat_def add_0)

lemma f_name: "name_ok MAX_FILENAME ''f''" "ascii_name ''f''"
  by (simp_all add: name_ok_def char_index_def)

lemma net_create:
  "exchange net_env [empty_storage] 0 (init_message\<lparr>m_type := MSG_CREATE, m_filename := ''f''\<rparr>) =
   ([server_with [''s/f'' \<mapsto> []] [(''f'', [free_lock])] [] []], 0, init_message\<lparr>m_ss_id := 1, m_status := SUCCESS\<rparr>)"
proof -
  have "create_file_ss empty_storage ''f'' = Some (server_with [''s/f'' \<mapsto> []] [(''f'', [free_lock])] [] [], SUCCESS)"
    by (simp add: create_file_ss_def empty_storage_def server_with_def file_path_def fs_exists_def fs_write_def
        fs_writable_def parent_dir_def init_file_locks_def c_copy_fits)
  then have "handle_nm_request example_kernel empty_storage (init_message\<lparr>m_type := MSG_CREATE, m_filename := ''f''\<rparr>) =
    Some (server_with [''s/f'' \<mapsto> []] [(''f'', [free_lock])] [] [], init_message\<lparr>m_ss_id := 1, m_status := SUCCESS\<rparr>)"
    by (simp add: nm_create empty_storage_def server_with_def)
  moreover have "wire (init_message\<lparr>m_type := MSG_CREATE, m_filename := ''f''\<rparr>) = init_message\<lparr>m_type := MSG_CREATE, m_filename := ''f''\<rparr>"
    by (rule wire_file_request [OF f_name(1)]) (simp add: int32_def)
  moreover have "wire (init_message\<lparr>m_ss_id := 1, m_status := SUCCESS\<rparr>) = init_message\<lparr>m_ss_id := 1, m_status := SUCCESS\<rparr>"
    using wire_response [of 1 SUCCESS "[]"] by (simp add: int32_def buffer_ok_def init_message_def)
  ultimately show ?thesis by (simp add: net_env_def network_def)
qed

theorem created_file_is_served_witness:
  "\<exists>nm' ws' nm''. handle_create net_env (one_server, [empty_storage]) (file_request MSG_CREATE ''a'') =
      Some ((nm', ws'), answer SUCCESS) \<and>
    handle_redirect net_env (nm', ws') (file_request MSG_READ ''a'') init_message = Some ((nm'', ws'),
      init_message\<lparr>m_type := MSG_DATA, m_data := server_address (nm_ss_list nm' ! 0), m_status := SUCCESS\<rparr>)"
proof -
  have room: "cache_room (Suc 90) (init_cache CACHE_SIZE :: file_metadata lru_cache)"
    by (rule cache_room_init) simp
  obtain c :: "file_metadata lru_cache" where c: "cache_put (init_cache CACHE_SIZE) ''f'' file_of_a = Some c"
    by (rule cache_room_put [OF room, of "''f''" file_of_a]) auto
  define ws' where "ws' = [server_with [''s/f'' \<mapsto> []] [(''f'', [free_lock])] [] []]"
  have meta: "new_file_metadata (clock net_env) (file_request MSG_CREATE ''a'') 1 = file_of_a"
    by (simp add: net_env_def file_of_a_def)
  obtain nm' where run: "handle_create net_env (one_server, [empty_storage]) (file_request MSG_CREATE ''a'') =
      Some ((nm', ws'), answer SUCCESS)"
    using c net_create by (auto simp: handle_create_def one_server_fields one_server_robin one_server_slot search_init
        meta ws'_def Let_def)
  note reach = one_server_reachable [of "[empty_storage]"]
  have "\<exists>i nm''. i < length ws' \<and>
    handle_redirect net_env (nm', ws') (file_request MSG_READ ''a'') init_message = Some ((nm'', ws'),
      init_message\<lparr>m_type := MSG_DATA, m_data := server_address (nm_ss_list nm' ! i), m_status := SUCCESS\<rparr>) \<and>
    handle_client_request example_kernel (ws' ! i) ((file_request MSG_READ ''a'')\<lparr>m_type := MSG_READ\<rparr>) =
      Some (ws' ! i, [(reply SUCCESS)\<lparr>m_data := []\<rparr>])"
    by (rule created_file_is_served [of net_env example_kernel "answer ERR_SERVER_ERROR", OF _ _ reach _ _ _ _ run])
      (simp_all add: net_env_def one_server_list f_name empty_storage_def server_with_def int32_def char_index_def)
  then show ?thesis using run by (auto simp: ws'_def)
qed

section \<open>Moving a file\<close>

lemma nm_move:
  "handle_nm_request k ss (init_message\<lparr>m_type := MSG_MOVE, m_filename := f, m_target_path := d, m_data := old\<rparr>) =
   (case move_file_ss ss f old d of (ss', status) \<Rightarrow> Some (ss', init_message\<lparr>m_ss_id := ss_id ss, m_status := status\<rparr>))"
  by (simp add: handle_nm_request_def init_message_def Let_def)

lemma move_status: "snd (move_file_ss ss f old d) \<in> {SUCCESS, ERR_SERVER_ERROR}"
  by (simp add: move_file_ss_def Let_def split: prod.splits)

lemma undo_path_length: "length p < MAX_PATH \<Longrightarrow> length p \<le> length (undo_path p)"
  by (simp add: undo_path_def c_copy_def)

text \<open>After the two renamings of a move from the root, nothing is left under the old path.\<close>

lemma moved_away:
  assumes "move_file_ss ss f [] d = (ss', SUCCESS)" and "\<not> is_root d"
    and "length (ss_path ss @ d @ ''/'' @ f) < MAX_PATH" and "\<not> dirs (ss_disk ss) (file_path ss f)"
  shows "read_file_ss ss' f = ([], ERR_FILE_NOT_FOUND)" and "ss_id ss' = ss_id ss"
proof -
  define old where "old = file_path ss f"
  define new where "new = ss_path ss @ d @ ''/'' @ f"
  have paths: "folder_file_path ss [] f = old" "folder_file_path ss d f = new"
    using assms(2,3) by (simp_all add: folder_file_path_def old_def new_def file_path_def is_root_def c_copy_fits)
  have d: "d \<noteq> []" using assms(2) by (simp add: is_root_def)
  then have longer: "length old < length new" "length new < MAX_PATH"
    using assms(3) by (auto simp: old_def new_def file_path_def c_copy_def)
  then have neq: "undo_path new \<noteq> old" "new \<noteq> old" using undo_path_length [of new] by auto
  obtain fs1 where fs1: "fs_rename (ss_disk ss) old new = (fs1, 0)"
    and ss': "ss' = ss\<lparr>ss_disk := fst (fs_rename fs1 (undo_path old) (undo_path new))\<rparr>"
    using assms(1) by (auto simp: move_file_ss_def paths Let_def split: prod.splits if_splits)
  have "contents fs1 old = None \<and> dirs fs1 = dirs (ss_disk ss)"
    using fs1 neq(2) by (auto simp: fs_rename_def split: option.splits if_splits)
  then have "contents (ss_disk ss') old = None \<and> dirs (ss_disk ss') = dirs (ss_disk ss)"
    using neq(1) by (auto simp: ss' fs_rename_def split: option.splits)
  then have "fs_read (ss_disk ss') (file_path ss' f) = None"
    using assms(4) by (simp add: fs_read_def old_def ss' file_path_def)
  then show "read_file_ss ss' f = ([], ERR_FILE_NOT_FOUND)" by (simp add: read_file_ss_def)
  show "ss_id ss' = ss_id ss" by (simp add: ss')
qed

text \<open>
  A moved file is lost to its readers: the storage server moves the file into the
  directory of the folder, but reads and writes keep looking for it in the root. After a
  move into a folder that was answered with SUCCESS, every read of the file is answered
  with 404, although the name server lists it.
\<close>

theorem moved_file_unreadable:
  assumes "exchange env = network k stack" and "m_status stack \<noteq> SUCCESS"
    and "files_of nm (m_filename msg) = Some m" and "fm_folder_path m = []" and "\<not> is_root (m_target_path msg)"
    and "active_server_slot nm (fm_ss_id m) = Some i" and "i < length ws" and "int32 (ss_id (ws ! i))"
    and "name_ok MAX_FILENAME (m_filename msg)" and "name_ok MAX_FILENAME (m_target_path msg)"
    and "length (ss_path (ws ! i) @ m_target_path msg @ ''/'' @ m_filename msg) < MAX_PATH"
    and "\<not> dirs (ss_disk (ws ! i)) (file_path (ws ! i) (m_filename msg))"
    and "handle_move env (nm, ws) msg = Some ((nm', ws'), answer SUCCESS)"
    and "m_type rd = MSG_READ" and "m_filename rd = m_filename msg"
  shows "files_of nm' (m_filename msg) = Some (m\<lparr>fm_folder_path := m_target_path msg\<rparr>) \<and>
    handle_client_request k' (ws' ! i) rd = Some (ws' ! i, [(reply ERR_FILE_NOT_FOUND)\<lparr>m_data := []\<rparr>])"
proof -
  let ?mv = "init_message\<lparr>m_type := MSG_MOVE, m_filename := m_filename msg, m_target_path := m_target_path msg, m_data := []\<rparr>"
  have sent: "wire ?mv = ?mv"
    using assms(9,10) by (intro wire_id) (simp_all add: message_ok_def bar_free_def init_message_def int32_def buffer_ok_def name_ok_def)
  obtain ss' status where mv: "move_file_ss (ws ! i) (m_filename msg) [] (m_target_path msg) = (ss', status)" by fastforce
  have st: "status \<in> {SUCCESS, ERR_SERVER_ERROR}" using move_status [of "ws ! i" "m_filename msg" "[]"] mv by (metis snd_conv)
  then have "int32 status" by (auto simp: int32_def)
  then have "wire (init_message\<lparr>m_ss_id := ss_id (ws ! i), m_status := status\<rparr>) =
      init_message\<lparr>m_ss_id := ss_id (ws ! i), m_status := status\<rparr>"
    using wire_response [OF assms(8), of status "[]"] by (simp add: buffer_ok_def) (simp add: init_message_def)
  then have ex: "exchange env ws i ?mv = (ws[i := ss'], 0, init_message\<lparr>m_ss_id := ss_id (ws ! i), m_status := status\<rparr>)"
    using assms(7) sent mv by (simp add: assms(1) network_def nm_move)
  have neq: "answer e \<noteq> answer SUCCESS" if "e \<noteq> SUCCESS" for e using that by (simp add: init_message_def)
  have ok: "status = SUCCESS" "ws' = ws[i := ss']"
    and st: "store_metadata nm (m_filename msg) (m\<lparr>fm_folder_path := m_target_path msg\<rparr>) = Some nm'"
    using assms(3,4,6,13) ex neq by (auto simp: handle_move_def Let_def split: if_splits Option.bind_splits)
  have "read_file_ss ss' (m_filename msg) = ([], ERR_FILE_NOT_FOUND)"
    by (rule moved_away(1) [OF mv [unfolded ok(1)] assms(5,11,12)])
  then have "handle_client_request k' ss' rd = Some (ss', [(reply ERR_FILE_NOT_FOUND)\<lparr>m_data := []\<rparr>])"
    using assms(14,15) by (simp add: handle_client_request_def)
  then show ?thesis using store_metadata_files [OF st assms(3)] ok(2) assms(7) by simp
qed

definition stored_file :: storage_server where
  "stored_file = (server_with [''s/f'' \<mapsto> ''x''] [] [] [])
     \<lparr>ss_disk := \<lparr>contents = [''s/f'' \<mapsto> ''x''], dirs = (\<lambda>q. q = ''s'' \<or> q = ''s/d''), permitted = (\<lambda>q. True)\<rparr>\<rparr>"

definition with_folder :: name_server where
  "with_folder = created_server\<lparr>nm_folders := fst (folder_trie_insert init_folder_trie ''/d''
     \<lparr>fo_foldername = ''d'', fo_parent_path = [], fo_owner = ''a'', fo_created = 0, fo_ss_id = 1, fo_acl = []\<rparr>)\<rparr>"

definition move_message :: message where
  "move_message = (file_request MSG_MOVE ''a'')\<lparr>m_target_path := ''/d''\<rparr>"

lemma stored_move:
  "\<exists>ss'. move_file_ss stored_file ''f'' [] ''/d'' = (ss', SUCCESS)"
  by (simp add: move_file_ss_def stored_file_def server_with_def folder_file_path_def c_copy_fits fs_rename_def
      fs_writable_def parent_dir_def Let_def undo_path_def split: prod.splits)

lemma net_move:
  "\<exists>ws'. exchange net_env [stored_file] 0 (init_message\<lparr>m_type := MSG_MOVE, m_filename := ''f'',
      m_target_path := ''/d'', m_data := []\<rparr>) = (ws', 0, init_message\<lparr>m_ss_id := 1, m_status := SUCCESS\<rparr>)"
proof -
  let ?mv = "init_message\<lparr>m_type := MSG_MOVE, m_filename := ''f'', m_target_path := ''/d'', m_data := []\<rparr>"
  obtain ss' where "move_file_ss stored_file ''f'' [] ''/d'' = (ss', SUCCESS)" using stored_move by blast
  then have "handle_nm_request example_kernel stored_file ?mv = Some (ss', init_message\<lparr>m_ss_id := 1, m_status := SUCCESS\<rparr>)"
    by (simp add: nm_move) (simp add: stored_file_def server_with_def)
  moreover have "wire ?mv = ?mv"
    by (rule wire_id) (simp_all add: message_ok_def bar_free_def init_message_def int32_def buffer_ok_def)
  moreover have "wire (init_message\<lparr>m_ss_id := 1, m_status := SUCCESS\<rparr>) = init_message\<lparr>m_ss_id := 1, m_status := SUCCESS\<rparr>"
    using wire_response [of 1 SUCCESS "[]"] by (simp add: int32_def buffer_ok_def init_message_def)
  ultimately show ?thesis by (simp add: net_env_def network_def)
qed

theorem moved_file_unreadable_witness:
  "\<exists>nm' ws'. handle_move net_env (with_folder, [stored_file]) move_message = Some ((nm', ws'), answer SUCCESS) \<and>
    handle_client_request example_kernel (ws' ! 0) (file_request MSG_READ ''a'') =
      Some (ws' ! 0, [(reply ERR_FILE_NOT_FOUND)\<lparr>m_data := []\<rparr>])"
proof -
  have files: "files_of with_folder ''f'' = Some file_of_a" by (simp add: with_folder_def created_files)
  have root: "fm_folder_path file_of_a = []" by (simp add: file_of_a_def new_file_metadata_def)
  have slot: "active_server_slot with_folder (fm_ss_id file_of_a) = Some 0"
    using created_active(1) by (simp add: with_folder_def active_server_slot_def)
  have folder: "folder_trie_search (nm_folders with_folder) ''/d'' \<noteq> None"
    by (simp add: with_folder_def folder_trie.insert_fun char_index_def)
  have msg: "m_filename move_message = ''f''" "m_sender move_message = ''a''" "m_target_path move_message = ''/d''"
    by (simp_all add: move_message_def)
  obtain ws' where ex: "exchange net_env [stored_file] 0 (init_message\<lparr>m_type := MSG_MOVE, m_filename := ''f'',
      m_target_path := ''/d'', m_data := []\<rparr>) = (ws', 0, init_message\<lparr>m_ss_id := 1, m_status := SUCCESS\<rparr>)"
    using net_move by blast
  obtain nm' where st: "store_metadata with_folder ''f'' (file_of_a\<lparr>fm_folder_path := ''/d''\<rparr>) = Some nm'"
    using store_returns [of 89 with_folder "''f''"] created_fields(3) by (auto simp: with_folder_def)
  have run: "handle_move net_env (with_folder, [stored_file]) move_message = Some ((nm', ws'), answer SUCCESS)"
    using files root slot folder ex st msg by (auto simp: handle_move_def)
  have "files_of nm' (m_filename move_message) = Some (file_of_a\<lparr>fm_folder_path := m_target_path move_message\<rparr>) \<and>
    handle_client_request example_kernel (ws' ! 0) (file_request MSG_READ ''a'') =
      Some (ws' ! 0, [(reply ERR_FILE_NOT_FOUND)\<lparr>m_data := []\<rparr>])"
    by (rule moved_file_unreadable [of net_env example_kernel "answer ERR_SERVER_ERROR", OF _ _ _ root _ slot _ _ _ _ _ _ run])
      (simp_all add: net_env_def files msg is_root_def name_ok_def stored_file_def server_with_def int32_def
        file_path_def c_copy_fits)
  then show ?thesis using run by blast
qed

theorem delete_refused_while_editing_witness:
  "handle_delete net_env (created_server, [opened_server]) (file_request MSG_DELETE ''a'') =
     Some ((created_server, [opened_server]), answer ERR_FILE_LOCKED)"
proof -
  have "\<exists>status. handle_delete net_env (created_server, [opened_server]) (file_request MSG_DELETE ''a'') =
      Some ((created_server, [opened_server]), answer status) \<and>
    status = (if fm_owner file_of_a = m_sender (file_request MSG_DELETE ''a'') then ERR_FILE_LOCKED else ERR_NOT_OWNER)"
    by (rule delete_refused_while_editing [of net_env example_kernel "answer ERR_SERVER_ERROR" _ _ _ 0 _ "hd (ss_sessions opened_server)"])
      (simp_all add: net_env_def created_files created_active opened_reachable f_name,
       simp_all add: opened_server_def server_with_def int32_def)
  then show ?thesis by simp
qed

end
