(* ===== verification/ClientText.thy ===== *)
theory ClientText
  imports Messages
begin

text \<open>
  What the client makes of the lines a user types (\<^verbatim>\<open>client.c\<close>): \<^verbatim>\<open>strtok_r\<close> over blanks for
  commands, \<^verbatim>\<open>sscanf("%d")\<close> and \<^verbatim>\<open>strchr\<close> for the lines of a write session, and
  \<^verbatim>\<open>process_escape_sequences\<close> for the text of a write. Each comes with its inverse: how a
  command or a text has to be typed to be understood.
\<close>

section \<open>Commands\<close>

definition is_sep :: "char \<Rightarrow> bool" where
  "is_sep c \<longleftrightarrow> c = SPACE \<or> c = TAB"

text \<open>The loop over \<^verbatim>\<open>strtok_r(buf, " \t", &saveptr)\<close>.\<close>

function split_command :: "string \<Rightarrow> string list" where
  "split_command line =
     (let buf = dropWhile is_sep line
      in if buf = [] then []
         else takeWhile (\<lambda>c. \<not> is_sep c) buf # split_command (drop 1 (dropWhile (\<lambda>c. \<not> is_sep c) buf)))"
  by pat_completeness auto
termination
proof (relation "measure length", simp)
  fix line :: string and buf assume "buf = dropWhile is_sep line" "buf \<noteq> []"
  moreover have "length (dropWhile is_sep line) \<le> length line" by (rule length_dropWhile_le)
  moreover have "length (dropWhile (\<lambda>c. \<not> is_sep c) buf) \<le> length buf" by (rule length_dropWhile_le)
  ultimately have "length (dropWhile (\<lambda>c. \<not> is_sep c) buf) \<le> length line" "0 < length buf" "length buf \<le> length line"
    by simp_all
  then have "length (dropWhile (\<lambda>c. \<not> is_sep c) buf) - 1 < length line" by linarith
  then show "(drop 1 (dropWhile (\<lambda>c. \<not> is_sep c) buf), line) \<in> measure length" by simp
qed

declare split_command.simps [simp del]

text \<open>
  The argument of \<^verbatim>\<open>VIEW\<close>: a blank, then the arguments with nothing between them. The words
  of a line of at most 8191 characters fit the buffer.
\<close>

definition join_tail :: "string list \<Rightarrow> string" where
  "join_tail argv = (if tl argv = [] then [] else c_copy MAX_BUFFER (SPACE # concat (tl argv)))"

section \<open>Lines of a write session\<close>

text \<open>\<^verbatim>\<open>sscanf(line, "%d", &word_idx)\<close>: the value, if one was converted\<close>

definition scan_int :: "string \<Rightarrow> int option" where
  "scan_int s =
     (let body = dropWhile c_isspace s;
          digits = (if body \<noteq> [] \<and> hd body \<in> {CHR ''-'', CHR ''+''} then tl body else body)
      in if takeWhile is_digit digits = [] then None else Some (atoi s))"

definition escape_char :: "char \<Rightarrow> char" where
  "escape_char c =
     (if c = CHR ''n'' then NEWLINE else if c = CHR ''t'' then TAB else if c = CHR ''r'' then CR
      else if c = CHR ''0'' then NUL else c)"

text \<open>The characters stored before the final NUL.\<close>

fun process_escape_sequences :: "string \<Rightarrow> string" where
  "process_escape_sequences (c # d # s) =
     (if c = CHR 0x5C then escape_char d # process_escape_sequences s
      else c # process_escape_sequences (d # s))"
| "process_escape_sequences s = s"

definition chop_newline :: "string \<Rightarrow> string" where
  "chop_newline s = (if s \<noteq> [] \<and> last s = NEWLINE then butlast s else s)"

text \<open>
  The word index and the content that is sent, as the string functions read it; \<^const>\<open>None\<close>
  for a line that is rejected as malformed.
\<close>

definition parse_write_line :: "string \<Rightarrow> (int \<times> string) option" where
  "parse_write_line line =
     (case dropWhile (\<lambda>c. c \<noteq> SPACE) line of
        [] \<Rightarrow> None
      | _ # content \<Rightarrow>
          map_option (\<lambda>k. (k, c_str (process_escape_sequences (chop_newline content)))) (scan_int line))"

section \<open>Commands and their words\<close>

abbreviation word_char :: "char \<Rightarrow> bool" where
  "word_char c \<equiv> \<not> is_sep c"

lemma split_command_blank: "dropWhile is_sep line = [] \<Longrightarrow> split_command line = []"
  by (subst split_command.simps) simp

lemma split_command_step:
  "dropWhile is_sep line = c # cs \<Longrightarrow>
   split_command line = (c # takeWhile word_char cs) # split_command (drop 1 (dropWhile word_char cs)) \<and> word_char c"
  using hd_dropWhile [of is_sep line] by (subst split_command.simps) simp

lemma split_command_Nil [simp]: "split_command [] = []"
  by (rule split_command_blank) simp

text \<open>Induction over the words of a line.\<close>

lemma split_command_induct [case_names blank word]:
  assumes "\<And>line. dropWhile is_sep line = [] \<Longrightarrow> P line"
    and "\<And>line c cs. dropWhile is_sep line = c # cs \<Longrightarrow> word_char c \<Longrightarrow>
      P (drop 1 (dropWhile word_char cs)) \<Longrightarrow> P line"
  shows "P line"
proof (induction line rule: split_command.induct)
  case (1 line)
  show ?case
  proof (cases "dropWhile is_sep line")
    case Nil
    then show ?thesis by (rule assms(1))
  next
    case (Cons c cs)
    moreover from split_command_step [OF Cons] have "word_char c" by simp
    ultimately show ?thesis using "1" [OF refl] by (intro assms(2) [OF Cons]) simp_all
  qed
qed

lemma split_command_words: "w \<in> set (split_command line) \<Longrightarrow> w \<noteq> [] \<and> list_all word_char w"
proof (induction line rule: split_command_induct)
  case (blank line)
  then show ?case by (simp add: split_command_blank)
next
  case (word line c cs)
  have first: "list_all word_char (c # takeWhile word_char cs)"
    using word(2) by (auto simp: list_all_iff dest: set_takeWhileD)
  have "w = c # takeWhile word_char cs \<or> w \<in> set (split_command (drop 1 (dropWhile word_char cs)))"
    using word(4) conjunct1 [OF split_command_step [OF word(1)]] by simp
  then show ?case using first word(3) by blast
qed

lemma filter_after_word:
  "filter word_char (dropWhile word_char cs) = filter word_char (drop 1 (dropWhile word_char cs))"
  by (induction cs) auto

lemma split_command_chars: "concat (split_command line) = filter word_char line"
proof (induction line rule: split_command_induct)
  case (blank line)
  then show ?case by (simp add: split_command_blank dropWhile_eq_Nil_conv)
next
  case (word line c cs)
  have "filter word_char line = filter word_char (takeWhile is_sep line) @ filter word_char (dropWhile is_sep line)"
    by (metis filter_append takeWhile_dropWhile_id)
  moreover have "filter word_char (takeWhile is_sep line) = []"
    by (auto simp: filter_empty_conv dest: set_takeWhileD)
  moreover have "filter word_char cs = takeWhile word_char cs @ filter word_char (dropWhile word_char cs)"
    using filter_True [of "takeWhile word_char cs" word_char]
    by (metis filter_append set_takeWhileD takeWhile_dropWhile_id)
  moreover have "filter word_char (dropWhile word_char cs) = filter word_char (drop 1 (dropWhile word_char cs))"
    by (rule filter_after_word)
  ultimately show ?case using split_command_step [OF word(1)] word by simp
qed

text \<open>Typing words with blanks between them gives back the words.\<close>

fun type_words :: "string list \<Rightarrow> string" where
  "type_words [] = []"
| "type_words [w] = w"
| "type_words (w # ws) = w @ SPACE # type_words ws"

definition plain_word :: "string \<Rightarrow> bool" where
  "plain_word w \<longleftrightarrow> w \<noteq> [] \<and> list_all word_char w"

lemma split_command_first:
  assumes "plain_word w" and "rest = [] \<or> is_sep (hd rest)"
  shows "split_command (w @ rest) = w # split_command (drop 1 rest)"
proof -
  obtain c cs where w: "w = c # cs" "word_char c" "\<forall>d \<in> set cs. word_char d"
    using assms(1) by (cases w) (auto simp: plain_word_def list_all_iff)
  have "takeWhile word_char (cs @ rest) = cs" "dropWhile word_char (cs @ rest) = rest"
    using w(3) assms(2) by (cases rest; simp add: takeWhile_append2 dropWhile_append2)+
  then show ?thesis using split_command_step [of "w @ rest" c "cs @ rest"] w(1,2) by simp
qed

lemma split_command_typed: "list_all plain_word ws \<Longrightarrow> split_command (type_words ws) = ws"
proof (induction ws rule: type_words.induct)
  case (2 w)
  then show ?case using split_command_first [of w "[]"] by simp
next
  case (3 w v ws)
  then show ?case using split_command_first [of w "SPACE # type_words (v # ws)"] by (simp add: is_sep_def)
qed simp

section \<open>Numbers\<close>

lemma read_digits_more:
  "rest = [] \<or> \<not> is_digit (hd rest) \<Longrightarrow> read_digits (show_nat n @ rest) = int n"
proof -
  assume rest: "rest = [] \<or> \<not> is_digit (hd rest)"
  have "takeWhile is_digit rest = []" using rest by (cases rest) auto
  then have "takeWhile is_digit (show_nat n @ rest) = show_nat n"
    using show_nat_digits [of n] by (simp add: takeWhile_append2)
  then show ?thesis unfolding read_digits_def by (simp only: show_nat_value)
qed

lemma atoi_show_more:
  assumes "int32 i" and "rest = [] \<or> \<not> is_digit (hd rest)"
  shows "atoi (show_int i @ rest) = i"
proof -
  note digits = read_digits_more [OF assms(2)]
  have range: "to_int32 (max (- (2 ^ 63)) (min (2 ^ 63 - 1) i)) = i"
    using assms(1) by (simp add: int32_def to_int32_def)
  show ?thesis
  proof (cases "i < 0")
    case True
    then show ?thesis using range digits by (simp add: atoi_def show_int_def c_isspace_def)
  next
    case False
    obtain c cs where c: "show_nat (nat i) = c # cs" "is_digit c" by (rule show_nat_hd)
    have "read_digits (c # cs @ rest) = i" using digits [of "nat i"] c(1) False by simp
    then show ?thesis using c digit_not_special [OF c(2)] False range by (simp add: atoi_def show_int_def)
  qed
qed

lemma scan_int_show:
  assumes "int32 i" and "rest = [] \<or> \<not> is_digit (hd rest)" and "list_all c_isspace lead"
  shows "scan_int (lead @ show_int i @ rest) = Some i"
proof -
  have lead: "dropWhile c_isspace (lead @ xs) = dropWhile c_isspace xs" for xs
    using assms(3) by (simp add: dropWhile_append2 list_all_iff)
  then have read: "atoi (lead @ show_int i @ rest) = i"
    using atoi_show_more [OF assms(1,2)] by (simp add: atoi_def)
  obtain c cs where c: "show_nat (nat i) = c # cs" "is_digit c" by (rule show_nat_hd)
  obtain d ds where d: "show_nat (nat (- i)) = d # ds" "is_digit d" by (rule show_nat_hd)
  show ?thesis
  proof (cases "i < 0")
    case True
    then have "dropWhile c_isspace (lead @ show_int i @ rest) = CHR ''-'' # d # ds @ rest"
      using d lead by (simp add: show_int_def c_isspace_def)
    then show ?thesis using read d(2) by (simp add: scan_int_def Let_def)
  next
    case False
    then have "dropWhile c_isspace (lead @ show_int i @ rest) = c # cs @ rest"
      using c lead digit_not_special [OF c(2)] by (simp add: show_int_def)
    then show ?thesis using read c(2) digit_not_special [OF c(2)] by (simp add: scan_int_def Let_def)
  qed
qed

section \<open>Typing a text\<close>

text \<open>How a text is typed in a write session: line breaks, tabs and backslashes are escaped.\<close>

definition type_char :: "char \<Rightarrow> string" where
  "type_char c =
     (if c = CHR 0x5C then [CHR 0x5C, CHR 0x5C]
      else if c = NEWLINE then [CHR 0x5C, CHR ''n'']
      else if c = TAB then [CHR 0x5C, CHR ''t'']
      else if c = CR then [CHR 0x5C, CHR ''r''] else [c])"

definition type_text :: "string \<Rightarrow> string" where
  "type_text s = concat (map type_char s)"

definition type_write :: "int \<Rightarrow> string \<Rightarrow> string" where
  "type_write k s = show_int k @ SPACE # type_text s"

lemma type_text_Cons: "type_text (c # s) = type_char c @ type_text s"
  by (simp add: type_text_def)

lemma process_typed: "process_escape_sequences (type_text s) = s"
proof (induction s)
  case (Cons c s)
  have "process_escape_sequences (c # t) = c # process_escape_sequences t" if "c \<noteq> CHR 0x5C" for t
    using that by (cases t) auto
  then show ?case
    using Cons by (auto simp: type_text_Cons type_char_def escape_char_def)
qed (simp add: type_text_def)

lemma type_text_last: "s \<noteq> [] \<Longrightarrow> is_blank (last (type_text s)) \<longleftrightarrow> last s = SPACE"
proof (induction s rule: rev_induct)
  case (snoc c s)
  then show ?case by (auto simp: type_text_def type_char_def is_blank_def)
qed simp

lemma type_text_empty: "type_text s = [] \<longleftrightarrow> s = []"
  by (cases s) (auto simp: type_text_Cons type_char_def, simp add: type_text_def)

lemma show_int_no_space: "c \<in> set (show_int i) \<Longrightarrow> c \<noteq> SPACE"
  using show_nat_digits by (fastforce simp: show_int_def is_digit_def split: if_splits)

lemma chop_typed: "s \<noteq> [] \<Longrightarrow> last s \<noteq> SPACE \<Longrightarrow> chop_newline (type_text s) = type_text s"
  using type_text_last [of s] by (auto simp: chop_newline_def is_blank_def)

lemma trim_tail:
  assumes "t \<noteq> []" and "\<not> is_blank (hd t)" and "\<not> is_blank (last t)" and "list_all is_blank b"
  shows "trim_whitespace (t @ b) = t"
proof -
  have "trim_end (t @ b) = rev (dropWhile is_blank (rev (t @ b)))"
    by (rule trim_end_strip) (use assms in \<open>simp_all add: hd_append\<close>)
  also have "\<dots> = rev (dropWhile is_blank (rev t))"
    using assms(4) dropWhile_append2 [of "rev b" is_blank "rev t"] by (simp add: list_all_iff)
  also have "\<dots> = t" using assms(1,3) by (cases t rule: rev_cases) auto
  finally show ?thesis using assms(1,2) by (cases t) (auto simp: trim_whitespace_def)
qed

lemma show_int_ends: "show_int k \<noteq> []" "\<not> is_blank (hd (show_int k))" "\<not> is_blank (last (show_int k))"
proof -
  have c: "\<not> is_blank c" if "c \<in> set (show_int k)" for c
  proof -
    have "is_digit c \<or> c = CHR ''-''" using that show_nat_digits by (auto simp: show_int_def split: if_splits)
    then show ?thesis by (auto simp: is_blank_def is_digit_def)
  qed
  show ne: "show_int k \<noteq> []" by simp
  show "\<not> is_blank (hd (show_int k))" "\<not> is_blank (last (show_int k))" using c [OF hd_in_set [OF ne]] c [OF last_in_set [OF ne]] by blast+
qed

lemma trim_typed:
  assumes "s \<noteq> []" and "last s \<noteq> SPACE" and "list_all is_blank b"
  shows "trim_whitespace (type_write k s @ b) = type_write k s"
  by (rule trim_tail) (use show_int_ends [of k] type_text_last [OF assms(1)] assms type_text_empty [of s] in
      \<open>simp_all add: type_write_def\<close>)

lemma parse_typed:
  assumes "int32 k" and "NUL \<notin> set s" and "s \<noteq> []" and "last s \<noteq> SPACE"
  shows "parse_write_line (type_write k s) = Some (k, s)"
proof -
  have "dropWhile (\<lambda>c. c \<noteq> SPACE) (type_write k s) = SPACE # type_text s"
    using show_int_no_space by (simp add: type_write_def dropWhile_append2)
  moreover have "scan_int (type_write k s) = Some k"
    using scan_int_show [OF assms(1), of "SPACE # type_text s" "[]"] by (simp add: type_write_def is_digit_def)
  ultimately show ?thesis
    using assms chop_typed by (simp add: parse_write_line_def process_typed c_str_no_nul)
qed

text \<open>What \<^verbatim>\<open>trim_whitespace\<close> cuts off the end of a text.\<close>

definition without_trailing_blanks :: "string \<Rightarrow> string" where
  "without_trailing_blanks s = rev (dropWhile (\<lambda>c. c = SPACE) (rev s))"

lemma trailing_blanks: "\<exists>n. s = without_trailing_blanks s @ replicate n SPACE"
proof -
  have "rev s = takeWhile (\<lambda>c. c = SPACE) (rev s) @ rev (without_trailing_blanks s)"
    by (simp add: without_trailing_blanks_def)
  moreover have "takeWhile (\<lambda>c. c = SPACE) (rev s) = replicate (length (takeWhile (\<lambda>c. c = SPACE) (rev s))) SPACE"
    by (rule replicate_length_same [symmetric]) (auto dest: set_takeWhileD)
  ultimately obtain n where "rev s = replicate n SPACE @ rev (without_trailing_blanks s)" by metis
  then have "s = rev (replicate n SPACE @ rev (without_trailing_blanks s))" by (metis rev_rev_ident)
  then have "s = without_trailing_blanks s @ replicate n SPACE" by simp
  then show ?thesis ..
qed

lemma without_trailing_last: "without_trailing_blanks s \<noteq> [] \<Longrightarrow> last (without_trailing_blanks s) \<noteq> SPACE"
  using hd_dropWhile [of "\<lambda>c. c = SPACE" "rev s"] by (simp add: without_trailing_blanks_def last_rev)

lemma process_append: "CHR 0x5C \<notin> set a \<Longrightarrow> process_escape_sequences (a @ t) = a @ process_escape_sequences t"
proof (induction a)
  case (Cons c a)
  then show ?case by (cases "a @ t") auto
qed simp

lemma trim_blank:
  assumes "dropWhile is_blank t \<noteq> []"
  shows "trim_whitespace (SPACE # t) = SPACE # trim_whitespace t"
proof -
  have blank: "is_blank SPACE" by (simp add: is_blank_def)
  show ?thesis unfolding trim_whitespace_def Let_def if_not_P [OF assms] by (simp add: blank assms del: dropWhile_eq_Nil_conv)
qed

text \<open>
  C38. What a write session understands of a line typed as an index, a blank and a text with its special characters
  escaped, for any text without NUL: exactly this index and the text without the blanks at its end;
  and if nothing but blanks follows the index, the line is no write at all.
\<close>

theorem typed_write_understood:
  assumes "int32 k" and "NUL \<notin> set s"
  shows "parse_write_line (trim_whitespace (type_write k s @ [NEWLINE])) =
    (if without_trailing_blanks s = [] then None else Some (k, without_trailing_blanks s))"
proof -
  let ?s = "without_trailing_blanks s"
  obtain n where n: "s = ?s @ replicate n SPACE" using trailing_blanks by blast
  then have nul: "NUL \<notin> set ?s" using assms(2) by (metis Un_iff set_append)
  have "type_text s = type_text ?s @ replicate n SPACE"
    by (subst n) (simp add: type_text_def type_char_def)
  then have line: "type_write k s @ [NEWLINE] = type_write k ?s @ replicate n SPACE @ [NEWLINE]"
    by (simp add: type_write_def)
  have blanks: "list_all is_blank (replicate n SPACE @ [NEWLINE])" by (simp add: list_all_iff is_blank_def)
  show ?thesis
  proof (cases "?s = []")
    case True
    have "type_write k s @ [NEWLINE] = show_int k @ SPACE # replicate n SPACE @ [NEWLINE]"
      using line True by (simp add: type_write_def type_text_def)
    moreover have "trim_whitespace (show_int k @ SPACE # replicate n SPACE @ [NEWLINE]) = show_int k"
      by (rule trim_tail) (use show_int_ends blanks in \<open>simp_all add: is_blank_def\<close>)
    moreover have "dropWhile (\<lambda>c. c \<noteq> SPACE) (show_int k) = []" using show_int_no_space by simp
    ultimately show ?thesis using True unfolding parse_write_line_def by (simp del: dropWhile_eq_Nil_conv)
  next
    case False
    then show ?thesis
      using trim_typed [OF False without_trailing_last [OF False] blanks] parse_typed [OF assms(1) nul False without_trailing_last [OF False]]
      by (simp add: line)
  qed
qed

theorem typed_write_understood_witness:
  "parse_write_line (trim_whitespace (type_write 3 ''a b  '' @ [NEWLINE])) = Some (3, ''a b'') \<and>
   parse_write_line (trim_whitespace (type_write 3 ''  '' @ [NEWLINE])) = None"
  using typed_write_understood [of 3 "''a b  ''"] typed_write_understood [of 3 "''  ''"]
  by (simp add: int32_def without_trailing_blanks_def)

text \<open>
  A blank before the word index is not skipped: \<^verbatim>\<open>trim_whitespace\<close> leaves it in the line,
  \<^verbatim>\<open>sscanf\<close> reads the index behind it, and the content starts at this first blank, so the
  index itself is written into the file.
\<close>

theorem leading_blank_writes_index:
  assumes "int32 k" and "NUL \<notin> set s" and "s \<noteq> []" and "last s \<noteq> SPACE"
  shows "parse_write_line (trim_whitespace (SPACE # type_write k s @ [NEWLINE])) =
    Some (k, show_int k @ SPACE # s)"
proof -
  let ?w = "type_write k s"
  have last: "last ?w \<in> set ?w" "\<not> is_blank (last ?w)"
    using type_text_last [OF assms(3)] assms(3,4) type_text_empty [of s] by (simp_all add: type_write_def)
  then have "dropWhile is_blank (?w @ [NEWLINE]) \<noteq> []"
    by (auto simp: dropWhile_eq_Nil_conv)
  from trim_blank [OF this] have line: "trim_whitespace (SPACE # ?w @ [NEWLINE]) = SPACE # ?w"
    using trim_typed [OF assms(3,4), of "[NEWLINE]"] by (simp add: is_blank_def)
  have "process_escape_sequences ?w = show_int k @ process_escape_sequences (SPACE # type_text s)"
    unfolding type_write_def using show_nat_digits [of "nat k"] show_nat_digits [of "nat (- k)"]
    by (intro process_append) (auto simp: show_int_def is_digit_def)
  then have "process_escape_sequences ?w = show_int k @ SPACE # s"
    using process_append [of "[SPACE]" "type_text s"] by (simp add: process_typed)
  moreover have "chop_newline ?w = ?w" using last by (auto simp: chop_newline_def is_blank_def)
  moreover have "scan_int (SPACE # ?w) = Some k"
    using scan_int_show [OF assms(1), of "SPACE # type_text s" "[SPACE]"]
    by (simp add: type_write_def is_digit_def c_isspace_def)
  ultimately show ?thesis
    using line show_int_chars [of _ k] assms(2) by (auto simp: parse_write_line_def c_str_no_nul)
qed

theorem leading_blank_writes_index_witness:
  "parse_write_line (trim_whitespace (SPACE # type_write 3 ''ab'' @ [NEWLINE])) = Some (3, show_int 3 @ SPACE # ''ab'')"
  by (rule leading_blank_writes_index) (simp_all add: int32_def)

end
