(* ===== verification/ClientState.thy ===== *)
theory ClientState
  imports ClientText "HOL-Library.Monad_Syntax"
begin

text \<open>
  The state of the interactive client (\<^verbatim>\<open>client.c\<close>) and what it does with its sockets. The
  globals of the program are one record, with the world behind the sockets and the text
  printed so far. The operations on sockets are an argument, as is what uninitialised local
  variables hold. An operation is \<^const>\<open>None\<close> if it stores outside a buffer or waits for ever.
\<close>

section \<open>State and environment\<close>

text \<open>
  \<^verbatim>\<open>transmit\<close> is \<^verbatim>\<open>send_message\<close> with its return value. \<^verbatim>\<open>receive\<close> is \<^verbatim>\<open>recv_message\<close>: \<^const>\<open>None\<close>
  if no answer ever comes, no message for a return value of -1. \<^verbatim>\<open>open_sock\<close> is \<^verbatim>\<open>socket\<close>
  and \<^verbatim>\<open>connect\<close> to an address and a port: a descriptor, or -1.
\<close>

record 'w client_env =
  transmit :: "'w \<Rightarrow> int \<Rightarrow> message \<Rightarrow> 'w \<times> int"
  receive :: "'w \<Rightarrow> int \<Rightarrow> ('w \<times> message option) option"
  open_sock :: "'w \<Rightarrow> string \<Rightarrow> int \<Rightarrow> 'w \<times> int"
  close_sock :: "'w \<Rightarrow> int \<Rightarrow> 'w"
  leftover :: message
  leftover_ip :: string
  leftover_port :: int

record 'w client =
  username :: string
  nm_sock :: int
  current_ss_sock :: int
  current_locked_sentence :: int
  current_locked_filename :: string
  world :: 'w
  printed :: string

text \<open>
  What a call of \<^verbatim>\<open>fgets\<close> on the standard input yields: the characters it stored, or
  \<^verbatim>\<open>Interrupt\<close> if \<^verbatim>\<open>sigint_received\<close> is set when it returns. After the last one it yields the
  end of the input.
\<close>

datatype input = Line string | Interrupt

definition say :: "string \<Rightarrow> 'w client \<Rightarrow> 'w client" where
  "say s c = c\<lparr>printed := printed c @ s\<rparr>"

definition say_line :: "string \<Rightarrow> 'w client \<Rightarrow> 'w client" where
  "say_line s = say (s @ [NEWLINE])"

section \<open>Messages\<close>

definition send_to :: "'w client_env \<Rightarrow> int \<Rightarrow> message \<Rightarrow> 'w client \<Rightarrow> 'w client \<times> int" where
  "send_to env sock msg c =
     (let (w, r) = transmit env (world c) sock msg in (c\<lparr>world := w\<rparr>, r))"

text \<open>A failed \<^verbatim>\<open>recv_message\<close> leaves the message it was given as it is.\<close>

definition recv_from ::
  "'w client_env \<Rightarrow> int \<Rightarrow> message \<Rightarrow> 'w client \<Rightarrow> ('w client \<times> int \<times> message) option" where
  "recv_from env sock buf c =
     map_option (\<lambda>(w, got). (c\<lparr>world := w\<rparr>, case got of None \<Rightarrow> (- 1, buf) | Some m \<Rightarrow> (0, m)))
       (receive env (world c) sock)"

definition close_client_sock :: "'w client_env \<Rightarrow> int \<Rightarrow> 'w client \<Rightarrow> 'w client" where
  "close_client_sock env sock c = c\<lparr>world := close_sock env (world c) sock\<rparr>"

text \<open>\<^verbatim>\<open>init_message\<close> and the two assignments that begin every request\<close>

definition request :: "'w client \<Rightarrow> int \<Rightarrow> message" where
  "request c t = init_message\<lparr>m_type := t, m_sender := username c\<rparr>"

text \<open>A send and a receive whose results are ignored.\<close>

definition ask :: "'w client_env \<Rightarrow> int \<Rightarrow> message \<Rightarrow> message \<Rightarrow> 'w client \<Rightarrow> ('w client \<times> message) option" where
  "ask env sock msg buf c =
     map_option (\<lambda>(c', _, resp). (c', resp)) (recv_from env sock buf (fst (send_to env sock msg c)))"

definition error_text :: "int \<Rightarrow> string" where
  "error_text status =
     (if status = ERR_FILE_NOT_FOUND then ''Error: File not found''
      else if status = ERR_ACCESS_DENIED then ''Error: Access denied''
      else if status = ERR_SENTENCE_LOCKED then ''Error: Sentence is locked by another user''
      else if status = ERR_FILE_LOCKED
      then ''Error: Cannot delete file - one or more sentences are currently locked by other users''
      else if status = ERR_INVALID_INDEX then ''Error: Invalid sentence or word index''
      else if status = ERR_FILE_EXISTS then ''Error: File already exists''
      else if status = ERR_SS_UNAVAILABLE then ''Error: Storage server unavailable''
      else if status = ERR_INVALID_OPERATION then ''Error: Invalid operation''
      else if status = ERR_NOT_OWNER then ''Error: You are not the owner of this file''
      else if status = ERR_USER_NOT_FOUND then ''Error: User not found''
      else ''Error: Unknown error (code '' @ show_int status @ '')'')"

definition print_error :: "int \<Rightarrow> 'w client \<Rightarrow> 'w client" where
  "print_error status = say_line (error_text status)"

text \<open>
  \<^verbatim>\<open>sscanf(ss_info, "%[^:]:%d", ip, &port)\<close>: a field that is not converted keeps what the
  variable held; an address of 16 characters or more overruns its array.
\<close>

definition scan_address :: "'w client_env \<Rightarrow> string \<Rightarrow> (string \<times> int) option" where
  "scan_address env ss_info =
     (let ip = takeWhile (\<lambda>c. c \<noteq> CHR '':'') ss_info; rest = drop (length ip) ss_info
      in if length ip \<ge> INET_ADDRSTRLEN then None
         else if ip = [] then Some (leftover_ip env, leftover_port env)
         else Some (ip, case rest of [] \<Rightarrow> leftover_port env
                        | _ # s \<Rightarrow> (case scan_int s of None \<Rightarrow> leftover_port env | Some p \<Rightarrow> p)))"

text \<open>\<^verbatim>\<open>htons\<close> keeps the low 16 bits of the port.\<close>

definition connect_to_ss :: "'w client_env \<Rightarrow> string \<Rightarrow> 'w client \<Rightarrow> ('w client \<times> int) option" where
  "connect_to_ss env ss_info c =
     map_option (\<lambda>(ip, port). let (w, sock) = open_sock env (world c) ip (port mod 2 ^ 16)
                              in (c\<lparr>world := w\<rparr>, if sock < 0 then - 1 else sock))
       (scan_address env ss_info)"

definition perform_pending_unlock :: "'w client_env \<Rightarrow> 'w client \<Rightarrow> 'w client option" where
  "perform_pending_unlock env c =
     (if current_ss_sock c > 0 \<and> current_locked_sentence c \<ge> 0
      then let sock = current_ss_sock c;
               msg = (request c MSG_CANCEL_WRITE)\<lparr>m_filename := c_copy MAX_FILENAME (current_locked_filename c),
                        m_sentence_index := current_locked_sentence c\<rparr>;
               (c1, r) = send_to env sock msg c
           in do {
             c2 \<leftarrow> (if r < 0 then Some (say_line ''Error sending cancel message'' c1)
                   else do {
                     (c2, r, resp) \<leftarrow> recv_from env sock (leftover env) c1;
                     Some (if r \<ge> 0
                           then if m_status resp = SUCCESS
                                then say_line (NEWLINE # ''[INFO] Write session cancelled and sentence '' @
                                       show_int (current_locked_sentence c) @ '' in file '' @
                                       current_locked_filename c @ '' unlocked due to interrupt signal.'') c2
                                else say_line (NEWLINE # ''[WARN] Cancel returned status '' @ show_int (m_status resp)) c2
                           else say_line ''[WARN] No response received for cancel message'' c2)
                   });
             Some (c2\<lparr>current_locked_sentence := - 1, current_locked_filename := []\<rparr>)
           }
      else Some c)"

end
