(* ===== verification/ClientRequests.thy ===== *)
theory ClientRequests
  imports ClientState
begin

text \<open>
  The commands of the client (\<^verbatim>\<open>client.c\<close>), one definition per handler. A command sends its
  request to the name server and prints the answer; \<^verbatim>\<open>READ\<close>, \<^verbatim>\<open>UNDO\<close> and \<^verbatim>\<open>STREAM\<close> then turn to
  the storage server the answer names, and \<^verbatim>\<open>WRITE\<close> holds a session with it. An argument that
  \<^verbatim>\<open>strcpy\<close> stores behind the end of a field of the message is \<^const>\<open>None\<close>.
\<close>

definition fits :: "nat \<Rightarrow> string \<Rightarrow> bool" where
  "fits n s \<longleftrightarrow> length s < n"

text \<open>The second half of most handlers: send, receive, print.\<close>

definition nm_command ::
  "'w client_env \<Rightarrow> message \<Rightarrow> (message \<Rightarrow> string) \<Rightarrow> 'w client \<Rightarrow> 'w client option" where
  "nm_command env msg done c = do {
     (c1, response) \<leftarrow> ask env (nm_sock c) msg (leftover env) c;
     Some (if m_status response = SUCCESS then say (done response) c1 else print_error (m_status response) c1)
   }"

section \<open>Commands answered by the name server\<close>

definition handle_createfolder_cl ::
  "'w client_env \<Rightarrow> string \<Rightarrow> string option \<Rightarrow> 'w client \<Rightarrow> 'w client option" where
  "handle_createfolder_cl env foldername parent_path c =
     (let parent = (case parent_path of None \<Rightarrow> [] | Some p \<Rightarrow> p) in
      if fits MAX_FILENAME foldername \<and> fits MAX_PATH parent
      then nm_command env ((request c MSG_CREATEFOLDER)\<lparr>m_foldername := foldername, m_target_path := parent\<rparr>)
             (\<lambda>_. ''Folder created successfully!'' @ [NEWLINE]) c
      else None)"

definition handle_move_file_cl :: "'w client_env \<Rightarrow> string \<Rightarrow> string \<Rightarrow> 'w client \<Rightarrow> 'w client option" where
  "handle_move_file_cl env filename foldername c =
     (if fits MAX_FILENAME filename \<and> fits MAX_PATH foldername
      then nm_command env ((request c MSG_MOVE)\<lparr>m_filename := filename, m_target_path := foldername\<rparr>)
             (\<lambda>_. ''File moved successfully!'' @ [NEWLINE]) c
      else None)"

definition handle_viewfolder_cl :: "'w client_env \<Rightarrow> string \<Rightarrow> 'w client \<Rightarrow> 'w client option" where
  "handle_viewfolder_cl env foldername c =
     (if fits MAX_PATH foldername
      then nm_command env ((request c MSG_VIEWFOLDER)\<lparr>m_target_path := foldername\<rparr>) m_data c
      else None)"

definition handle_view_cl :: "'w client_env \<Rightarrow> string option \<Rightarrow> 'w client \<Rightarrow> 'w client option" where
  "handle_view_cl env args c =
     nm_command env ((request c MSG_VIEW)\<lparr>m_data := (case args of None \<Rightarrow> [] | Some a \<Rightarrow> c_copy MAX_BUFFER a)\<rparr>)
       m_data c"

definition checkpoint_command ::
  "'w client_env \<Rightarrow> int \<Rightarrow> (message \<Rightarrow> string) \<Rightarrow> string \<Rightarrow> string \<Rightarrow> 'w client \<Rightarrow> 'w client option" where
  "checkpoint_command env t done filename tag c =
     (if fits MAX_FILENAME filename \<and> fits MAX_USERNAME tag
      then nm_command env ((request c t)\<lparr>m_filename := filename, m_checkpoint_tag := tag\<rparr>) done c
      else None)"

definition handle_checkpoint_cl :: "'w client_env \<Rightarrow> string \<Rightarrow> string \<Rightarrow> 'w client \<Rightarrow> 'w client option" where
  "handle_checkpoint_cl env filename tag =
     checkpoint_command env MSG_CHECKPOINT
       (\<lambda>_. ''Checkpoint '' @ CHR 0x27 # tag @ CHR 0x27 # '' created successfully!'' @ [NEWLINE]) filename tag"

definition handle_viewcheckpoint_cl :: "'w client_env \<Rightarrow> string \<Rightarrow> string \<Rightarrow> 'w client \<Rightarrow> 'w client option" where
  "handle_viewcheckpoint_cl env filename tag =
     checkpoint_command env MSG_VIEWCHECKPOINT (\<lambda>resp. m_data resp @ [NEWLINE]) filename tag"

definition handle_revert_cl :: "'w client_env \<Rightarrow> string \<Rightarrow> string \<Rightarrow> 'w client \<Rightarrow> 'w client option" where
  "handle_revert_cl env filename tag =
     checkpoint_command env MSG_REVERT
       (\<lambda>_. ''File reverted to checkpoint '' @ CHR 0x27 # tag @ CHR 0x27 # '' successfully!'' @ [NEWLINE]) filename tag"

text \<open>The commands with a file name only\<close>

definition file_command ::
  "'w client_env \<Rightarrow> int \<Rightarrow> (message \<Rightarrow> string) \<Rightarrow> string \<Rightarrow> 'w client \<Rightarrow> 'w client option" where
  "file_command env t done filename c =
     (if fits MAX_FILENAME filename
      then nm_command env ((request c t)\<lparr>m_filename := filename\<rparr>) done c
      else None)"

definition handle_listcheckpoints_cl :: "'w client_env \<Rightarrow> string \<Rightarrow> 'w client \<Rightarrow> 'w client option" where
  "handle_listcheckpoints_cl env filename =
     file_command env MSG_LISTCHECKPOINTS
       (\<lambda>resp. ''Checkpoints for '' @ filename @ '':'' @ NEWLINE # m_data resp) filename"

definition handle_delete_cl :: "'w client_env \<Rightarrow> string \<Rightarrow> 'w client \<Rightarrow> 'w client option" where
  "handle_delete_cl env =
     file_command env MSG_DELETE (\<lambda>_. ''File deleted successfully!'' @ [NEWLINE])"

definition handle_info_cl :: "'w client_env \<Rightarrow> string \<Rightarrow> 'w client \<Rightarrow> 'w client option" where
  "handle_info_cl env = file_command env MSG_INFO m_data"

definition handle_exec_cl :: "'w client_env \<Rightarrow> string \<Rightarrow> 'w client \<Rightarrow> 'w client option" where
  "handle_exec_cl env = file_command env MSG_EXEC m_data"

text \<open>The only handler of this kind that looks at the results of the calls.\<close>

definition handle_create_cl :: "'w client_env \<Rightarrow> string \<Rightarrow> 'w client \<Rightarrow> 'w client option" where
  "handle_create_cl env filename c =
     (if fits MAX_FILENAME filename
      then let (c1, r) = send_to env (nm_sock c) ((request c MSG_CREATE)\<lparr>m_filename := filename\<rparr>) c in
        if r < 0 then Some c1
        else do {
          (c2, r, response) \<leftarrow> recv_from env (nm_sock c) (leftover env) c1;
          Some (if r < 0 then c2
                else if m_status response = SUCCESS then say_line ''File created successfully!'' c2
                else print_error (m_status response) c2)
        }
      else None)"

definition handle_list_cl :: "'w client_env \<Rightarrow> 'w client \<Rightarrow> 'w client option" where
  "handle_list_cl env c = nm_command env (request c MSG_LIST) m_data c"

text \<open>\<^verbatim>\<open>-R\<close> and \<^verbatim>\<open>-W\<close>\<close>

definition access_flag :: "string \<Rightarrow> int option" where
  "access_flag flag =
     (if flag = ''-R'' then Some ACCESS_READ else if flag = ''-W'' then Some ACCESS_READWRITE else None)"

definition handle_addaccess_cl ::
  "'w client_env \<Rightarrow> string \<Rightarrow> string \<Rightarrow> string \<Rightarrow> 'w client \<Rightarrow> 'w client option" where
  "handle_addaccess_cl env flag filename user c =
     (if fits MAX_FILENAME filename \<and> fits MAX_USERNAME user
      then (case access_flag flag of
              None \<Rightarrow> Some (say_line ''Invalid flag. Use -R for read or -W for write'' c)
            | Some a \<Rightarrow> nm_command env ((request c MSG_ADDACCESS)
                  \<lparr>m_filename := filename, m_target_user := user, m_access := a\<rparr>)
                  (\<lambda>_. ''Access granted successfully!'' @ [NEWLINE]) c)
      else None)"

definition handle_remaccess_cl :: "'w client_env \<Rightarrow> string \<Rightarrow> string \<Rightarrow> 'w client \<Rightarrow> 'w client option" where
  "handle_remaccess_cl env filename user c =
     (if fits MAX_FILENAME filename \<and> fits MAX_USERNAME user
      then nm_command env ((request c MSG_REMACCESS)\<lparr>m_filename := filename, m_target_user := user\<rparr>)
             (\<lambda>_. ''Access removed successfully!'' @ [NEWLINE]) c
      else None)"

definition handle_requestaccess_cl :: "'w client_env \<Rightarrow> string \<Rightarrow> string \<Rightarrow> 'w client \<Rightarrow> 'w client option" where
  "handle_requestaccess_cl env flag filename c =
     (if fits MAX_FILENAME filename
      then (case access_flag flag of
              None \<Rightarrow> Some (say_line ''Invalid flag. Use -R for read or -W for write'' c)
            | Some a \<Rightarrow> nm_command env ((request c MSG_REQUESTACCESS)\<lparr>m_filename := filename, m_access := a\<rparr>)
                  (\<lambda>resp. ''Access request sent successfully!'' @ NEWLINE #
                     (if m_data resp = [] then [] else m_data resp @ [NEWLINE])) c)
      else None)"

definition handle_viewrequests_cl :: "'w client_env \<Rightarrow> 'w client \<Rightarrow> 'w client option" where
  "handle_viewrequests_cl env c =
     nm_command env (request c MSG_VIEWREQUESTS)
       (\<lambda>resp. ''Pending Access Requests:'' @ NEWLINE # m_data resp) c"

definition handle_approverequest_cl :: "'w client_env \<Rightarrow> string \<Rightarrow> 'w client \<Rightarrow> 'w client option" where
  "handle_approverequest_cl env request_id_str c =
     nm_command env ((request c MSG_APPROVEREQUEST)\<lparr>m_sentence_index := atoi request_id_str\<rparr>)
       (\<lambda>_. ''Access request approved successfully!'' @ [NEWLINE]) c"

definition handle_denyrequest_cl :: "'w client_env \<Rightarrow> string \<Rightarrow> 'w client \<Rightarrow> 'w client option" where
  "handle_denyrequest_cl env request_id_str c =
     nm_command env ((request c MSG_DENYREQUEST)\<lparr>m_sentence_index := atoi request_id_str\<rparr>)
       (\<lambda>_. ''Access request denied successfully!'' @ [NEWLINE]) c"

section \<open>Commands answered by a storage server\<close>

text \<open>The first half of the handlers that are sent on to a storage server.\<close>

definition ask_for_server ::
  "'w client_env \<Rightarrow> int \<Rightarrow> string \<Rightarrow> string \<Rightarrow> 'w client \<Rightarrow> ('w client \<times> (int \<times> message) option) option" where
  "ask_for_server env t complaint filename c =
     (if fits MAX_FILENAME filename
      then do {
        (c1, response) \<leftarrow> ask env (nm_sock c) ((request c t)\<lparr>m_filename := filename\<rparr>) (leftover env) c;
        if m_status response \<noteq> SUCCESS then Some (print_error (m_status response) c1, None)
        else do {
          (c2, ss_sock) \<leftarrow> connect_to_ss env (m_data response) c1;
          Some (if ss_sock < 0 then (say_line complaint c2, None) else (c2, Some (ss_sock, response)))
        }
      }
      else None)"

definition server_command ::
  "'w client_env \<Rightarrow> int \<Rightarrow> (message \<Rightarrow> string) \<Rightarrow> string \<Rightarrow> 'w client \<Rightarrow> 'w client option" where
  "server_command env t done filename c = do {
     (c1, server) \<leftarrow> ask_for_server env t ''Error: Could not connect to storage server'' filename c;
     case server of
       None \<Rightarrow> Some c1
     | Some (ss_sock, response) \<Rightarrow> do {
         (c2, answer) \<leftarrow> ask env ss_sock ((request c t)\<lparr>m_filename := filename\<rparr>) response c1;
         Some (close_client_sock env ss_sock
           (if m_status answer = SUCCESS then say (done answer) c2 else print_error (m_status answer) c2))
       }
   }"

definition handle_read_cl :: "'w client_env \<Rightarrow> string \<Rightarrow> 'w client \<Rightarrow> 'w client option" where
  "handle_read_cl env = server_command env MSG_READ (\<lambda>resp. m_data resp @ [NEWLINE])"

definition handle_undo_cl :: "'w client_env \<Rightarrow> string \<Rightarrow> 'w client \<Rightarrow> 'w client option" where
  "handle_undo_cl env = server_command env MSG_UNDO (\<lambda>_. ''Undo successful!'' @ [NEWLINE])"

text \<open>The loop of \<^verbatim>\<open>handle_stream\<close>; it may wait for a message that never comes.\<close>

definition stream_token :: "message \<Rightarrow> string" where
  "stream_token resp = m_data resp @ (if m_status resp = 1 then [SPACE] else [])"

partial_function (option) stream_loop ::
  "'w client_env \<Rightarrow> int \<Rightarrow> message \<Rightarrow> 'w client \<Rightarrow> 'w client option" where
  "stream_loop env ss_sock buf c = do {
     (c1, r, resp) \<leftarrow> recv_from env ss_sock buf c;
     if r < 0 then Some (say_line ''Stream interrupted'' c1)
     else if m_type resp = MSG_STOP then Some c1
     else if m_type resp \<noteq> MSG_DATA then stream_loop env ss_sock resp c1
     else stream_loop env ss_sock resp (say (stream_token resp) c1)
   }"

definition handle_stream_cl :: "'w client_env \<Rightarrow> string \<Rightarrow> 'w client \<Rightarrow> 'w client option" where
  "handle_stream_cl env filename c = do {
     (c1, server) \<leftarrow> ask_for_server env MSG_READ ''Failed to connect to storage server for streaming'' filename c;
     case server of
       None \<Rightarrow> Some c1
     | Some (ss_sock, _) \<Rightarrow>
         let (c2, r) = send_to env ss_sock ((request c MSG_STREAM)\<lparr>m_filename := filename\<rparr>) c1 in
         if r < 0 then Some (close_client_sock env ss_sock (say_line ''Failed to request stream'' c2))
         else do {
           c3 \<leftarrow> stream_loop env ss_sock (leftover env) c2;
           Some (close_client_sock env ss_sock (say [NEWLINE] c3))
         }
   }"

end
