(* ===== verification/ClientSession.thy ===== *)
theory ClientSession
  imports ClientRequests
begin

text \<open>
  \<^verbatim>\<open>handle_write\<close> of the client (\<^verbatim>\<open>client.c\<close>): lock a sentence at its storage server, send one
  \<^verbatim>\<open>MSG_WRITE\<close> per line typed, unlock. When the connection breaks, the session asks the name
  server again, reconnects, takes the lock again and repeats the write, at most five times.
\<close>

section \<open>The messages of a session\<close>

definition redirect_request :: "'w client \<Rightarrow> string \<Rightarrow> message" where
  "redirect_request c filename = (request c MSG_WRITE)\<lparr>m_filename := filename\<rparr>"

definition lock_message :: "'w client \<Rightarrow> string \<Rightarrow> int \<Rightarrow> message" where
  "lock_message c filename sent_idx =
     (request c MSG_LOCK_SENTENCE)\<lparr>m_filename := filename, m_sentence_index := sent_idx\<rparr>"

definition write_message :: "'w client \<Rightarrow> string \<Rightarrow> int \<Rightarrow> int \<Rightarrow> string \<Rightarrow> message" where
  "write_message c filename sent_idx word_idx content =
     (request c MSG_WRITE)\<lparr>m_filename := filename, m_sentence_index := sent_idx, m_word_index := word_idx,
        m_data := content\<rparr>"

definition unlock_message :: "'w client \<Rightarrow> string \<Rightarrow> int \<Rightarrow> message" where
  "unlock_message c filename sent_idx =
     (request c MSG_UNLOCK_SENTENCE)\<lparr>m_filename := filename, m_sentence_index := sent_idx\<rparr>"

text \<open>The requests depend on the name of the user only.\<close>

lemma session_request_update [simp]:
  "redirect_request (c\<lparr>world := w\<rparr>) = redirect_request c" "lock_message (c\<lparr>world := w\<rparr>) = lock_message c" "write_message (c\<lparr>world := w\<rparr>) = write_message c" "unlock_message (c\<lparr>world := w\<rparr>) = unlock_message c"
  "redirect_request (c\<lparr>printed := s\<rparr>) = redirect_request c" "lock_message (c\<lparr>printed := s\<rparr>) = lock_message c" "write_message (c\<lparr>printed := s\<rparr>) = write_message c" "unlock_message (c\<lparr>printed := s\<rparr>) = unlock_message c"
  "redirect_request (c\<lparr>current_ss_sock := n\<rparr>) = redirect_request c" "lock_message (c\<lparr>current_ss_sock := n\<rparr>) = lock_message c" "write_message (c\<lparr>current_ss_sock := n\<rparr>) = write_message c" "unlock_message (c\<lparr>current_ss_sock := n\<rparr>) = unlock_message c"
  "redirect_request (c\<lparr>current_locked_sentence := n\<rparr>) = redirect_request c" "lock_message (c\<lparr>current_locked_sentence := n\<rparr>) = lock_message c" "write_message (c\<lparr>current_locked_sentence := n\<rparr>) = write_message c" "unlock_message (c\<lparr>current_locked_sentence := n\<rparr>) = unlock_message c"
  "redirect_request (c\<lparr>current_locked_filename := f\<rparr>) = redirect_request c" "lock_message (c\<lparr>current_locked_filename := f\<rparr>) = lock_message c" "write_message (c\<lparr>current_locked_filename := f\<rparr>) = write_message c" "unlock_message (c\<lparr>current_locked_filename := f\<rparr>) = unlock_message c"
  by (simp_all add: redirect_request_def lock_message_def write_message_def unlock_message_def request_def fun_eq_iff)

section \<open>Reconnecting\<close>

text \<open>
  The locals of \<^verbatim>\<open>handle_write\<close> that survive an attempt: the socket and the last response.
\<close>

type_synonym 'w session = "'w client \<times> int \<times> message"

text \<open>What precedes \<^verbatim>\<open>continue\<close> when the connection to the storage server is lost again.\<close>

definition give_up_lock :: "'w client_env \<Rightarrow> int \<Rightarrow> 'w client \<Rightarrow> 'w client" where
  "give_up_lock env ss_sock c = (close_client_sock env ss_sock c)\<lparr>current_ss_sock := - 1\<rparr>"

definition reconnect ::
  "'w client_env \<Rightarrow> string \<Rightarrow> int \<Rightarrow> 'w session \<Rightarrow> 'w session option" where
  "reconnect env filename sent_idx = (\<lambda>(c, ss_sock, response).
     let (c1, r) = send_to env (nm_sock c) (redirect_request c filename) c in
     if r < 0 then Some (say_line ''Error: Could not contact Name Server for reconnection'' c1, ss_sock, response)
     else do {
       (c2, r, response) \<leftarrow> recv_from env (nm_sock c1) response c1;
       if r < 0 then Some (say_line ''Error: Lost connection to Name Server'' c2, ss_sock, response)
       else if m_status response \<noteq> SUCCESS
       then Some (print_error (m_status response) (say_line ''Error: File no longer available'' c2), ss_sock, response)
       else do {
         (c3, ss_sock) \<leftarrow> connect_to_ss env (m_data response) c2;
         if ss_sock < 0 then Some (say_line ''Error: Could not reconnect to storage server'' c3, ss_sock, response)
         else let c4 = say_line ''Reconnected successfully. Attempting to re-acquire lock...'' (c3\<lparr>current_ss_sock := ss_sock\<rparr>);
                  (c5, r) = send_to env ss_sock (lock_message c filename sent_idx) c4;
                  complaint = ''Error: Could not re-acquire lock after reconnection''
           in if r < 0 then Some (give_up_lock env ss_sock (say_line complaint c5), ss_sock, response)
              else do {
                (c6, r, response) \<leftarrow> recv_from env ss_sock response c5;
                Some (if r < 0 then give_up_lock env ss_sock (say_line complaint c6)
                      else if m_status response \<noteq> SUCCESS
                      then give_up_lock env ss_sock (print_error (m_status response)
                             (say ''Error: Could not re-acquire lock - '' c6))
                      else say_line ''Lock re-acquired. Retrying write operation...'' c6, ss_sock, response)
              }
       }
     })"

section \<open>One line\<close>

text \<open>
  The retry loop, with the number of attempts left. \<^verbatim>\<open>Written\<close> and \<^verbatim>\<open>Refused\<close> carry whether
  no attempt had failed before; \<^verbatim>\<open>Exhausted\<close> is the exit after the fifth failure.
\<close>

datatype write_result = Written | Refused bool | Exhausted

definition lost_connection :: "'w client_env \<Rightarrow> string \<Rightarrow> nat \<Rightarrow> int \<Rightarrow> 'w client \<Rightarrow> 'w client" where
  "lost_connection env reason left ss_sock c =
     give_up_lock env ss_sock
       (say_line (''Attempting to reconnect (attempt '' @ show_nat (5 - left) @ ''/5)...'') (say_line reason c))"

fun write_retry ::
  "'w client_env \<Rightarrow> string \<Rightarrow> int \<Rightarrow> int \<Rightarrow> string \<Rightarrow> nat \<Rightarrow> 'w session \<Rightarrow> ('w session \<times> write_result) option" where
  "write_retry env filename sent_idx word_idx content 0 s = Some (s, Exhausted)"
| "write_retry env filename sent_idx word_idx content (Suc left) (c, ss_sock, response) =
     (let (c1, r) = send_to env ss_sock (write_message c filename sent_idx word_idx content) c in
      if r < 0
      then do {
        s \<leftarrow> reconnect env filename sent_idx
               (lost_connection env ''Error: Storage server disconnected during write'' left ss_sock c1,
                ss_sock, response);
        write_retry env filename sent_idx word_idx content left s
      }
      else do {
        (c2, r, response) \<leftarrow> recv_from env ss_sock response c1;
        if r < 0
        then do {
          s \<leftarrow> reconnect env filename sent_idx
                 (lost_connection env ''Error: Storage server disconnected while waiting for response'' left ss_sock c2,
                  ss_sock, response);
          write_retry env filename sent_idx word_idx content left s
        }
        else if m_status response \<noteq> SUCCESS
        then Some ((print_error (m_status response) (say ''Write failed: '' c2), ss_sock, response), Refused (left = 4))
        else Some ((say_line ''Write successful!'' c2, ss_sock, response), Written)
      })"

section \<open>The loop over the lines\<close>

text \<open>
  The counter, the \<^verbatim>\<open>status\<close> flag, whether the client has called \<^verbatim>\<open>exit\<close>, and the input left.
\<close>

fun write_loop ::
  "'w client_env \<Rightarrow> string \<Rightarrow> int \<Rightarrow> input list \<Rightarrow> 'w session \<Rightarrow> nat \<Rightarrow> bool \<Rightarrow>
   ('w session \<times> nat \<times> bool \<times> bool \<times> input list) option" where
  "write_loop env filename sent_idx [] (c, s) count ok = Some ((say ''Client: '' c, s), count, ok, False, [])"
| "write_loop env filename sent_idx (Interrupt # ins) (c, s) count ok = do {
     c1 \<leftarrow> perform_pending_unlock env (say ''Client: '' c);
     Some ((say_line (NEWLINE # ''Interrupted; exiting client.'') c1, s), count, ok, True, ins)
   }"
| "write_loop env filename sent_idx (Line l # ins) (c, s) count ok =
     (let c1 = say ''Client: '' c; line = trim_whitespace l in
      if line = ''ETIRW'' then Some ((c1, s), count, ok, False, ins)
      else case parse_write_line line of
             None \<Rightarrow> write_loop env filename sent_idx ins
                       (say_line ''Invalid format. Use: <word_index> <content>'' c1, s) count ok
           | Some (word_idx, content) \<Rightarrow> do {
               ((c2, s2), result) \<leftarrow> write_retry env filename sent_idx word_idx content 5 (c1, s);
               case result of
                 Written \<Rightarrow> write_loop env filename sent_idx ins (c2, s2) (count + 1) ok
               | Refused first \<Rightarrow> if first then Some ((c2, s2), count, False, False, ins)
                                  else write_loop env filename sent_idx ins (c2, s2) count False
               | Exhausted \<Rightarrow> Some ((say_line ''Error: Could not complete write after 5 reconnection attempts'' c2, s2),
                                     count, False, False, ins)
             })"

section \<open>The whole session\<close>

definition clear_session :: "'w client \<Rightarrow> 'w client" where
  "clear_session c = c\<lparr>current_ss_sock := - 1, current_locked_sentence := - 1, current_locked_filename := []\<rparr>"

definition end_session ::
  "'w client_env \<Rightarrow> string \<Rightarrow> int \<Rightarrow> 'w session \<Rightarrow> 'w client option" where
  "end_session env filename sent_idx = (\<lambda>(c, ss_sock, response).
     if current_ss_sock c > 0
     then let (c1, r) = send_to env ss_sock (unlock_message c filename sent_idx) c in do {
       c2 \<leftarrow> (if r < 0 then Some (say_line ''Error: Could not send unlock (connection lost)'' c1)
             else do {
               (c2, r, response) \<leftarrow> recv_from env ss_sock response c1;
               Some (if r < 0 then say_line ''Error: Could not receive unlock response (connection lost)'' c2
                     else if m_status response \<noteq> SUCCESS
                     then print_error (m_status response) (say ''Unlock failed: '' c2) else c2)
             });
       Some (clear_session (close_client_sock env ss_sock c2))
     }
     else Some (clear_session c))"

definition session_summary :: "nat \<Rightarrow> bool \<Rightarrow> string" where
  "session_summary count ok =
     (if count > 0 \<and> ok
      then ''All writes completed successfully! ('' @ show_nat count @ '' write(s))''
      else if count = 0 then ''No writes performed.''
      else ''Write session ended with errors. Completed '' @ show_nat count @ '' write(s) before failure.'')"

text \<open>From the granted lock on: the lines, the unlock, the summary.\<close>

definition edit_session ::
  "'w client_env \<Rightarrow> string \<Rightarrow> int \<Rightarrow> input list \<Rightarrow> 'w session \<Rightarrow> ('w client \<times> bool \<times> input list) option" where
  "edit_session env filename sent_idx ins = (\<lambda>(c, s). do {
     ((c1, s1), count, ok, exited, rest) \<leftarrow> write_loop env filename sent_idx ins
       (say_line ''Sentence locked. Enter writes (word_index content), then type ETIRW:''
          (c\<lparr>current_locked_sentence := sent_idx, current_locked_filename := filename\<rparr>), s) 0 True;
     if exited then Some (c1, True, rest)
     else do {
       c2 \<leftarrow> end_session env filename sent_idx (c1, s1);
       Some (say_line (session_summary count ok) c2, False, rest)
     }
   })"

definition handle_write_cl ::
  "'w client_env \<Rightarrow> string \<Rightarrow> string \<Rightarrow> input list \<Rightarrow> 'w client \<Rightarrow> ('w client \<times> bool \<times> input list) option" where
  "handle_write_cl env filename sent_idx_str ins c =
     (let sent_idx = atoi sent_idx_str in do {
        (c1, server) \<leftarrow> ask_for_server env MSG_WRITE ''Error: Could not connect to storage server'' filename
                          (c\<lparr>current_locked_sentence := - 1, current_locked_filename := []\<rparr>);
        case server of
          None \<Rightarrow> Some (c1, False, ins)
        | Some (ss_sock, response) \<Rightarrow> do {
            (c2, response) \<leftarrow> ask env ss_sock (lock_message c1 filename sent_idx) response
                                (c1\<lparr>current_ss_sock := ss_sock\<rparr>);
            if m_status response \<noteq> SUCCESS
            then Some ((close_client_sock env ss_sock (print_error (m_status response) c2))\<lparr>current_ss_sock := - 1\<rparr>,
                       False, ins)
            else edit_session env filename sent_idx ins (c2, ss_sock, response)
          }
      })"

end
