(* ===== verification/ClientLoop.thy ===== *)
theory ClientLoop
  imports ClientSession
begin

text \<open>
  The start of the client and its command loop (\<^verbatim>\<open>init_client\<close>, \<^verbatim>\<open>connect_to_nm\<close>,
  \<^verbatim>\<open>command_loop\<close> of \<^verbatim>\<open>client.c\<close>): which words of a line select which handler.
\<close>

section \<open>Registration\<close>

definition init_client :: "string \<Rightarrow> 'w \<Rightarrow> 'w client" where
  "init_client line w =
     (let name = trim_whitespace line in
      say_line (''[Client] Username: '' @ name)
        \<lparr>username = name, nm_sock = - 1, current_ss_sock = - 1, current_locked_sentence = - 1,
         current_locked_filename = [], world = w, printed = ''Enter username: ''\<rparr>)"

text \<open>
  On a socket that is connected; \<^verbatim>\<open>local_addr\<close> is what \<^verbatim>\<open>getsockname\<close> yields. The flag is
  \<^const>\<open>False\<close> if the client exits.
\<close>

definition connect_to_nm ::
  "'w client_env \<Rightarrow> string \<Rightarrow> int \<Rightarrow> int \<Rightarrow> string option \<Rightarrow> 'w client \<Rightarrow> ('w client \<times> bool) option" where
  "connect_to_nm env ip port sock local_addr c =
     (let msg = (request c MSG_REG_CLIENT)\<lparr>m_data := (case local_addr of Some a \<Rightarrow> a | None \<Rightarrow> ''127.0.0.1'')\<rparr> in do {
        (c1, response) \<leftarrow> ask env sock msg (leftover env) (c\<lparr>nm_sock := sock\<rparr>);
        Some (if m_status response = SUCCESS
              then (say_line (''[Client] Connected to Name Server at '' @ ip @ '':'' @ show_int port) c1, True)
              else (say_line ''[Client] Registration failed'' c1, False))
      })"

section \<open>Commands\<close>

definition help_text :: "string list" where
  "help_text =
     [''Available commands:'',
      ''  VIEW [-a] [-l] [-al]  - List files'',
      ''  READ <filename>       - Read file content'',
      ''  CREATE <filename>     - Create new file'',
      ''  WRITE <filename> <sent_idx> - Write to file'',
      ''  DELETE <filename>     - Delete file'',
      ''  INFO <filename>       - Get file information'',
      ''  STREAM <filename>     - Stream file content'',
      ''  LIST                  - List all users'',
      ''  ADDACCESS -R|-W <filename> <username> - Add access'',
      ''  REMACCESS <filename> <username> - Remove access'',
      ''  EXEC <filename>       - Execute file as commands'',
      ''  UNDO <filename>       - Undo last change'',
      ''  CREATEFOLDER <foldername> [parent_path] - Create new folder'',
      ''  MOVE <filename> <foldername> - Move file to folder'',
      ''  VIEWFOLDER <foldername>  - View folder contents'',
      ''  CHECKPOINT <filename> <tag> - Create checkpoint'',
      ''  VIEWCHECKPOINT <filename> <tag> - View checkpoint content'',
      ''  REVERT <filename> <tag> - Revert to checkpoint'',
      ''  LISTCHECKPOINTS <filename> - List all checkpoints'',
      ''  REQUESTACCESS -R|-W <filename> - Request file access'',
      ''  VIEWREQUESTS          - View pending access requests'',
      ''  APPROVEREQUEST <id>   - Approve access request'',
      ''  DENYREQUEST <id>      - Deny access request'',
      ''  exit                  - Exit client'']"

text \<open>A command that needs \<^verbatim>\<open>n\<close> words, or its usage.\<close>

definition with_words ::
  "nat \<Rightarrow> string \<Rightarrow> string list \<Rightarrow> ('w client \<Rightarrow> 'w client option) \<Rightarrow> 'w client \<Rightarrow> 'w client option" where
  "with_words n usage argv run c =
     (if length argv < n then Some (say_line (''Usage: '' @ usage) c) else run c)"

text \<open>The commands that read no further input.\<close>

definition simple_command :: "'w client_env \<Rightarrow> string list \<Rightarrow> 'w client \<Rightarrow> 'w client option" where
  "simple_command env argv =
     (let cmd = argv ! 0 in
      if cmd = ''help'' then (\<lambda>c. Some (fold say_line help_text c))
      else if cmd = ''VIEW'' then handle_view_cl env (if length argv > 1 then Some (join_tail argv) else None)
      else if cmd = ''READ'' then with_words 2 ''READ <filename>'' argv (handle_read_cl env (argv ! 1))
      else if cmd = ''CREATE'' then with_words 2 ''CREATE <filename>'' argv (handle_create_cl env (argv ! 1))
      else if cmd = ''DELETE'' then with_words 2 ''DELETE <filename>'' argv (handle_delete_cl env (argv ! 1))
      else if cmd = ''INFO'' then with_words 2 ''INFO <filename>'' argv (handle_info_cl env (argv ! 1))
      else if cmd = ''STREAM'' then with_words 2 ''STREAM <filename>'' argv (handle_stream_cl env (argv ! 1))
      else if cmd = ''LIST'' then handle_list_cl env
      else if cmd = ''ADDACCESS''
      then with_words 4 ''ADDACCESS -R|-W <filename> <username>'' argv
             (handle_addaccess_cl env (argv ! 1) (argv ! 2) (argv ! 3))
      else if cmd = ''REMACCESS''
      then with_words 3 ''REMACCESS <filename> <username>'' argv (handle_remaccess_cl env (argv ! 1) (argv ! 2))
      else if cmd = ''EXEC'' then with_words 2 ''EXEC <filename>'' argv (handle_exec_cl env (argv ! 1))
      else if cmd = ''UNDO'' then with_words 2 ''UNDO <filename>'' argv (handle_undo_cl env (argv ! 1))
      else if cmd = ''CREATEFOLDER''
      then with_words 2 ''CREATEFOLDER <foldername> [parent_path]'' argv
             (handle_createfolder_cl env (argv ! 1) (if length argv > 2 then Some (argv ! 2) else None))
      else if cmd = ''MOVE''
      then with_words 3 ''MOVE <filename> <foldername>'' argv (handle_move_file_cl env (argv ! 1) (argv ! 2))
      else if cmd = ''VIEWFOLDER''
      then with_words 2 ''VIEWFOLDER <foldername>'' argv (handle_viewfolder_cl env (argv ! 1))
      else if cmd = ''CHECKPOINT''
      then with_words 3 ''CHECKPOINT <filename> <tag>'' argv (handle_checkpoint_cl env (argv ! 1) (argv ! 2))
      else if cmd = ''VIEWCHECKPOINT''
      then with_words 3 ''VIEWCHECKPOINT <filename> <tag>'' argv (handle_viewcheckpoint_cl env (argv ! 1) (argv ! 2))
      else if cmd = ''REVERT''
      then with_words 3 ''REVERT <filename> <tag>'' argv (handle_revert_cl env (argv ! 1) (argv ! 2))
      else if cmd = ''LISTCHECKPOINTS''
      then with_words 2 ''LISTCHECKPOINTS <filename>'' argv (handle_listcheckpoints_cl env (argv ! 1))
      else if cmd = ''REQUESTACCESS''
      then with_words 3 ''REQUESTACCESS -R|-W <filename>'' argv (handle_requestaccess_cl env (argv ! 1) (argv ! 2))
      else if cmd = ''VIEWREQUESTS'' then handle_viewrequests_cl env
      else if cmd = ''APPROVEREQUEST''
      then with_words 2 ''APPROVEREQUEST <request_id>'' argv (handle_approverequest_cl env (argv ! 1))
      else if cmd = ''DENYREQUEST''
      then with_words 2 ''DENYREQUEST <request_id>'' argv (handle_denyrequest_cl env (argv ! 1))
      else (\<lambda>c. Some (say_line (''Type '' @ CHR 0x27 # ''help'' @ CHR 0x27 # '' for list of commands'') (say_line (''Unknown command: '' @ cmd) c))))"

text \<open>One line; the flag tells that the client leaves the loop.\<close>

definition run_line ::
  "'w client_env \<Rightarrow> string \<Rightarrow> input list \<Rightarrow> 'w client \<Rightarrow> ('w client \<times> bool \<times> input list) option" where
  "run_line env line ins c =
     (let argv = split_command (trim_whitespace line) in
      if argv = [] then Some (c, False, ins)
      else if argv ! 0 = ''exit'' \<or> argv ! 0 = ''quit'' then Some (say_line ''Goodbye!'' c, True, ins)
      else if argv ! 0 = ''WRITE''
      then if length argv < 3 then Some (say_line ''Usage: WRITE <filename> <sentence_index>'' c, False, ins)
           else handle_write_cl env (argv ! 1) (argv ! 2) ins c
      else map_option (\<lambda>c'. (c', False, ins)) (simple_command env argv c))"

text \<open>A session consumes input only from the front.\<close>

lemma write_loop_rest:
  "write_loop env f i ins s count ok = Some (s', count', ok', exited, rest) \<Longrightarrow> length rest \<le> length ins"
proof (induction ins arbitrary: s count ok)
  case Nil
  then show ?case by (cases s) auto
next
  case (Cons ev ins)
  obtain c t where s: "s = (c, t)" by (cases s)
  show ?case
  proof (cases ev)
    case (Line l)
    then show ?thesis
      using Cons.prems unfolding s
      by (auto simp: Let_def split: Option.bind_splits option.splits write_result.splits if_splits
          dest!: Cons.IH)
  next
    case Interrupt
    then show ?thesis using Cons.prems s by (auto split: Option.bind_splits)
  qed
qed

lemma handle_write_rest: "handle_write_cl env f n ins c = Some (c', exited, rest) \<Longrightarrow> length rest \<le> length ins"
  by (auto simp: handle_write_cl_def edit_session_def Let_def dest!: write_loop_rest split: Option.bind_splits option.splits if_splits)

lemma run_line_rest: "run_line env line ins c = Some (c', stop, rest) \<Longrightarrow> length rest \<le> length ins"
  by (auto simp: run_line_def Let_def dest: handle_write_rest split: if_splits)

section \<open>The command loop\<close>

text \<open>
  \<^verbatim>\<open>select\<close> reports a line or the pipe of the signal handler. With buffered input \<^verbatim>\<open>fgets\<close> is
  called only when it can return; a line the C library has read ahead counts as typed when
  \<^verbatim>\<open>select\<close> wakes up again.
\<close>

function command_loop :: "'w client_env \<Rightarrow> input list \<Rightarrow> 'w client \<Rightarrow> 'w client option" where
  "command_loop env [] c = Some (say (NEWLINE # ''> '') c)"
| "command_loop env (Interrupt # ins) c =
     map_option (say_line (NEWLINE # ''Received interrupt, exiting client.''))
       (perform_pending_unlock env (say (NEWLINE # ''> '') c))"
| "command_loop env (Line l # ins) c =
     (case run_line env l ins (say (NEWLINE # ''> '') c) of
        None \<Rightarrow> None
      | Some (c1, stop, rest) \<Rightarrow> if stop then Some c1 else command_loop env rest c1)"
  by pat_completeness auto
termination
  by (relation "measure (\<lambda>(env, ins, c). length ins)") (auto dest: run_line_rest simp: less_Suc_eq_le)

declare command_loop.simps [simp del]

definition run_client ::
  "'w client_env \<Rightarrow> string \<Rightarrow> int \<Rightarrow> int \<Rightarrow> string option \<Rightarrow> string \<Rightarrow> input list \<Rightarrow> 'w \<Rightarrow> 'w client option" where
  "run_client env ip port sock local_addr name ins w = do {
     (c, registered) \<leftarrow> connect_to_nm env ip port sock local_addr (init_client name w);
     if registered
     then map_option (close_client_sock env sock)
            (command_loop env ins (say_line (NEWLINE # ''Welcome '' @ username c @
               ''! Type commands (or '' @ CHR 0x27 # ''help'' @ CHR 0x27 # '' for list, '' @ CHR 0x27 # ''exit'' @
               CHR 0x27 # '' to quit):'') c))
     else Some c
   }"

section \<open>Arguments\<close>

text \<open>The checks of \<^verbatim>\<open>main\<close>: what it prints before it gives up, or the address it accepts.\<close>

definition parse_arguments :: "string list \<Rightarrow> string + string \<times> int" where
  "parse_arguments argv =
     (if length argv \<noteq> 3
      then Inl (''Usage: '' @ argv ! 0 @ '' <nm_ip> <nm_port>'' @ NEWLINE #
                ''Example: '' @ argv ! 0 @ '' 127.0.0.1 8081'' @ [NEWLINE])
      else let port = atoi (argv ! 2) in
        if port \<le> 0 \<or> port > 65535
        then Inl (''Error: Invalid port number. Must be between 1 and 65535.'' @ [NEWLINE])
        else if port \<noteq> 8081
        then Inl (''Error: To register as a user, you must register under port 8081.'' @ [NEWLINE])
        else Inr (c_copy INET_ADDRSTRLEN (argv ! 1), port))"

definition client_main ::
  "'w client_env \<Rightarrow> string list \<Rightarrow> int \<Rightarrow> string option \<Rightarrow> string \<Rightarrow> input list \<Rightarrow> 'w \<Rightarrow> (string + 'w client) option" where
  "client_main env argv sock local_addr name ins w =
     (case parse_arguments argv of
        Inl complaint \<Rightarrow> Some (Inl complaint)
      | Inr (ip, port) \<Rightarrow> map_option Inr (run_client env ip port sock local_addr name ins w))"

end
