(* ===== verification/ClientSafety.thy ===== *)
theory ClientSafety
  imports ClientLoop
begin

text \<open>
  What the client does to the world behind its sockets, whatever the servers answer and the
  user types. The interface \<^verbatim>\<open>served_world\<close> is a property of that world that its operations
  keep as long as requests are well formed; every run of the client then keeps it.
\<close>

section \<open>Requests of a client\<close>

text \<open>
  A request carries the name of the user, a type that the server of this kind knows, strings that fit, and an
  access right where the request is about one. The flag tells a request to the name server from one to a storage server.
\<close>

definition nm_types :: "int set" where
  "nm_types = {MSG_CREATE, MSG_READ, MSG_WRITE, MSG_DELETE, MSG_INFO, MSG_VIEW, MSG_LIST, MSG_ADDACCESS, MSG_REMACCESS,
     MSG_EXEC, MSG_UNDO, MSG_CREATEFOLDER, MSG_MOVE, MSG_VIEWFOLDER, MSG_CHECKPOINT, MSG_VIEWCHECKPOINT, MSG_REVERT,
     MSG_LISTCHECKPOINTS, MSG_REQUESTACCESS, MSG_VIEWREQUESTS, MSG_APPROVEREQUEST, MSG_DENYREQUEST}"

definition ss_types :: "int set" where
  "ss_types = {MSG_READ, MSG_WRITE, MSG_UNDO, MSG_STREAM, MSG_LOCK_SENTENCE, MSG_UNLOCK_SENTENCE, MSG_CANCEL_WRITE}"

definition client_request :: "string \<Rightarrow> bool \<Rightarrow> message \<Rightarrow> bool" where
  "client_request user to_nm msg \<longleftrightarrow>
     m_sender msg = user \<and> m_type msg \<in> (if to_nm then nm_types else ss_types) \<and> m_status msg = SUCCESS \<and>
     fits MAX_FILENAME (m_filename msg) \<and> fits MAX_FILENAME (m_foldername msg) \<and> fits MAX_PATH (m_target_path msg) \<and>
     fits MAX_USERNAME (m_checkpoint_tag msg) \<and> fits MAX_USERNAME (m_target_user msg) \<and>
     (if m_type msg \<in> {MSG_ADDACCESS, MSG_REQUESTACCESS} then m_access msg \<in> {ACCESS_READ, ACCESS_READWRITE}
      else m_access msg = ACCESS_NONE)"

lemma request_fields [simp]:
  "m_type (request c t) = t" "m_sender (request c t) = username c" "m_status (request c t) = SUCCESS"
  "m_filename (request c t) = []" "m_foldername (request c t) = []" "m_target_path (request c t) = []"
  "m_checkpoint_tag (request c t) = []" "m_target_user (request c t) = []" "m_access (request c t) = ACCESS_NONE"
  by (simp_all add: request_def init_message_def)

lemma fits_Nil [simp]: "fits n [] \<longleftrightarrow> 0 < n"
  by (simp add: fits_def)

lemma pred_option_SomeD: "pred_option P r \<Longrightarrow> r = Some x \<Longrightarrow> P x"
  by simp

section \<open>Invariants of the client\<close>

text \<open>
  A predicate on the client that its socket operations keep, as long as the requests sent
  are well formed and go to the kind of server that implements them, and that does not depend on what was printed. The
  socket \<^verbatim>\<open>nm\<close> leads to the name server; \<^verbatim>\<open>ss_ok\<close> holds of the sockets that storage servers are called on.
\<close>

locale client_calls =
  fixes env :: "'w client_env" and user :: string and nm :: int and ss_ok :: "int \<Rightarrow> bool" and inv :: "'w client \<Rightarrow> bool"
  assumes sender_ok: "inv c \<Longrightarrow> username c = user" "inv c \<Longrightarrow> nm_sock c = nm"
    and printed_ok: "inv (c\<lparr>printed := p\<rparr>) = inv c"
    and send_nm: "inv c \<Longrightarrow> client_request user True msg \<Longrightarrow> send_to env nm msg c = (c', r) \<Longrightarrow> inv c'"
    and send_ss: "inv c \<Longrightarrow> ss_ok sock \<Longrightarrow> client_request user False msg \<Longrightarrow> send_to env sock msg c = (c', r) \<Longrightarrow> inv c'"
    and recv_ok: "inv c \<Longrightarrow> recv_from env sock buf c = Some (c', r', resp) \<Longrightarrow> inv c'"
    and connect_ok: "inv c \<Longrightarrow> connect_to_ss env info c = Some (c', r) \<Longrightarrow> inv c' \<and> ss_ok r"
    and close_ok: "inv c \<Longrightarrow> inv (close_client_sock env sock c)"
begin

text \<open>A request of the right kind for its socket.\<close>

definition may_send :: "int \<Rightarrow> message \<Rightarrow> bool" where
  "may_send sock msg \<longleftrightarrow> sock = nm \<and> client_request user True msg \<or> ss_ok sock \<and> client_request user False msg"

lemma send_ok: "inv c \<Longrightarrow> may_send sock msg \<Longrightarrow> send_to env sock msg c = (c', r) \<Longrightarrow> inv c'"
  unfolding may_send_def using send_nm [of c msg c' r] send_ss [of c sock msg c' r] by blast

declare close_ok [simp]

text \<open>The invariant of a call that may not return.\<close>

abbreviation keeps :: "'w client option \<Rightarrow> bool" where
  "keeps r \<equiv> pred_option inv r"

lemma say_ok [simp]: "inv (say s c) = inv c" "inv (say_line s c) = inv c" "inv (print_error e c) = inv c"
  by (simp_all add: say_def say_line_def print_error_def printed_ok)

lemma ask_ok:
  assumes "inv c" and "may_send sock msg" and "ask env sock msg buf c = Some (c', resp)"
  shows "inv c'"
proof -
  obtain c1 r where send: "send_to env sock msg c = (c1, r)" by fastforce
  then obtain r' where "recv_from env sock buf c1 = Some (c', r', resp)" using assms(3) by (auto simp: ask_def)
  from recv_ok [OF send_ok [OF assms(1,2) send] this] show ?thesis .
qed

text \<open>The same facts as postconditions, for the chains of calls in the handlers.\<close>

abbreviation keeps_fst :: "('w client \<times> 'x) option \<Rightarrow> bool" where
  "keeps_fst r \<equiv> pred_option (\<lambda>x. inv (fst x)) r"

lemma bind_keeps:
  assumes "pred_option P m" and "\<And>x. P x \<Longrightarrow> pred_option Q (k x)"
  shows "pred_option Q (m \<bind> k)"
  using assms by (cases m) auto

lemma ask_keeps: "inv c \<Longrightarrow> may_send sock msg \<Longrightarrow> keeps_fst (ask env sock msg buf c)"
  using ask_ok by (cases "ask env sock msg buf c") auto

lemma recv_keeps: "inv c \<Longrightarrow> keeps_fst (recv_from env sock buf c)"
  using recv_ok by (cases "recv_from env sock buf c") auto

lemma connect_keeps: "inv c \<Longrightarrow> pred_option (\<lambda>x. inv (fst x) \<and> ss_ok (snd x)) (connect_to_ss env info c)"
  using connect_ok by (cases "connect_to_ss env info c") auto

lemma nm_command_ok: "inv c \<Longrightarrow> may_send (nm_sock c) msg \<Longrightarrow> keeps (nm_command env msg done c)"
  unfolding nm_command_def by (rule bind_keeps [OF ask_keeps]) auto

lemmas command_keeps = nm_command_ok may_send_def client_request_def nm_types_def ss_types_def sender_ok

lemma simple_handlers_ok:
  assumes "inv c"
  shows "keeps (handle_createfolder_cl env f p c)" "keeps (handle_move_file_cl env f g c)" "keeps (handle_viewfolder_cl env g c)"
    "keeps (handle_view_cl env a c)" "keeps (handle_checkpoint_cl env f t c)" "keeps (handle_viewcheckpoint_cl env f t c)"
    "keeps (handle_revert_cl env f t c)" "keeps (handle_listcheckpoints_cl env f c)" "keeps (handle_delete_cl env f c)"
    "keeps (handle_info_cl env f c)" "keeps (handle_exec_cl env f c)" "keeps (handle_list_cl env c)"
    "keeps (handle_addaccess_cl env a' f u c)" "keeps (handle_remaccess_cl env f u c)"
    "keeps (handle_requestaccess_cl env a' f c)" "keeps (handle_viewrequests_cl env c)"
    "keeps (handle_approverequest_cl env r c)" "keeps (handle_denyrequest_cl env r c)"
  using assms
  by (auto simp: handle_createfolder_cl_def handle_move_file_cl_def handle_viewfolder_cl_def handle_view_cl_def
      handle_checkpoint_cl_def handle_viewcheckpoint_cl_def handle_revert_cl_def checkpoint_command_def
      handle_listcheckpoints_cl_def handle_delete_cl_def handle_info_cl_def handle_exec_cl_def file_command_def
      handle_list_cl_def handle_addaccess_cl_def handle_remaccess_cl_def handle_requestaccess_cl_def
      handle_viewrequests_cl_def handle_approverequest_cl_def handle_denyrequest_cl_def access_flag_def Let_def
      command_keeps fits_def split: option.splits)

text \<open>The calls as steps of a verification-condition generator.\<close>

lemma ask_bind:
  assumes "inv c" and "may_send sock msg" and "\<And>c' resp. inv c' \<Longrightarrow> pred_option Q (k (c', resp))"
  shows "pred_option Q (ask env sock msg buf c \<bind> k)"
  by (rule bind_keeps [OF ask_keeps [OF assms(1,2)]]) (use assms(3) in \<open>auto split: prod.splits\<close>)

lemma recv_bind:
  assumes "inv c" and "\<And>c' r resp. inv c' \<Longrightarrow> pred_option Q (k (c', r, resp))"
  shows "pred_option Q (recv_from env sock buf c \<bind> k)"
  by (rule bind_keeps [OF recv_keeps [OF assms(1)]]) (use assms(2) in \<open>auto split: prod.splits\<close>)

lemma connect_bind:
  assumes "inv c" and "\<And>c' sock. inv c' \<Longrightarrow> ss_ok sock \<Longrightarrow> pred_option Q (k (c', sock))"
  shows "pred_option Q (connect_to_ss env info c \<bind> k)"
  by (rule bind_keeps [OF connect_keeps [OF assms(1)]]) (use assms(2) in \<open>auto split: prod.splits\<close>)

lemma send_case:
  assumes "inv c" and "may_send sock msg" and "\<And>c' r. inv c' \<Longrightarrow> pred_option Q (k c' r)"
  shows "pred_option Q (case send_to env sock msg c of (c', r) \<Rightarrow> k c' r)"
  using send_ok [OF assms(1,2)] assms(3) by (cases "send_to env sock msg c") auto

lemmas call_steps = ask_bind recv_bind connect_bind send_case

lemma create_ok: "inv c \<Longrightarrow> keeps (handle_create_cl env f c)"
  by (auto simp: handle_create_cl_def command_keeps Let_def intro!: call_steps)

text \<open>A redirection asks for no access right, and gives a socket of a storage server.\<close>

abbreviation keeps_server :: "('w client \<times> (int \<times> message) option) option \<Rightarrow> bool" where
  "keeps_server r \<equiv> pred_option (\<lambda>x. inv (fst x) \<and> pred_option (\<lambda>s. ss_ok (fst s)) (snd x)) r"

lemma ask_for_server_ok:
  "inv c \<Longrightarrow> t \<in> nm_types \<inter> {MSG_READ, MSG_WRITE, MSG_UNDO} \<Longrightarrow> keeps_server (ask_for_server env t complaint f c)"
  by (auto simp: ask_for_server_def may_send_def client_request_def sender_ok intro!: call_steps)

lemma ask_for_server_bind:
  assumes "inv c" and "t \<in> nm_types \<inter> {MSG_READ, MSG_WRITE, MSG_UNDO}"
    and "\<And>c' server. inv c' \<Longrightarrow> pred_option (\<lambda>s. ss_ok (fst s)) server \<Longrightarrow> fits MAX_FILENAME f \<Longrightarrow> pred_option Q (k (c', server))"
  shows "pred_option Q (ask_for_server env t complaint f c \<bind> k)"
proof (cases "fits MAX_FILENAME f")
  case True
  show ?thesis
    by (rule bind_keeps [OF ask_for_server_ok [OF assms(1,2)]]) (use assms(3) True in \<open>auto split: prod.splits\<close>)
qed (simp add: ask_for_server_def)

lemma server_command_ok:
  "inv c \<Longrightarrow> t \<in> nm_types \<inter> ss_types \<inter> {MSG_READ, MSG_WRITE, MSG_UNDO} \<Longrightarrow> keeps (server_command env t done f c)"
  unfolding server_command_def
  by (auto simp: may_send_def client_request_def sender_ok split: option.splits intro!: call_steps ask_for_server_bind)

lemma stream_loop_ok:
  assumes "stream_loop env sock buf c = Some c'" and "inv c"
  shows "inv c'"
proof -
  have "env = env \<longrightarrow> inv c \<longrightarrow> inv c'"
  proof (rule stream_loop.raw_induct [where P = "\<lambda>e s b c c'. e = env \<longrightarrow> inv c \<longrightarrow> inv c'", OF _ assms(1)])
    fix loop e s b c c'
    assume IH: "\<And>e s b c c'. loop e s b c = Some c' \<Longrightarrow> e = env \<longrightarrow> inv c \<longrightarrow> inv c'"
      and step: "recv_from e s b c \<bind> (\<lambda>(c1, r, resp).
        if r < 0 then Some (say_line ''Stream interrupted'' c1)
        else if m_type resp = MSG_STOP then Some c1
        else if m_type resp \<noteq> MSG_DATA then loop e s resp c1
        else loop e s resp (say (stream_token resp) c1)) = Some c'"
    show "e = env \<longrightarrow> inv c \<longrightarrow> inv c'"
    proof (intro impI)
      assume e: "e = env" and "inv c"
      obtain c1 r resp where got: "recv_from env s b c = Some (c1, r, resp)"
        using step e by (auto split: Option.bind_splits)
      then have c1: "inv c1" using \<open>inv c\<close> by (rule recv_ok [rotated])
      show "inv c'" using step [unfolded e got] IH c1 by (auto split: if_splits)
    qed
  qed
  then show ?thesis using assms(2) by simp
qed

lemma stream_bind:
  assumes "inv c" and "\<And>c'. inv c' \<Longrightarrow> pred_option Q (k c')"
  shows "pred_option Q (stream_loop env sock buf c \<bind> k)"
  using stream_loop_ok [OF _ assms(1)] assms(2) by (cases "stream_loop env sock buf c") auto

lemma stream_ok: "inv c \<Longrightarrow> keeps (handle_stream_cl env f c)"
  unfolding handle_stream_cl_def Let_def
  by (auto simp: may_send_def client_request_def sender_ok nm_types_def ss_types_def split: option.splits
      intro!: call_steps ask_for_server_bind stream_bind)

lemma help_ok: "inv (fold say_line ls c) = inv c"
  by (induction ls arbitrary: c) simp_all

lemma with_words_ok: "inv c \<Longrightarrow> keeps (run c) \<Longrightarrow> keeps (with_words n usage argv run c)"
  by (simp add: with_words_def)

lemma simple_command_ok:
  assumes "inv c"
  shows "keeps (simple_command env argv c)"
  unfolding simple_command_def Let_def
  by (auto simp: help_ok assms nm_types_def ss_types_def handle_read_cl_def handle_undo_cl_def
      intro!: with_words_ok simple_handlers_ok create_ok stream_ok server_command_ok)

end

section \<open>Sessions and the command loop\<close>

text \<open>The variables of the signal handler change in a session only.\<close>

locale session_calls = client_calls env user nm ss_ok inv
  for env :: "'w client_env" and user :: string and nm :: int and ss_ok :: "int \<Rightarrow> bool" and inv :: "'w client \<Rightarrow> bool" +
  assumes signal_ok: "inv (c\<lparr>current_locked_sentence := n\<rparr>) = inv c" "inv (c\<lparr>current_locked_filename := f\<rparr>) = inv c"
    and sock_ok: "inv c \<Longrightarrow> ss_ok s \<Longrightarrow> inv (c\<lparr>current_ss_sock := s\<rparr>)" "inv c \<Longrightarrow> ss_ok (current_ss_sock c)" "ss_ok (- 1)"
begin

declare signal_ok [simp] sock_ok [simp]

lemma clear_ok [simp]: "inv c \<Longrightarrow> inv (clear_session c)"
  by (simp add: clear_session_def)

lemma give_up_ok [simp]: "inv c \<Longrightarrow> inv (give_up_lock env sock c)"
  "inv c \<Longrightarrow> inv (lost_connection env reason left sock c)"
  by (simp_all add: give_up_lock_def lost_connection_def)

lemma pending_unlock_ok: "inv c \<Longrightarrow> keeps (perform_pending_unlock env c)"
  unfolding perform_pending_unlock_def Let_def
  by (auto simp: command_keeps c_copy_def fits_def intro!: call_steps)

lemma unlock_bind:
  assumes "inv c" and "\<And>c'. inv c' \<Longrightarrow> pred_option Q (k c')"
  shows "pred_option Q (perform_pending_unlock env c \<bind> k)"
  by (rule bind_keeps [OF pending_unlock_ok [OF assms(1)]]) (rule assms(2))

lemma session_requests:
  assumes "fits MAX_FILENAME f" and "username c' = user"
  shows "client_request user True (redirect_request c' f)" "client_request user False (lock_message c' f i)"
    "client_request user False (write_message c' f i k w)" "client_request user False (unlock_message c' f i)"
  using assms
  by (auto simp: client_request_def redirect_request_def lock_message_def write_message_def unlock_message_def
      nm_types_def ss_types_def)

lemmas session_sends = may_send_def session_requests sender_ok

text \<open>The socket of a session is one of a storage server all the time.\<close>

abbreviation session_ok :: "'w session \<Rightarrow> bool" where
  "session_ok s \<equiv> inv (fst s) \<and> ss_ok (fst (snd s))"

lemma reconnect_ok:
  assumes "inv c" and "fits MAX_FILENAME f" and "ss_ok sock"
  shows "pred_option session_ok (reconnect env f i (c, sock, resp))"
  unfolding reconnect_def Let_def
  using assms by (auto simp: session_sends intro!: call_steps)

lemma reconnect_bind:
  assumes "inv c" and "fits MAX_FILENAME f" and "ss_ok sock" and "\<And>s. session_ok s \<Longrightarrow> pred_option Q (k s)"
  shows "pred_option Q (reconnect env f i (c, sock, resp) \<bind> k)"
  by (rule bind_keeps [OF reconnect_ok [OF assms(1-3)]]) (rule assms(4))

lemma write_retry_ok:
  "session_ok s \<Longrightarrow> fits MAX_FILENAME f \<Longrightarrow> pred_option (\<lambda>r. session_ok (fst r)) (write_retry env f i k w n s)"
proof (induction n arbitrary: s)
  case (Suc n)
  obtain c sock resp where s: "s = (c, sock, resp)" by (cases s)
  have "inv c" "ss_ok sock" "fits MAX_FILENAME f" using Suc.prems s by simp_all
  then show ?case
    unfolding s by (auto simp: Let_def session_sends intro!: call_steps reconnect_bind Suc.IH)
qed simp

lemma write_retry_bind:
  assumes "session_ok s" and "fits MAX_FILENAME f" and "\<And>s r. session_ok s \<Longrightarrow> pred_option Q (k (s, r))"
  shows "pred_option Q (write_retry env f i j w n s \<bind> k)"
  by (rule bind_keeps [OF write_retry_ok [OF assms(1,2)]]) (use assms(3) in \<open>auto split: prod.splits\<close>)

lemma write_loop_ok:
  "session_ok s \<Longrightarrow> fits MAX_FILENAME f \<Longrightarrow> pred_option (\<lambda>r. session_ok (fst r)) (write_loop env f i ins s count ok)"
proof (induction ins arbitrary: s count ok)
  case Nil
  then show ?case by (cases s) simp
next
  case (Cons ev ins)
  obtain c t where s: "s = (c, t)" by (cases s)
  show ?case
  proof (cases ev)
    case (Line l)
    then show ?thesis
      using Cons by (auto simp: s Let_def split: option.splits write_result.splits intro!: write_retry_bind)
  next
    case Interrupt
    then show ?thesis using Cons.prems by (auto simp: s intro!: unlock_bind)
  qed
qed

lemma write_loop_bind:
  assumes "session_ok s" and "fits MAX_FILENAME f" and "\<And>s r. session_ok s \<Longrightarrow> pred_option Q (k (s, r))"
  shows "pred_option Q (write_loop env f i ins s count ok \<bind> k)"
  by (rule bind_keeps [OF write_loop_ok [OF assms(1,2)]]) (use assms(3) in \<open>auto split: prod.splits\<close>)

lemma end_session_bind:
  assumes "session_ok (c, sock, resp)" and "fits MAX_FILENAME f" and "\<And>c'. inv c' \<Longrightarrow> pred_option Q (k c')"
  shows "pred_option Q (end_session env f i (c, sock, resp) \<bind> k)"
proof -
  have "keeps (end_session env f i (c, sock, resp))"
    unfolding end_session_def Let_def
    using assms(1,2) by (auto simp: session_sends intro!: call_steps bind_keeps [where P = inv])
  then show ?thesis by (rule bind_keeps) (rule assms(3))
qed

lemma handle_write_ok: "inv c \<Longrightarrow> keeps_fst (handle_write_cl env f n ins c)"
  unfolding handle_write_cl_def edit_session_def Let_def
  by (auto simp: nm_types_def session_sends split: option.splits
      intro!: ask_for_server_bind ask_bind write_loop_bind end_session_bind)

lemma run_line_ok: "inv c \<Longrightarrow> keeps_fst (run_line env line ins c)"
  using simple_command_ok [of c "split_command (trim_whitespace line)"] handle_write_ok
  by (auto simp: run_line_def Let_def pred_option_def split: if_splits)

lemma command_loop_ok: "inv c \<Longrightarrow> keeps (command_loop env ins c)"
proof (induction "length ins" arbitrary: ins c rule: less_induct)
  case less
  show ?case
  proof (cases ins)
    case Nil
    then show ?thesis using less.prems by (simp add: command_loop.simps)
  next
    case (Cons ev rest)
    show ?thesis
    proof (cases ev)
      case Interrupt
      then show ?thesis using Cons pending_unlock_ok [of "say (NEWLINE # ''> '') c"] less.prems
        by (auto simp: command_loop.simps pred_option_def)
    next
      case (Line l)
      have "keeps_fst (run_line env l rest (say (NEWLINE # ''> '') c))"
        using run_line_ok less.prems by simp
      moreover have "keeps (command_loop env rest' c')" if "inv c'" "length rest' \<le> length rest" for rest' c'
        using less.hyps [of rest' c'] that Cons by simp
      ultimately show ?thesis
        using Cons Line run_line_rest [of env l rest]
        by (cases "run_line env l rest (say (NEWLINE # ''> '') c)") (auto simp: command_loop.simps)
    qed
  qed
qed

end

section \<open>Worlds that serve a client\<close>

text \<open>A property of the world behind the sockets that serving well-formed requests keeps.\<close>

locale served_world =
  fixes env :: "'w client_env" and user :: string and nm :: int and served :: "'w \<Rightarrow> bool"
  assumes nm_socket: "0 \<le> nm"
    and transmit_served:
      "served w \<Longrightarrow> client_request user (sock = nm) msg \<Longrightarrow> transmit env w sock msg = (w', r) \<Longrightarrow> served w'"
    and receive_served: "served w \<Longrightarrow> receive env w sock = Some (w', got) \<Longrightarrow> served w'"
    and open_served: "served w \<Longrightarrow> open_sock env w ip port = (w', r) \<Longrightarrow> served w' \<and> r \<noteq> nm"
    and close_served: "served w \<Longrightarrow> served (close_sock env w sock)"
begin

definition client_ok :: "'w client \<Rightarrow> bool" where
  "client_ok c \<longleftrightarrow> username c = user \<and> nm_sock c = nm \<and> current_ss_sock c \<noteq> nm \<and> served (world c)"

lemma connect_served:
  assumes "client_ok c" and "connect_to_ss env info c = Some (c', sock)"
  shows "client_ok c' \<and> sock \<noteq> nm"
proof -
  obtain ip port where "scan_address env info = Some (ip, port)" using assms(2) by (auto simp: connect_to_ss_def)
  moreover obtain w' s where opened: "open_sock env (world c) ip (port mod 2 ^ 16) = (w', s)" by fastforce
  ultimately have "c' = c\<lparr>world := w'\<rparr>" "sock = (if s < 0 then - 1 else s)"
    using assms(2) by (simp_all add: connect_to_ss_def Let_def)
  then show ?thesis using open_served [OF _ opened] nm_socket assms(1) by (auto simp: client_ok_def)
qed

lemma send_served:
  "client_ok c \<Longrightarrow> client_request user (sock = nm) msg \<Longrightarrow> send_to env sock msg c = (c', r) \<Longrightarrow> client_ok c'"
  by (auto simp: send_to_def client_ok_def split: prod.splits dest: transmit_served)

lemma recv_served: "client_ok c \<Longrightarrow> recv_from env sock buf c = Some (c', r, resp) \<Longrightarrow> client_ok c'"
  by (auto simp: recv_from_def client_ok_def dest: receive_served)

end

sublocale served_world \<subseteq> calls: session_calls env user nm "\<lambda>s. s \<noteq> nm" client_ok
proof
  fix c c' :: "'w client" and msg r sock
  show "client_ok (close_client_sock env sock c)" if "client_ok c"
    using that by (simp add: client_ok_def close_client_sock_def close_served)
  show "client_ok c'" if "client_ok c" "client_request user True msg" "send_to env nm msg c = (c', r)"
    using send_served [OF that(1) _ that(3)] that(2) by simp
  show "client_ok c'" if "client_ok c" "sock \<noteq> nm" "client_request user False msg" "send_to env sock msg c = (c', r)"
    using send_served [OF that(1) _ that(4)] that(2,3) by simp
  show "- 1 \<noteq> nm" using nm_socket by simp
qed (erule (1) recv_served | erule (1) connect_served | simp add: client_ok_def)+

section \<open>A world that remembers what was sent\<close>

definition with_log :: "'w client_env \<Rightarrow> ('w \<times> (int \<times> message) list) client_env" where
  "with_log env =
     \<lparr>transmit = (\<lambda>(w, log) sock msg. let (w', r) = transmit env w sock msg in ((w', log @ [(sock, msg)]), r)),
      receive = (\<lambda>(w, log) sock. map_option (\<lambda>(w', got). ((w', log), got)) (receive env w sock)),
      open_sock = (\<lambda>(w, log) ip port. let (w', s) = open_sock env w ip port in ((w', log), s)),
      close_sock = (\<lambda>(w, log) sock. (close_sock env w sock, log)),
      leftover = leftover env, leftover_ip = leftover_ip env, leftover_port = leftover_port env\<rparr>"

definition signed_log :: "string \<Rightarrow> int \<Rightarrow> 'w \<times> (int \<times> message) list \<Rightarrow> bool" where
  "signed_log user nm w \<longleftrightarrow> (\<forall>(sock, msg) \<in> set (snd w). client_request user (sock = nm) msg)"

text \<open>The system never gives a new connection the descriptor of one that is open.\<close>

definition new_sockets :: "'w client_env \<Rightarrow> int \<Rightarrow> bool" where
  "new_sockets env nm \<longleftrightarrow> 0 \<le> nm \<and> (\<forall>w ip port. snd (open_sock env w ip port) \<noteq> nm)"

locale fresh_sockets =
  fixes env :: "'w client_env" and nm :: int
  assumes sockets: "new_sockets env nm"

sublocale fresh_sockets \<subseteq> logged: served_world "with_log env" user nm "signed_log user nm" for user
proof
  fix w w' :: "'w \<times> (int \<times> message) list" and sock sock' r port :: int and msg :: message and got :: "message option" and ip
  show "0 \<le> nm" using sockets by (simp add: new_sockets_def)
  show "signed_log user nm w'" if "signed_log user nm w" "client_request user (sock = nm) msg" "transmit (with_log env) w sock msg = (w', r)"
    using that by (cases w) (auto simp: with_log_def signed_log_def Let_def split: prod.splits)
  show "signed_log user nm w'" if "signed_log user nm w" "receive (with_log env) w sock = Some (w', got)"
    using that by (cases w) (auto simp: with_log_def signed_log_def)
  show "signed_log user nm w' \<and> sock' \<noteq> nm" if "signed_log user nm w" "open_sock (with_log env) w ip port = (w', sock')"
  proof (cases w)
    case (Pair v log)
    then have "snd (open_sock env v ip port) = sock'" "snd w' = snd w"
      using that(2) by (auto simp: with_log_def Let_def split: prod.splits)
    moreover from this(1) have "sock' \<noteq> nm" using sockets unfolding new_sockets_def by blast
    ultimately show ?thesis using that(1) by (simp add: signed_log_def)
  qed
  show "signed_log user nm (close_sock (with_log env) w sock)" if "signed_log user nm w"
    using that by (cases w) (simp add: with_log_def signed_log_def)
qed

context fresh_sockets begin

lemma loop_sends:
  assumes "command_loop (with_log env) ins c = Some c'" and "snd (world c) = []" and "nm_sock c = nm" and "current_ss_sock c \<noteq> nm"
  shows "signed_log (username c) nm (world c')"
proof -
  have "logged.client_ok (username c) c" using assms(2-4) by (simp add: logged.client_ok_def signed_log_def)
  from logged.calls.command_loop_ok [OF this, of ins] assms(1) show ?thesis by (simp add: logged.client_ok_def)
qed

end


text \<open>Servers that answer from a script, on one socket for each connection.\<close>

definition script_env :: "message option list client_env" where
  "script_env =
     \<lparr>transmit = (\<lambda>w sock msg. (w, 0)), receive = (\<lambda>w sock. case w of [] \<Rightarrow> None | r # rs \<Rightarrow> Some (rs, r)),
      open_sock = (\<lambda>w ip port. (w, 4)), close_sock = (\<lambda>w sock. w),
      leftover = init_message, leftover_ip = [], leftover_port = 0\<rparr>"

definition logged_in :: "string \<Rightarrow> 'w \<Rightarrow> 'w client" where
  "logged_in user w = \<lparr>username = user, nm_sock = 3, current_ss_sock = - 1, current_locked_sentence = - 1,
     current_locked_filename = [], world = w, printed = []\<rparr>"

lemma list_command:
  "\<exists>c'. command_loop (with_log script_env) [Line ''LIST''] (logged_in ''u'' ([Some init_message], [])) = Some c' \<and>
     snd (world c') = [(3, init_message\<lparr>m_type := MSG_LIST, m_sender := ''u''\<rparr>)]"
proof -
  have "trim_whitespace ''LIST'' = ''LIST''" by code_simp
  moreover have "split_command ''LIST'' = [''LIST'']"
    using split_command_typed [of "[''LIST'']"] by (simp add: plain_word_def is_sep_def)
  ultimately show ?thesis
    by (simp add: command_loop.simps run_line_def simple_command_def handle_list_cl_def nm_command_def ask_def
        send_to_def recv_from_def with_log_def script_env_def logged_in_def request_def say_def)
       (simp add: init_message_def)
qed

interpretation script: fresh_sockets script_env 3
  by unfold_locales (simp add: new_sockets_def script_env_def)


end
