(* ===== verification/ClientProps.thy ===== *)
theory ClientProps
  imports ClientSafety
begin

text \<open>
  The write sessions of the client: what they send, what they leave behind, what they tell
  the user, and what becomes of them when the connection breaks.
\<close>

section \<open>No session between commands\<close>

definition idle :: "'w client \<Rightarrow> bool" where
  "idle c \<longleftrightarrow> current_ss_sock c = - 1 \<and> current_locked_sentence c = - 1"

text \<open>The calls on sockets leave the variables of the signal handler alone.\<close>

lemma connect_world: "connect_to_ss env info c = Some (c', r) \<Longrightarrow> \<exists>w. c' = c\<lparr>world := w\<rparr>"
  by (cases "scan_address env info") (auto simp: connect_to_ss_def Let_def case_prod_beta)

interpretation frame: client_calls env user nm "\<lambda>s. True"
    "\<lambda>c. username c = user \<and> nm_sock c = nm \<and> P (current_ss_sock c) (current_locked_sentence c)"
  for env :: "'w client_env" and user nm and P :: "int \<Rightarrow> int \<Rightarrow> bool"
  by standard
    (auto simp: send_to_def recv_from_def close_client_sock_def split: prod.splits dest: connect_world)

lemma ask_frame:
  assumes "ask env sock msg buf c = Some (c', resp)"
  shows "username c' = username c \<and> current_ss_sock c' = current_ss_sock c \<and>
    current_locked_sentence c' = current_locked_sentence c"
  using assms by (auto simp: ask_def send_to_def recv_from_def split: prod.splits)

lemma idle_clear [simp]: "idle (clear_session c)" "idle (say_line s c) = idle c"
  by (simp_all add: idle_def clear_session_def say_line_def say_def)

lemma end_session_idle: "end_session env f i s = Some c' \<Longrightarrow> idle c'"
  by (cases s) (auto simp: end_session_def Let_def split: Option.bind_splits if_splits prod.splits)

lemma handle_write_idle:
  assumes "idle c" and "handle_write_cl env f n ins c = Some (c', False, rest)"
  shows "idle c'"
proof -
  let ?c = "c\<lparr>current_locked_sentence := - 1, current_locked_filename := []\<rparr>"
  obtain c1 server where asked: "ask_for_server env MSG_WRITE ''Error: Could not connect to storage server'' f ?c = Some (c1, server)"
    using assms(2) by (auto simp: handle_write_cl_def Let_def split: Option.bind_splits)
  have c1: "idle c1"
    using pred_option_SomeD [OF frame.ask_for_server_ok [where user = "username c" and nm = "nm_sock c" and
          P = "\<lambda>s l. s = - 1 \<and> l = - 1" and c = ?c and t = MSG_WRITE] asked] assms(1)
    by (simp add: idle_def nm_types_def)
  show ?thesis
  proof (cases server)
    case None
    then show ?thesis using assms(2) asked c1 by (simp add: handle_write_cl_def Let_def)
  next
    case (Some p)
    obtain sock response where p: "p = (sock, response)" by (cases p)
    obtain c2 resp where lock: "ask env sock (lock_message c1 f (atoi n)) response (c1\<lparr>current_ss_sock := sock\<rparr>) = Some (c2, resp)"
      using assms(2) asked Some p by (auto simp: handle_write_cl_def Let_def split: Option.bind_splits)
    have "current_locked_sentence c2 = - 1" using ask_frame [OF lock] c1 by (simp add: idle_def)
    then have "idle (close_client_sock env sock (print_error e c2)\<lparr>current_ss_sock := - 1\<rparr>)" for e
      by (simp add: idle_def close_client_sock_def print_error_def say_line_def say_def)
    moreover have "idle c'" if edit: "edit_session env f i ins s = Some (c', False, rest)" for i s
    proof -
      obtain d s1 x m where "end_session env f i (d, s1) = Some x" and c': "c' = say_line m x"
        using edit by (cases s) (auto simp: edit_session_def split: Option.bind_splits if_splits)
      from this(1) have "idle x" by (rule end_session_idle)
      then show ?thesis by (simp add: c')
    qed
    ultimately show ?thesis
      using assms(2) asked Some p lock
      by (auto simp: handle_write_cl_def Let_def split: Option.bind_splits if_splits)
  qed
qed

text \<open>
  C13. Between two commands the client holds no sentence: a command that starts without a
  session ends without one, unless it ends the client. The clean-up that the command loop
  runs on an interrupt then has nothing to do.
\<close>

theorem no_session_between_commands:
  assumes "idle c" and "run_line env line ins c = Some (c', False, rest)"
  shows "idle c' \<and> perform_pending_unlock env c' = Some c'"
proof -
  have simple: "idle c''" if "simple_command env argv c = Some c''" for argv c''
    using pred_option_SomeD [OF frame.simple_command_ok [where user = "username c" and nm = "nm_sock c" and
          P = "\<lambda>s l. s = - 1 \<and> l = - 1" and c = c] that] assms(1)
    by (simp add: idle_def)
  have "idle c'"
    using assms by (auto simp: run_line_def Let_def dest: simple handle_write_idle split: if_splits)
  then show ?thesis by (simp add: idle_def perform_pending_unlock_def)
qed

text \<open>An idle client that has just listed the users.\<close>

theorem no_session_between_commands_witness:
  "\<exists>c'. run_line script_env ''LIST'' [] (logged_in ''u'' [Some init_message]) = Some (c', False, []) \<and>
     idle c' \<and> perform_pending_unlock script_env c' = Some c'"
proof -
  have "trim_whitespace ''LIST'' = ''LIST''" by code_simp
  moreover have "split_command ''LIST'' = [''LIST'']"
    using split_command_typed [of "[''LIST'']"] by (simp add: plain_word_def is_sep_def)
  ultimately obtain c' where run: "run_line script_env ''LIST'' [] (logged_in ''u'' [Some init_message]) = Some (c', False, [])"
    by (auto simp: run_line_def simple_command_def handle_list_cl_def nm_command_def ask_def send_to_def recv_from_def
        script_env_def logged_in_def)
  have "idle (logged_in ''u'' [Some init_message])" by (simp add: idle_def logged_in_def)
  from no_session_between_commands [OF this run] run show ?thesis by blast
qed

section \<open>Transcripts\<close>

text \<open>The calls on a scripted world that remembers what was sent.\<close>

abbreviation recorded :: "(message option list \<times> (int \<times> message) list) client_env" where
  "recorded \<equiv> with_log script_env"

lemma recorded_calls [simp]:
  "world c = (rs, log) \<Longrightarrow> send_to recorded sock m c = (c\<lparr>world := (rs, log @ [(sock, m)])\<rparr>, 0)"
  "world c = (Some m # rs, log) \<Longrightarrow> recv_from recorded sock buf c = Some (c\<lparr>world := (rs, log)\<rparr>, 0, m)"
  "world c = (None # rs, log) \<Longrightarrow> recv_from recorded sock buf c = Some (c\<lparr>world := (rs, log)\<rparr>, - 1, buf)"
  "world c = w \<Longrightarrow> close_client_sock recorded sock c = c\<lparr>world := w\<rparr>"
  by (simp_all add: send_to_def recv_from_def close_client_sock_def with_log_def script_env_def case_prod_beta prod_eq_iff)

lemma recorded_ask [simp]:
  "world c = (Some m # rs, log) \<Longrightarrow> ask recorded sock msg buf c = Some (c\<lparr>world := (rs, log @ [(sock, msg)])\<rparr>, m)"
  by (simp add: ask_def)

lemma say_fields [simp]:
  "world (say s c) = world c" "username (say s c) = username c" "nm_sock (say s c) = nm_sock c"
  "current_ss_sock (say s c) = current_ss_sock c" "current_locked_sentence (say s c) = current_locked_sentence c"
  "current_locked_filename (say s c) = current_locked_filename c"
  by (simp_all add: say_def)

lemma say_line_fields [simp]:
  "world (say_line s c) = world c" "username (say_line s c) = username c" "nm_sock (say_line s c) = nm_sock c"
  "current_ss_sock (say_line s c) = current_ss_sock c" "current_locked_sentence (say_line s c) = current_locked_sentence c"
  "current_locked_filename (say_line s c) = current_locked_filename c"
  by (simp_all add: say_line_def)

definition entry_ok :: "int \<times> string \<Rightarrow> bool" where
  "entry_ok = (\<lambda>(k, w). int32 k \<and> NUL \<notin> set w \<and> w \<noteq> [] \<and> last w \<noteq> SPACE)"

definition typed_line :: "int \<times> string \<Rightarrow> input" where
  "typed_line = (\<lambda>(k, w). Line (type_write k w @ [NEWLINE]))"

definition stop_line :: input where
  "stop_line = Line (''ETIRW'' @ [NEWLINE])"

definition accepted :: "message list \<Rightarrow> bool" where
  "accepted ms \<longleftrightarrow> list_all (\<lambda>m. m_status m = SUCCESS) ms"

definition write_messages :: "'w client \<Rightarrow> string \<Rightarrow> int \<Rightarrow> int \<Rightarrow> (int \<times> string) list \<Rightarrow> (int \<times> message) list" where
  "write_messages c f i sock ps = map (\<lambda>(k, w). (sock, write_message c f i k w)) ps"

lemma entry_line:
  assumes "entry_ok (k, w)"
  shows "trim_whitespace (type_write k w @ [NEWLINE]) = type_write k w" "type_write k w \<noteq> ''ETIRW''"
    "parse_write_line (type_write k w) = Some (k, w)"
proof -
  have ok: "int32 k" "NUL \<notin> set w" "w \<noteq> []" "last w \<noteq> SPACE" using assms by (simp_all add: entry_ok_def)
  show "trim_whitespace (type_write k w @ [NEWLINE]) = type_write k w" 
    using ok(3,4) by (rule trim_typed) (simp add: is_blank_def)
  show parsed: "parse_write_line (type_write k w) = Some (k, w)" using ok by (rule parse_typed)
  have "parse_write_line ''ETIRW'' = None" by code_simp
  then show "type_write k w \<noteq> ''ETIRW''" using parsed by auto
qed

lemma stop_trimmed: "trim_whitespace (''ETIRW'' @ [NEWLINE]) = ''ETIRW''"
  by code_simp

definition write_output :: "nat \<Rightarrow> string" where
  "write_output n = concat (replicate n (''Client: Write successful!'' @ [NEWLINE]))"

lemma write_messages_Cons:
  "write_messages c f i sock ((k, w) # ps) = (sock, write_message c f i k w) # write_messages c f i sock ps"
  by (simp add: write_messages_def)

lemma write_messages_update [simp]:
  "write_messages (c\<lparr>world := w\<rparr>) = write_messages c" "write_messages (c\<lparr>printed := s\<rparr>) = write_messages c"
  by (simp_all add: write_messages_def write_message_def request_def fun_eq_iff)

lemma write_loop_prefix:
  "list_all entry_ok ps \<Longrightarrow> accepted acks \<Longrightarrow> length acks = length ps \<Longrightarrow> world c = (map Some acks @ later, log) \<Longrightarrow>
   write_loop recorded f i (map typed_line ps @ ins) (c, sock, resp) n ok =
     write_loop recorded f i ins (c\<lparr>world := (later, log @ write_messages c f i sock ps),
       printed := printed c @ write_output (length ps)\<rparr>, sock, last (resp # acks)) (n + length ps) ok"
proof (induction ps arbitrary: acks c log resp n)
  case Nil
  then have eq: "c\<lparr>world := (later, log)\<rparr> = c" by (cases c) simp
  show ?case using Nil by (simp add: write_messages_def write_output_def) (simp only: eq)
next
  case (Cons p ps)
  obtain k w where p: "p = (k, w)" by (cases p)
  obtain m ms where acks: "acks = m # ms" "m_status m = SUCCESS" "accepted ms" "length ms = length ps"
    using Cons.prems(2,3) by (cases acks) (auto simp: accepted_def)
  note line = entry_line [of k w]
  let ?c = "c\<lparr>world := (map Some ms @ later, log @ [(sock, write_message c f i k w)]),
              printed := printed c @ ''Client: Write successful!'' @ [NEWLINE]\<rparr>"
  have retry: "write_retry recorded f i k w 5 (say ''Client: '' c, sock, resp) = Some ((?c, sock, m), Written)"
    using Cons.prems(4) acks
    by (simp add: eval_nat_numeral write_message_def request_def say_line_def say_def)
  have "write_loop recorded f i (map typed_line (p # ps) @ ins) (c, sock, resp) n ok =
      write_loop recorded f i (map typed_line ps @ ins) (?c, sock, m) (n + 1) ok"
    using Cons.prems(1) line retry by (simp add: p typed_line_def Let_def)
  also have "\<dots> = write_loop recorded f i ins (?c\<lparr>world := (later, (log @ [(sock, write_message c f i k w)]) @
      write_messages ?c f i sock ps), printed := printed ?c @ write_output (length ps)\<rparr>, sock, last (m # ms))
      (n + 1 + length ps) ok"
    by (rule Cons.IH) (use Cons.prems(1) acks in simp_all)
  finally show ?case by (simp add: p acks(1) write_messages_Cons write_output_def)
qed

lemma write_loop_stop:
  "write_loop env f i (stop_line # ins) (c, s) n ok = Some ((say ''Client: '' c, s), n, ok, False, ins)"
  by (simp add: stop_line_def stop_trimmed [simplified] Let_def)

lemma write_loop_typed:
  assumes "list_all entry_ok ps" and "accepted acks" and "length acks = length ps" and "world c = (map Some acks @ later, log)"
  shows "write_loop recorded f i (map typed_line ps @ stop_line # ins) (c, sock, resp) n ok =
     Some ((c\<lparr>world := (later, log @ write_messages c f i sock ps),
              printed := printed c @ write_output (length ps) @ ''Client: ''\<rparr>,
            sock, last (resp # acks)), n + length ps, ok, False, ins)"
  unfolding write_loop_prefix [OF assms] write_loop_stop by (simp add: say_def)

section \<open>Whole sessions\<close>

text \<open>
  The answers to a session that is let in: of the name server, with the address of a storage
  server, to the lock, to each write, and to the unlock.
\<close>

definition session_answers :: "message \<Rightarrow> message \<Rightarrow> message list \<Rightarrow> message \<Rightarrow> message option list" where
  "session_answers redirect lock acks unlock = map Some (redirect # lock # acks @ [unlock])"

definition session_admitted :: "message \<Rightarrow> message \<Rightarrow> bool" where
  "session_admitted redirect lock \<longleftrightarrow>
     m_status redirect = SUCCESS \<and> scan_address recorded (m_data redirect) \<noteq> None \<and> m_status lock = SUCCESS"

definition session_log :: "'w client \<Rightarrow> string \<Rightarrow> int \<Rightarrow> (int \<times> string) list \<Rightarrow> (int \<times> message) list" where
  "session_log c f i ps =
     (nm_sock c, redirect_request c f) # (4, lock_message c f i) #
     write_messages c f i 4 ps @ [(4, unlock_message c f i)]"

definition session_prompt :: "nat \<Rightarrow> string" where
  "session_prompt n =
     ''Sentence locked. Enter writes (word_index content), then type ETIRW:'' @ NEWLINE # write_output n @ ''Client: ''"

definition session_output :: "nat \<Rightarrow> int \<Rightarrow> string" where
  "session_output n status =
     session_prompt n @ (if status = SUCCESS then [] else ''Unlock failed: '' @ error_text status @ [NEWLINE]) @
     session_summary n True @ [NEWLINE]"

lemma recorded_connect:
  assumes "world c = w" and "scan_address recorded info \<noteq> None"
  shows "connect_to_ss recorded info c = Some (c, 4)"
  using assms by (auto simp: connect_to_ss_def with_log_def script_env_def case_prod_beta)

lemma end_session_recorded:
  assumes "world c = (Some m # rs, log)" and "current_ss_sock c > 0"
  shows "end_session recorded f i (c, sock, resp) = Some (c\<lparr>world := (rs, log @ [(sock, unlock_message c f i)]),
    current_ss_sock := - 1, current_locked_sentence := - 1, current_locked_filename := [],
    printed := printed c @ (if m_status m = SUCCESS then [] else ''Unlock failed: '' @ error_text (m_status m) @ [NEWLINE])\<rparr>)"
  using assms by (simp add: end_session_def clear_session_def print_error_def say_line_def say_def)

lemma edit_recorded:
  assumes "list_all entry_ok ps" and "accepted acks" and "length acks = length ps"
    and "world c = (map Some acks @ [Some unlock], log)" and "current_ss_sock c > 0"
  shows "edit_session recorded f i (map typed_line ps @ stop_line # ins) (c, sock, resp) =
    Some (c\<lparr>world := ([], log @ write_messages c f i sock ps @ [(sock, unlock_message c f i)]),
      current_ss_sock := - 1, current_locked_sentence := - 1, current_locked_filename := [],
      printed := printed c @ session_output (length ps) (m_status unlock)\<rparr>, False, ins)"
proof -
  define c1 where "c1 = say_line ''Sentence locked. Enter writes (word_index content), then type ETIRW:''
    (c\<lparr>current_locked_sentence := i, current_locked_filename := f\<rparr>)"
  have w1: "world c1 = (map Some acks @ [Some unlock], log)" "current_ss_sock c1 > 0" "username c1 = username c"
    using assms(4,5) by (simp_all add: c1_def)
  have same: "write_messages c1 = write_messages c"
    using w1(3) by (simp add: write_messages_def write_message_def request_def fun_eq_iff)
  define c2 where "c2 = c1\<lparr>world := ([Some unlock], log @ write_messages c f i sock ps),
    printed := printed c1 @ write_output (length ps) @ ''Client: ''\<rparr>"
  have loop: "write_loop recorded f i (map typed_line ps @ stop_line # ins) (c1, sock, resp) 0 True =
      Some ((c2, sock, last (resp # acks)), length ps, True, False, ins)"
    unfolding write_loop_typed [OF assms(1-3) w1(1)] by (simp add: same c2_def)
  have w2: "world c2 = ([Some unlock], log @ write_messages c f i sock ps)" "current_ss_sock c2 > 0"
    "unlock_message c2 = unlock_message c"
    using w1 by (simp_all add: c2_def unlock_message_def request_def fun_eq_iff)
  have "edit_session recorded f i (map typed_line ps @ stop_line # ins) (c, sock, resp) =
      map_option (\<lambda>c3. (say_line (session_summary (length ps) True) c3, False, ins))
        (end_session recorded f i (c2, sock, last (resp # acks)))"
    unfolding edit_session_def prod.case c1_def [symmetric] loop by (cases "end_session recorded f i (c2, sock, last (resp # acks))") auto
  then show ?thesis
    unfolding end_session_recorded [OF w2(1,2), unfolded w2(3)]
    by (simp add: c2_def c1_def session_output_def session_prompt_def say_line_def say_def)
qed

lemma session_run:
  assumes "list_all entry_ok ps" and "fits MAX_FILENAME f" and "session_admitted redirect lock" and "accepted acks"
    and "length acks = length ps" and "world c = (session_answers redirect lock acks unlock, log)"
  shows "handle_write_cl recorded f n (map typed_line ps @ stop_line # ins) c =
    Some (c\<lparr>world := ([], log @ session_log c f (atoi n) ps), current_ss_sock := - 1, current_locked_sentence := - 1,
      current_locked_filename := [], printed := printed c @ session_output (length ps) (m_status unlock)\<rparr>, False, ins)"
proof -
  let ?i = "atoi n"
  let ?c0 = "c\<lparr>current_locked_sentence := - 1, current_locked_filename := []\<rparr>"
  let ?rest = "Some lock # map Some acks @ [Some unlock]"
  have w: "world ?c0 = (Some redirect # ?rest, log)" using assms(6) by (simp add: session_answers_def)
  have adm: "m_status redirect = SUCCESS" "scan_address recorded (m_data redirect) \<noteq> None" "m_status lock = SUCCESS"
    using assms(3) by (simp_all add: session_admitted_def)
  let ?c1 = "?c0\<lparr>world := (?rest, log @ [(nm_sock c, redirect_request c f)])\<rparr>"
  have server: "ask_for_server recorded MSG_WRITE complaint f ?c0 = Some (?c1, Some (4, redirect))" for complaint
    using assms(2) adm w recorded_connect [of ?c1 "(?rest, log @ [(nm_sock c, redirect_request c f)])", OF _ adm(2)]
    by (simp add: ask_for_server_def redirect_request_def request_def)
  have locked: "ask recorded 4 (lock_message ?c1 f ?i) redirect (?c1\<lparr>current_ss_sock := 4\<rparr>) =
      Some (?c1\<lparr>current_ss_sock := 4, world := (map Some acks @ [Some unlock],
        log @ [(nm_sock c, redirect_request c f), (4, lock_message c f ?i)])\<rparr>, lock)"
    by (simp add: lock_message_def request_def)
  let ?log = "log @ [(nm_sock c, redirect_request c f), (4, lock_message c f ?i)]"
  define c2 where "c2 = ?c1\<lparr>current_ss_sock := 4, world := (map Some acks @ [Some unlock], ?log)\<rparr>"
  have "handle_write_cl recorded f n (map typed_line ps @ stop_line # ins) c =
      edit_session recorded f ?i (map typed_line ps @ stop_line # ins) (c2, 4, lock)"
    using server locked adm(3) by (simp add: handle_write_cl_def Let_def c2_def)
  also have "\<dots> = Some (c2\<lparr>world := ([], ?log @ write_messages c2 f ?i 4 ps @ [(4, unlock_message c2 f ?i)]),
      current_ss_sock := - 1, current_locked_sentence := - 1, current_locked_filename := [],
      printed := printed c2 @ session_output (length ps) (m_status unlock)\<rparr>, False, ins)"
    by (rule edit_recorded [OF assms(1,4,5)]) (simp_all add: c2_def)
  finally show ?thesis
    by (simp add: c2_def session_log_def write_messages_def write_message_def unlock_message_def request_def)
qed

text \<open>
  C26. A write session that the servers accept is what the user typed: for any texts, the client
  asks the name server, locks the sentence at the server it is sent to, sends one write for
  each line with exactly its index and text, and unlocks; it reports the number of writes, and
  holds no session afterwards.
\<close>

theorem write_session_transcript:
  assumes "list_all entry_ok ps" and "fits MAX_FILENAME f" and "session_admitted redirect lock" and "accepted acks"
    and "length acks = length ps" and "world c = (session_answers redirect lock acks unlock, [])"
    and "m_status unlock = SUCCESS"
  shows "\<exists>c'. handle_write_cl recorded f n (map typed_line ps @ stop_line # ins) c = Some (c', False, ins) \<and>
    snd (world c') = (nm_sock c, redirect_request c f) # (4, lock_message c f (atoi n)) #
      map (\<lambda>(k, w). (4, write_message c f (atoi n) k w)) ps @ [(4, unlock_message c f (atoi n))] \<and>
    idle c' \<and> printed c' = printed c @ session_output (length ps) SUCCESS"
  unfolding session_run [OF assms(1-6)]
  by (simp add: session_log_def write_messages_def idle_def assms(7))

definition redirect_example :: message where
  "redirect_example = init_message\<lparr>m_data := ''h:5''\<rparr>"

lemma admitted_example: "session_admitted redirect_example init_message"
proof -
  have "scan_int ''5'' = Some 5" by code_simp
  then show ?thesis by (simp add: session_admitted_def redirect_example_def init_message_def scan_address_def)
qed

lemma entries_example: "list_all entry_ok [(1, ''Hi.''), (2, ''a b'')]"
  by (simp add: entry_ok_def int32_def)

definition demo_session :: "int \<Rightarrow> (message option list \<times> (int \<times> message) list) client" where
  "demo_session status = logged_in ''u''
     (session_answers redirect_example init_message [init_message, init_message] (init_message\<lparr>m_status := status\<rparr>), [])"

lemma demo_world:
  "world (demo_session status) =
     (session_answers redirect_example init_message [init_message, init_message] (init_message\<lparr>m_status := status\<rparr>), [])"
  by (simp add: demo_session_def logged_in_def)

lemma demo_answers: "accepted [init_message, init_message]" "fits MAX_FILENAME ''f''"
  "length [init_message, init_message] = length [(1 :: int, ''Hi.''), (2, ''a b'')]"
  by (simp_all add: accepted_def fits_def init_message_def)

theorem write_session_transcript_witness:
  "\<exists>c'. handle_write_cl recorded ''f'' ''0'' [typed_line (1, ''Hi.''), typed_line (2, ''a b''), stop_line]
      (demo_session SUCCESS) = Some (c', False, []) \<and> idle c'"
  using write_session_transcript [OF entries_example demo_answers(2) admitted_example demo_answers(1,3)
      demo_world [of SUCCESS], of "''0''" "[]"]
  by auto

text \<open>
  The user is told that all writes are completed although the commit was refused: the
  flag the final message depends on is not cleared when the unlock fails.
\<close>

theorem failed_commit_reported_as_success:
  assumes "list_all entry_ok ps" and "fits MAX_FILENAME f" and "session_admitted redirect lock" and "accepted acks"
    and "length acks = length ps" and "world c = (session_answers redirect lock acks unlock, [])"
    and "m_status unlock \<noteq> SUCCESS" and "ps \<noteq> []"
  shows "\<exists>c'. handle_write_cl recorded f n (map typed_line ps @ stop_line # ins) c = Some (c', False, ins) \<and>
    printed c' = printed c @ session_prompt (length ps) @ ''Unlock failed: '' @ error_text (m_status unlock) @ NEWLINE #
      ''All writes completed successfully! ('' @ show_nat (length ps) @ '' write(s))'' @ [NEWLINE]"
  unfolding session_run [OF assms(1-6)]
  using assms(7,8) by (simp add: session_output_def session_summary_def)

theorem failed_commit_reported_as_success_witness:
  "\<exists>c'. handle_write_cl recorded ''f'' ''0'' [typed_line (1, ''Hi.''), typed_line (2, ''a b''), stop_line]
      (demo_session ERR_SERVER_ERROR) = Some (c', False, []) \<and>
    printed c' = printed (demo_session ERR_SERVER_ERROR) @ session_prompt 2 @ ''Unlock failed: '' @
      error_text ERR_SERVER_ERROR @ NEWLINE #
      ''All writes completed successfully! ('' @ show_nat 2 @ '' write(s))'' @ [NEWLINE]"
  using failed_commit_reported_as_success [OF entries_example demo_answers(2) admitted_example demo_answers(1,3)
      demo_world [of ERR_SERVER_ERROR], of "''0''" "[]"]
  by (simp add: numeral_2_eq_2)

end
