(* ===== verification/ClientReconnect.thy ===== *)
theory ClientReconnect
  imports ClientProps
begin

text \<open>
  A write session that loses its connection, on the side of the client: which requests it
  repeats and what it tells the user. What the repeated lock does to the edits made so far is
  in theory \<^verbatim>\<open>SessionRestart\<close>.
\<close>

text \<open>The answer to a write is lost; the session finds its server again and gets its lock.\<close>

definition reconnect_output :: "string" where
  "reconnect_output =
     ''Error: Storage server disconnected while waiting for response'' @ NEWLINE #
     ''Attempting to reconnect (attempt '' @ show_nat 1 @ ''/5)...'' @ NEWLINE #
     ''Reconnected successfully. Attempting to re-acquire lock...'' @ NEWLINE #
     ''Lock re-acquired. Retrying write operation...'' @ NEWLINE #
     ''Write successful!'' @ [NEWLINE]"

lemma retry_after_loss:
  assumes "session_admitted redirect lock" and "m_status ack = SUCCESS"
    and "world c = (None # Some redirect # Some lock # Some ack # rs, log)"
  shows "write_retry recorded f i k w 5 (c, sock, resp) =
    Some ((c\<lparr>world := (rs, log @ [(sock, write_message c f i k w), (nm_sock c, redirect_request c f), (4, lock_message c f i),
                (4, write_message c f i k w)]),
             current_ss_sock := 4, printed := printed c @ reconnect_output\<rparr>, 4, ack), Written)"
proof -
  have adm: "m_status redirect = SUCCESS" "scan_address recorded (m_data redirect) \<noteq> None" "m_status lock = SUCCESS"
    using assms(1) by (simp_all add: session_admitted_def)
  have connect: "connect_to_ss recorded (m_data redirect) c' = Some (c', 4)" for c'
    using recorded_connect [OF refl adm(2)] .
  show ?thesis
    using assms(2,3) adm connect
    by (simp add: eval_nat_numeral reconnect_def lost_connection_def give_up_lock_def say_line_def say_def reconnect_output_def)
qed

text \<open>
  C30. A session whose last write got no answer, and which then finds its server again and is granted its lock, sends exactly: all
  writes once, the question to the name server, the lock, this last write again and the unlock. None of the earlier writes
  is repeated, although a lock starts the session afresh at the server; the user is told that all of them are completed. The lines
  are non-empty texts without blanks at the end.
\<close>

theorem reconnect_repeats_last_write_only:
  assumes "list_all entry_ok ps" and "entry_ok (k, w)" and "accepted acks" and "length acks = length ps"
    and "session_admitted redirect lock" and "m_status ack = SUCCESS" and "m_status unlock = SUCCESS"
    and "world c = (map Some acks @ [None] @ map Some [redirect, lock, ack, unlock], log)"
  shows "\<exists>c' before. edit_session recorded f i (map typed_line (ps @ [(k, w)]) @ stop_line # ins) (c, 4, resp) = Some (c', False, ins) \<and>
    snd (world c') = log @ map (\<lambda>(j, v). (4, write_message c f i j v)) ps @
      [(4, write_message c f i k w),
       (nm_sock c, redirect_request c f), (4, lock_message c f i), (4, write_message c f i k w), (4, unlock_message c f i)] \<and>
    printed c' = before @ ''All writes completed successfully! ('' @ show_nat (length ps + 1) @ '' write(s))'' @ [NEWLINE]"
proof -
  let ?later = "None # Some redirect # Some lock # Some ack # [Some unlock]"
  define c1 where "c1 = say_line ''Sentence locked. Enter writes (word_index content), then type ETIRW:''
    (c\<lparr>current_locked_sentence := i, current_locked_filename := f\<rparr>)"
  have w1: "world c1 = (map Some acks @ ?later, log)" using assms(8) by (simp add: c1_def)
  have same: "write_messages c1 = write_messages c"
    by (simp add: c1_def say_line_def say_def write_messages_def fun_eq_iff)
  define c2 where "c2 = c1\<lparr>world := (?later, log @ write_messages c f i 4 ps), printed := printed c1 @ write_output (length ps)\<rparr>"
  let ?log = "log @ write_messages c f i 4 ps @ [(4, write_message c f i k w), (nm_sock c, redirect_request c f),
    (4, lock_message c f i), (4, write_message c f i k w)]"
  define c3 where "c3 = (say ''Client: '' c2)\<lparr>world := ([Some unlock], ?log), current_ss_sock := 4,
    printed := printed (say ''Client: '' c2) @ reconnect_output\<rparr>"
  have retry: "write_retry recorded f i k w 5 (say ''Client: '' c2, 4, s) = Some ((c3, 4, ack), Written)" for s
    using retry_after_loss [OF assms(5,6), of "say ''Client: '' c2"]
    by (simp add: c3_def) (simp add: c2_def c1_def say_line_def say_def)
  have "write_loop recorded f i (map typed_line (ps @ [(k, w)]) @ stop_line # ins) (c1, 4, resp) 0 True =
      write_loop recorded f i (typed_line (k, w) # stop_line # ins) (c2, 4, last (resp # acks)) (length ps) True"
    using write_loop_prefix [OF assms(1,3,4) w1, of f i "typed_line (k, w) # stop_line # ins" 4 resp 0 True]
    by (simp add: same c2_def)
  also have "\<dots> = write_loop recorded f i (stop_line # ins) (c3, 4, ack) (length ps + 1) True"
    using retry entry_line [OF assms(2)] by (simp add: typed_line_def Let_def)
  finally have loop: "write_loop recorded f i (map typed_line (ps @ [(k, w)]) @ stop_line # ins) (c1, 4, resp) 0 True =
      Some ((say ''Client: '' c3, 4, ack), length ps + 1, True, False, ins)"
    by (simp add: write_loop_stop)
  have w3: "world (say ''Client: '' c3) = ([Some unlock], ?log)" "current_ss_sock (say ''Client: '' c3) > 0"
    "unlock_message (say ''Client: '' c3) = unlock_message c"
    by (simp_all add: c3_def c2_def c1_def say_def say_line_def)
  have "edit_session recorded f i (map typed_line (ps @ [(k, w)]) @ stop_line # ins) (c, 4, resp) =
      map_option (\<lambda>c4. (say_line (session_summary (length ps + 1) True) c4, False, ins))
        (end_session recorded f i (say ''Client: '' c3, 4, ack))"
    unfolding edit_session_def prod.case c1_def [symmetric] loop
    by (cases "end_session recorded f i (say ''Client: '' c3, 4, ack)") auto
  then show ?thesis
    unfolding end_session_recorded [OF w3(1,2), unfolded w3(3)]
    by (simp add: assms(7) write_messages_def session_summary_def say_line_def say_def)
qed

theorem reconnect_repeats_last_write_only_witness:
  "\<exists>c' before. edit_session recorded ''f'' 0 [typed_line (1, ''Hi.''), typed_line (2, ''a b''), stop_line]
      ((logged_in ''u'' (map Some [init_message] @ [None] @ map Some [redirect_example, init_message, init_message, init_message], []))
         \<lparr>current_ss_sock := 4\<rparr>, 4, init_message) = Some (c', False, []) \<and>
    printed c' = before @ ''All writes completed successfully! ('' @ show_nat 2 @ '' write(s))'' @ [NEWLINE]"
proof -
  let ?c = "(logged_in ''u'' (map Some [init_message] @ [None] @ map Some [redirect_example, init_message, init_message, init_message], []))
    \<lparr>current_ss_sock := 4\<rparr>"
  have ok: "list_all entry_ok [(1, ''Hi.'')]" "entry_ok (2, ''a b'')" "accepted [init_message]"
    "length [init_message] = length [(1 :: int, ''Hi.'')]" "m_status init_message = SUCCESS"
    by (simp_all add: entry_ok_def int32_def accepted_def init_message_def)
  have w: "world ?c = (map Some [init_message] @ [None] @ map Some [redirect_example, init_message, init_message, init_message], [])"
    by (simp add: logged_in_def)
  show ?thesis
    using reconnect_repeats_last_write_only [OF ok(1-4) admitted_example ok(5,5) w, of "''f''" 0 "[]" init_message]
    by (auto simp: numeral_2_eq_2)
qed

end
