(* ===== verification/SessionRestart.thy ===== *)
theory SessionRestart
  imports ServerSafety
begin

text \<open>
  A second lock of a sentence by the user who holds it (\<^verbatim>\<open>handle_lock\<close> of \<^verbatim>\<open>ss.c\<close>, sent by a
  client that has reconnected): the session is found again and started anew, which copies the
  file over the private copy.
\<close>

text \<open>A session whose private copy holds any text, with everything else as after the lock.\<close>

definition edited_session :: "storage_server \<Rightarrow> string \<Rightarrow> string \<Rightarrow> int \<Rightarrow> nat \<Rightarrow> string \<Rightarrow> string \<Rightarrow> bool" where
  "edited_session ss f u i k txt edited \<longleftrightarrow>
     (let s = ss_sessions ss ! k in
      find_session ss f u i = Some k \<and>
      contents (ss_disk ss) (file_path ss f) = Some txt \<and>
      contents (ss_disk ss) (ws_temp_filepath s) = Some edited \<and>
      session_paths_ok ss f s \<and> snd (get_commit_queue ss f) = Some [])"

lemma fresh_is_edited: "fresh_session ss f u i k txt \<Longrightarrow> edited_session ss f u i k txt txt"
  by (simp add: fresh_session_def edited_session_def Let_def)

lemma find_index_update:
  "find_index P xs = Some k \<Longrightarrow> k < length xs \<Longrightarrow> P y \<Longrightarrow> find_index P (xs[k := y]) = Some k"
  by (induction xs arbitrary: k) (auto split: if_splits nat.splits)

lemma restart_session:
  assumes "edited_session ss f u i k txt edited"
  shows "\<exists>ss'. start_write_session_ss ss f u i t = (ss', SUCCESS) \<and> fresh_session ss' f u i k txt \<and> ss_locks ss' = ss_locks ss"
proof -
  define s where "s = ss_sessions ss ! k"
  note ed = assms [unfolded edited_session_def Let_def, folded s_def]
  let ?p = "file_path ss f" and ?t = "ws_temp_filepath s"
  have k: "k < length (ss_sessions ss)" "session_matches f u i s"
    and first: "\<forall>j < k. \<not> session_matches f u i (ss_sessions ss ! j)"
    using ed find_index_SomeD unfolding find_session_def s_def by blast+
  define s' where "s' = s\<lparr>ws_original_count := int (length (parse_file txt)), ws_lock_time := t\<rparr>"
  have paths: "?t \<noteq> ?p" "fs_writable (ss_disk ss) ?t"
    using ed by (simp_all add: session_paths_ok_def Let_def)
  have read: "fs_read (ss_disk ss) ?p = Some txt" using ed by (intro fs_read_file) simp
  have copy: "copy_file (ss_disk ss) ?p ?t = (fst (fs_write (ss_disk ss) ?t txt), 0)"
    using copy_file_ok [of "ss_disk ss" ?p "txt" ?t] ed paths by simp
  define ss' where "ss' = ss\<lparr>ss_sessions := (ss_sessions ss)[k := s'], ss_disk := fst (fs_write (ss_disk ss) ?t txt)\<rparr>"
  have start: "start_write_session_ss ss f u i t = (ss', SUCCESS)"
    using ed read copy
    by (simp add: start_write_session_ss_def get_write_session_def parse_or_empty_def Let_def s_def [symmetric] s'_def ss'_def
        file_path_def)
  have same: "session_matches f u i s'" "?t = ws_temp_filepath s'" using k(2) by (simp_all add: session_matches_def s'_def)
  have paths': "file_path ss' f = ?p" "ss_sessions ss' ! k = s'" using k(1) by (simp_all add: ss'_def file_path_def)
  have "find_session ss' f u i = Some k"
    unfolding find_session_def ss'_def using find_index_update [of "session_matches f u i" "ss_sessions ss" k s'] k(1) same(1) ed
    by (simp add: find_session_def)
  moreover have "contents (ss_disk ss') ?p = Some txt" "contents (ss_disk ss') ?t = Some txt"
    using ed paths by (simp_all add: ss'_def store_simps)
  moreover have "session_paths_ok ss' f s'"
    using ed unfolding session_paths_ok_def paths' same(2) [symmetric] by (simp add: ss'_def store_simps Let_def)
  moreover have "snd (get_commit_queue ss' f) = Some []"
    using ed by (auto simp: get_commit_queue_def ss'_def split: option.splits if_splits)
  ultimately have "fresh_session ss' f u i k txt"
    unfolding fresh_session_def paths' same(2) [symmetric] by (simp add: Let_def) (simp add: s'_def)
  then show ?thesis using start by (auto simp: ss'_def)
qed

text \<open>A write changes the private copy only; a lock by the holder is granted and starts the session anew.\<close>

lemma write_keeps_session:
  assumes "edited_session ss f u i k txt edited" and "write_file_ss ss f u i wi w = Some (ss1, status)"
  shows "\<exists>edited'. edited_session ss1 f u i k txt edited' \<and> ss_locks ss1 = ss_locks ss"
proof -
  define s where "s = ss_sessions ss ! k"
  note ed = assms(1) [unfolded edited_session_def Let_def, folded s_def]
  have paths: "ws_temp_filepath s \<noteq> file_path ss f" "fs_writable (ss_disk ss) (ws_temp_filepath s)"
    using ed by (simp_all add: session_paths_ok_def Let_def)
  have "ss1 = ss \<or> (\<exists>b. ss1 = ss\<lparr>ss_disk := fst (fs_write (ss_disk ss) (ws_temp_filepath s) b)\<rparr>)"
    using assms(2) ed by (auto simp: write_file_ss_def s_def Let_def case_prod_beta split: if_splits option.splits)
  then show ?thesis
  proof
    assume "ss1 = ss"
    then show ?thesis using assms(1) by blast
  next
    assume "\<exists>b. ss1 = ss\<lparr>ss_disk := fst (fs_write (ss_disk ss) (ws_temp_filepath s) b)\<rparr>"
    then obtain b where ss1: "ss1 = ss\<lparr>ss_disk := fst (fs_write (ss_disk ss) (ws_temp_filepath s) b)\<rparr>" by blast
    have same: "file_path ss1 f = file_path ss f" "ss_sessions ss1 = ss_sessions ss" by (simp_all add: ss1 file_path_def)
    have "snd (get_commit_queue ss1 f) = Some []"
      using ed by (auto simp: get_commit_queue_def ss1 split: option.splits if_splits)
    then have "edited_session ss1 f u i k txt b"
      using ed paths unfolding edited_session_def session_paths_ok_def find_session_def same s_def [symmetric] Let_def
      by (simp add: ss1 store_simps)
    then show ?thesis by (auto simp: ss1)
  qed
qed

lemma relock_restarts:
  assumes "edited_session ss f u i k txt edited" and "holder (ss_locks ss) (f, i) = Some u" and "length u < MAX_USERNAME"
    and "lock_index_valid (parse_file txt) i" and "m_filename msg = f" "m_sender msg = u" "m_sentence_index msg = i"
  shows "\<exists>ss'. handle_lock kern ss msg = Some (ss', SUCCESS) \<and> fresh_session ss' f u i k txt"
proof -
  have i: "0 \<le> i" using assms(4) by (auto simp: lock_index_valid_def split: if_splits)
  obtain ls where "map_of (ss_locks ss) f = Some ls"
    using assms(2) by (auto simp: holder_def get_sentence_lock_def split: option.splits)
  then have "init_file_locks (ss_locks ss) f (i + 1) \<noteq> None" by (simp add: init_file_locks_def Let_def)
  then obtain tbl1 where init: "init_file_locks (ss_locks ss) f (i + 1) = Some tbl1" by blast
  obtain l where l: "get_sentence_lock tbl1 f i = Some l" by (rule init_has_lock [OF init i])
  have "lock_sentence_ss (ss_locks ss) f i u (now kern) \<noteq> None" using init l by (simp add: lock_sentence_ss_def)
  then obtain tbl r where lock: "lock_sentence_ss (ss_locks ss) f i u (now kern) = Some (tbl, r)" by auto
  have "r = SUCCESS" using locks.acquire_success [OF i assms(3) lock] assms(2) by simp
  moreover have "edited_session (ss\<lparr>ss_locks := tbl\<rparr>) f u i k txt edited"
    using assms(1) by (auto simp: edited_session_def session_paths_ok_def find_session_def get_commit_queue_def file_path_def
        Let_def split: option.splits if_splits)
  from restart_session [OF this] obtain ss' where
    "start_write_session_ss (ss\<lparr>ss_locks := tbl\<rparr>) f u i (now kern) = (ss', SUCCESS)" "fresh_session ss' f u i k txt" by blast
  moreover have "fs_read (ss_disk ss) (file_path ss f) = Some txt"
    using assms(1) by (intro fs_read_file) (simp add: edited_session_def Let_def)
  ultimately show ?thesis
    using lock assms(4-7) by (simp add: handle_lock_def parse_or_empty_def)
qed

text \<open>
  C28. A second lock of a sentence by the user who holds it discards the edits made so far:
  after any write into a session, the lock is granted again and leaves the session exactly as
  fresh as it was before the write, with the file's old text as its private copy.
\<close>

theorem relock_discards_writes:
  assumes "fresh_session ss f u i k txt" and "holder (ss_locks ss) (f, i) = Some u" and "length u < MAX_USERNAME"
    and "lock_index_valid (parse_file txt) i"
    and "m_type wr = MSG_WRITE" "m_filename wr = f" "m_sender wr = u" "m_sentence_index wr = i"
    and "handle_client_request kern ss wr = Some (ss1, [reply SUCCESS])"
    and "m_type lk = MSG_LOCK_SENTENCE" "m_filename lk = f" "m_sender lk = u" "m_sentence_index lk = i"
  shows "\<exists>ss2. handle_client_request kern' ss1 lk = Some (ss2, [reply SUCCESS]) \<and> fresh_session ss2 f u i k txt"
proof -
  obtain status where "write_file_ss ss f u i (m_word_index wr) (m_data wr) = Some (ss1, status)"
    using assms(5-9) by (auto simp: handle_client_request_def Let_def)
  from write_keeps_session [OF fresh_is_edited [OF assms(1)] this] obtain e where
    e: "edited_session ss1 f u i k txt e" "holder (ss_locks ss1) (f, i) = Some u" using assms(2) by auto
  from relock_restarts [OF e assms(3,4,11-13), of kern'] obtain ss2
    where "handle_lock kern' ss1 lk = Some (ss2, SUCCESS)" "fresh_session ss2 f u i k txt" by blast
  then show ?thesis using assms(10) by (simp add: handle_client_request_def Let_def)
qed

definition held_server :: storage_server where
  "held_server = example_server\<lparr>ss_locks := [(''f'', [\<lparr>locked = True, locked_by = ''u'', lock_time = 2\<rparr>])]\<rparr>"

definition example_message :: "int \<Rightarrow> message" where
  "example_message t = init_message\<lparr>m_type := t, m_sender := ''u'', m_filename := ''f'', m_sentence_index := 0,
     m_word_index := 2, m_data := ''and''\<rparr>"

lemma held_fresh: "fresh_session held_server ''f'' ''u'' 0 0 ''One. Two.''"
  using example_fresh
  by (simp add: held_server_def fresh_session_def session_paths_ok_def find_session_def get_commit_queue_def file_path_def
      Let_def split: option.splits if_splits)

lemma held_holder: "holder (ss_locks held_server) (''f'', 0) = Some ''u''"
  by (simp add: held_server_def holder_def get_sentence_lock_def)

lemma held_write:
  "\<exists>ss1. handle_client_request example_kernel held_server (example_message MSG_WRITE) = Some (ss1, [reply SUCCESS])"
proof -
  have "insert_word_in_sentence [[''One'', ''.''], ['' '', ''Two'', ''.'']] 0 2 ''and'' =
      Some ([[''One'', ''and'', ''.''], ['' '', ''Two'', ''.'']], int 0)" by code_simp
  then have ins: "insert_word_in_sentence (parse_file ''One. Two.'') 0 2 ''and'' =
      Some ([[''One'', ''and'', ''.''], ['' '', ''Two'', ''.'']], int 0)" unfolding example_parse .
  note fr = held_fresh [unfolded fresh_session_def Let_def]
  have "write_file_ss held_server ''f'' ''u'' 0 2 ''and'' = Some (held_server\<lparr>ss_disk := fst (fs_write (ss_disk held_server)
      (ws_temp_filepath (ss_sessions held_server ! 0)) (write_file_content [[''One'', ''and'', ''.''], ['' '', ''Two'', ''.'']]))\<rparr>, SUCCESS)"
    by (rule write_step [OF _ refl _ _ _ _ ins]) (use fr in \<open>simp_all add: session_paths_ok_def Let_def\<close>)
  then show ?thesis by (simp add: handle_client_request_def example_message_def)
qed

theorem relock_discards_writes_witness:
  "\<exists>ss1 ss2. handle_client_request example_kernel held_server (example_message MSG_WRITE) = Some (ss1, [reply SUCCESS]) \<and>
     handle_client_request example_kernel ss1 (example_message MSG_LOCK_SENTENCE) = Some (ss2, [reply SUCCESS]) \<and>
     fresh_session ss2 ''f'' ''u'' 0 0 ''One. Two.''"
proof -
  obtain ss1 where wr: "handle_client_request example_kernel held_server (example_message MSG_WRITE) = Some (ss1, [reply SUCCESS])"
    using held_write by blast
  have valid: "lock_index_valid (parse_file ''One. Two.'') 0" by (simp add: example_parse lock_index_valid_def)
  have "\<exists>ss2. handle_client_request example_kernel ss1 (example_message MSG_LOCK_SENTENCE) = Some (ss2, [reply SUCCESS]) \<and>
      fresh_session ss2 ''f'' ''u'' 0 0 ''One. Two.''"
    by (rule relock_discards_writes [OF held_fresh held_holder _ valid _ _ _ _ wr]) (simp_all add: example_message_def)
  then show ?thesis using wr by blast
qed

end
