(* ===== verification/ClientSystem.thy ===== *)
theory ClientSystem
  imports System ClientReconnect SessionRestart
begin

text \<open>
  Clients, name server and storage servers together: the sockets of a client lead to
  \<^verbatim>\<open>handle_client_connection\<close> of the name server and to \<^verbatim>\<open>handle_client_request\<close> of the
  storage servers, with every message in its wire format.
\<close>

section \<open>What the name server does to the storage servers\<close>

text \<open>A property of the world behind the name server that every exchange keeps.\<close>

locale exchanged_world =
  fixes env :: "'w nm_env" and kept :: "'w \<Rightarrow> bool"
  assumes exchange_kept: "kept w \<Longrightarrow> exchange env w k m = (w', rc, resp) \<Longrightarrow> kept w'"
begin

lemma refresh_kept:
  "refresh_details env (nm, w) fs = Some ((nm', w'), out) \<Longrightarrow> kept w \<Longrightarrow> kept w'"
proof (induction fs arbitrary: nm w out)
  case (Cons f fs)
  then show ?case
    by (auto simp: Let_def split: option.splits Option.bind_splits prod.splits if_splits dest: exchange_kept)
qed simp

lemma handlers_kept:
  assumes "kept w"
  shows "handle_requestaccess env (nm, w) msg = Some ((nm', w'), out) \<Longrightarrow> kept w'"
    "handle_viewrequests env (nm, w) msg = Some ((nm', w'), out) \<Longrightarrow> kept w'"
    "handle_approverequest env (nm, w) msg = Some ((nm', w'), out) \<Longrightarrow> kept w'"
    "handle_denyrequest env (nm, w) msg = Some ((nm', w'), out) \<Longrightarrow> kept w'"
    "handle_viewfolder env (nm, w) msg = Some ((nm', w'), out) \<Longrightarrow> kept w'"
    "handle_list env (nm, w) msg = Some ((nm', w'), out) \<Longrightarrow> kept w'"
    "handle_access env (nm, w) msg = Some ((nm', w'), out) \<Longrightarrow> kept w'"
    "handle_redirect env (nm, w) msg resp = Some ((nm', w'), out) \<Longrightarrow> kept w'"
  using assms
  by (auto simp: handle_requestaccess_def handle_viewrequests_def handle_approverequest_def handle_denyrequest_def
      handle_viewfolder_def handle_list_def handle_access_def handle_redirect_def Let_def
      split: if_splits option.splits Option.bind_splits prod.splits)

lemma exchanging_kept:
  assumes "kept w"
  shows "handle_createfolder env (nm, w) msg = Some ((nm', w'), out) \<Longrightarrow> kept w'"
    "handle_move env (nm, w) msg = Some ((nm', w'), out) \<Longrightarrow> kept w'"
    "handle_checkpoint_request env (nm, w) msg = Some ((nm', w'), out) \<Longrightarrow> kept w'"
    "handle_exec env (nm, w) msg = Some ((nm', w'), out) \<Longrightarrow> kept w'"
    "handle_info env (nm, w) msg = Some ((nm', w'), out) \<Longrightarrow> kept w'"
    "handle_create env (nm, w) msg = Some ((nm', w'), out) \<Longrightarrow> kept w'"
    "handle_delete env (nm, w) msg = Some ((nm', w'), out) \<Longrightarrow> kept w'"
    "handle_view env (nm, w) msg = Some ((nm', w'), out) \<Longrightarrow> kept w'"
  using assms
  by (auto simp: handle_createfolder_def handle_move_def handle_checkpoint_request_def handle_exec_def handle_info_def
      handle_create_def handle_delete_def handle_view_def Let_def
      split: if_splits option.splits Option.bind_splits prod.splits dest: exchange_kept refresh_kept)

lemma request_kept:
  assumes "handle_request env (nm, w) msg resp = Some (((nm', w'), out), resp')" and "kept w"
  shows "kept w'"
  using assms(1,2)
  by (auto simp: handle_request_def Let_def split: if_splits
      dest: handlers_kept [OF assms(2)] exchanging_kept [OF assms(2)])

end

interpretation storage: exchanged_world "env\<lparr>exchange := network k stack\<rparr>" "\<lambda>ws. \<forall>ss \<in> set ws. ss_reachable ss"
  for env :: "storage_server list nm_env" and k stack
proof
  fix w w' :: "storage_server list" and i m rc resp
  assume w: "\<forall>ss \<in> set w. ss_reachable ss"
    and ex: "exchange (env\<lparr>exchange := network k stack\<rparr>) w i m = (w', rc, resp)"
  show "\<forall>ss \<in> set w'. ss_reachable ss"
  proof (cases "i < length w \<and> handle_nm_request k (w ! i) (wire m) \<noteq> None")
    case True
    then obtain ss' out where req: "i < length w" "handle_nm_request k (w ! i) (wire m) = Some (ss', out)" by auto
    then have "ss_reachable ss'" using w ss_reachable.name_server [OF _ req(2)] by simp
    then show ?thesis using ex req w set_update_subset_insert [of w i ss'] by (auto simp: network_def)
  next
    case False
    then have "w' = w" using ex by (auto simp: network_def split: if_splits option.splits)
    then show ?thesis using w by simp
  qed
qed

text \<open>No exchange opens or closes a write session.\<close>

interpretation sessions: exchanged_world "env\<lparr>exchange := network k stack\<rparr>" "\<lambda>ws. map ss_sessions ws = sessions"
  for env :: "storage_server list nm_env" and k stack sessions
proof
  fix w w' :: "storage_server list" and i m rc resp
  assume w: "map ss_sessions w = sessions"
    and ex: "exchange (env\<lparr>exchange := network k stack\<rparr>) w i m = (w', rc, resp)"
  show "map ss_sessions w' = sessions"
  proof (cases "i < length w \<and> handle_nm_request k (w ! i) (wire m) \<noteq> None")
    case True
    then obtain ss' out where req: "i < length w" "handle_nm_request k (w ! i) (wire m) = Some (ss', out)" by auto
    then have "w' = w[i := ss']" using ex by (auto simp: network_def)
    moreover have "ss_sessions ss' = map ss_sessions w ! i" using nm_keeps [OF req(2)] req(1) by simp
    ultimately have "map ss_sessions w' = map ss_sessions w" by (simp only: map_update list_update_id)
    then show ?thesis using w by simp
  next
    case False
    then have "w' = w" using ex by (auto simp: network_def split: if_splits option.splits)
    then show ?thesis using w by simp
  qed
qed

section \<open>The sockets of a client\<close>

text \<open>
  Socket 3 is the connection to the name server, with the reply buffer of its thread there;
  socket \<^verbatim>\<open>4 + i\<close> leads to the storage server \<^verbatim>\<open>i\<close>, which listens at the \<^verbatim>\<open>i\<close>th address. A
  request that a server never finishes is never answered.
\<close>

record network_world =
  nw_nm :: name_server
  nw_ss :: "storage_server list"
  nw_reply :: message
  nw_inbox :: "int \<Rightarrow> message list"

definition deliver :: "int \<Rightarrow> message list \<Rightarrow> network_world \<Rightarrow> network_world" where
  "deliver sock ms w = w\<lparr>nw_inbox := (nw_inbox w)(sock := nw_inbox w sock @ map wire ms)\<rparr>"

definition server_transmit ::
  "storage_server list nm_env \<Rightarrow> kernel \<Rightarrow> network_world \<Rightarrow> int \<Rightarrow> message \<Rightarrow> network_world \<times> int" where
  "server_transmit env kern w sock msg =
     (if sock = 3
      then (case handle_request env (nw_nm w, nw_ss w) (wire msg) (nw_reply w) of
              None \<Rightarrow> (w, 0)
            | Some (((nm, ws), out), buf) \<Rightarrow>
                (deliver sock [out] (w\<lparr>nw_nm := nm, nw_ss := ws, nw_reply := buf\<rparr>), 0))
      else if 4 \<le> sock \<and> sock < 4 + int (length (nw_ss w))
      then let i = nat (sock - 4) in
        (case handle_client_request kern (nw_ss w ! i) (wire msg) of
           None \<Rightarrow> (w, 0)
         | Some (ss, outs) \<Rightarrow> (deliver sock outs (w\<lparr>nw_ss := (nw_ss w)[i := ss]\<rparr>), 0))
      else (w, - 1))"

definition server_net ::
  "storage_server list nm_env \<Rightarrow> kernel \<Rightarrow> (string \<times> int) list \<Rightarrow> network_world client_env" where
  "server_net env kern addresses =
     \<lparr>transmit = server_transmit env kern,
      receive = (\<lambda>w sock. case nw_inbox w sock of
         [] \<Rightarrow> None | m # ms \<Rightarrow> Some (w\<lparr>nw_inbox := (nw_inbox w)(sock := ms)\<rparr>, Some m)),
      open_sock = (\<lambda>w ip port. case find_index (\<lambda>a. a = (ip, port)) addresses of
         None \<Rightarrow> (w, - 1) | Some i \<Rightarrow> (w\<lparr>nw_inbox := (nw_inbox w)(4 + int i := [])\<rparr>, 4 + int i)),
      close_sock = (\<lambda>w sock. w\<lparr>nw_inbox := (nw_inbox w)(sock := [])\<rparr>),
      leftover = init_message, leftover_ip = [], leftover_port = 0\<rparr>"

section \<open>Requests of a client keep the servers in reachable states\<close>

definition servers_reachable :: "network_world \<Rightarrow> bool" where
  "servers_reachable w \<longleftrightarrow> nm_reachable (nw_nm w, nw_ss w) \<and> (\<forall>ss \<in> set (nw_ss w). ss_reachable ss)"

lemma wire_ok: "message_ok (wire m)"
  by (simp add: wire_def deserialize_message_ok)

lemma servers_deliver [simp]: "servers_reachable (deliver sock ms w) = servers_reachable w"
  by (simp add: servers_reachable_def deliver_def)

lemma servers_inbox [simp]: "servers_reachable (w\<lparr>nw_inbox := f\<rparr>) = servers_reachable w"
  by (simp add: servers_reachable_def)

lemma nm_request_reachable:
  assumes "servers_reachable w"
    and "handle_request (env\<lparr>exchange := network k stack\<rparr>) (nw_nm w, nw_ss w) (wire msg) buf = Some (((nm, ws), out), buf')"
  shows "servers_reachable (w\<lparr>nw_nm := nm, nw_ss := ws, nw_reply := r\<rparr>)"
proof -
  have "length (m_sender (wire msg)) < MAX_USERNAME" "length (m_filename (wire msg)) < MAX_FILENAME"
    "length (m_target_user (wire msg)) < MAX_USERNAME"
    using wire_ok [of msg] by (simp_all add: message_ok_def buffer_ok_def)
  then have "nm_reachable (nm, ws)"
    using assms by (auto simp: servers_reachable_def intro: nm_reachable.request)
  moreover have "\<forall>ss \<in> set ws. ss_reachable ss"
    using storage.request_kept [OF assms(2)] assms(1) by (simp add: servers_reachable_def)
  ultimately show ?thesis by (simp add: servers_reachable_def)
qed

lemma ss_request_reachable:
  assumes "servers_reachable w" and "i < length (nw_ss w)"
    and "handle_client_request kern (nw_ss w ! i) (wire msg) = Some (ss, outs)"
  shows "servers_reachable (w\<lparr>nw_ss := (nw_ss w)[i := ss]\<rparr>)"
proof -
  have "length (m_sender (wire msg)) < MAX_USERNAME"
    using wire_ok [of msg] by (simp add: message_ok_def buffer_ok_def)
  moreover have "ss_reachable (nw_ss w ! i)" using assms(1,2) by (simp add: servers_reachable_def)
  ultimately have "ss_reachable ss" using ss_reachable.client assms(3) by blast
  then have "\<forall>s \<in> set ((nw_ss w)[i := ss]). ss_reachable s"
    using assms(1) set_update_subset_insert [of "nw_ss w" i ss] by (auto simp: servers_reachable_def)
  moreover have "nm_reachable (nw_nm w, (nw_ss w)[i := ss])"
    using assms(1) nm_reachable.outside by (auto simp: servers_reachable_def)
  ultimately show ?thesis by (simp add: servers_reachable_def)
qed

section \<open>What a client cannot do to others\<close>

text \<open>
  What a user may not change: the files of other users, with their owners and access lists, at the
  name server, and the write sessions of other users at every storage server.
\<close>

definition other_sessions_stay :: "string \<Rightarrow> storage_server \<Rightarrow> storage_server \<Rightarrow> bool" where
  "other_sessions_stay user ss ss' \<longleftrightarrow> (\<forall>s \<in> set (ss_sessions ss). ws_username s \<noteq> user \<longrightarrow> s \<in> set (ss_sessions ss'))"

definition unharmed :: "string \<Rightarrow> network_world \<Rightarrow> network_world \<Rightarrow> bool" where
  "unharmed user w w' \<longleftrightarrow> servers_reachable w' \<and> protected_from user (files_of (nw_nm w)) (files_of (nw_nm w')) \<and>
     list_all2 (other_sessions_stay user) (nw_ss w) (nw_ss w')"

lemma unharmed_deliver [simp]: "unharmed user w0 (deliver sock ms w) = unharmed user w0 w"
  by (simp add: unharmed_def) (simp add: deliver_def)

lemma unharmed_inbox [simp]: "unharmed user w0 (w\<lparr>nw_inbox := f\<rparr>) = unharmed user w0 w"
  by (simp add: unharmed_def)

lemma unharmed_refl: "servers_reachable w \<Longrightarrow> unharmed user w w"
  by (simp add: unharmed_def protected_from_def other_sessions_stay_def list_all2_conv_all_nth)

lemma nm_request_unharmed:
  assumes "unharmed (m_sender msg) w0 w" and "name_ok MAX_USERNAME (m_sender msg)"
    and "handle_request (env\<lparr>exchange := network k stack\<rparr>) (nw_nm w, nw_ss w) (wire msg) buf = Some (((nm, ws), out), buf')"
  shows "unharmed (m_sender msg) w0 (w\<lparr>nw_nm := nm, nw_ss := ws, nw_reply := r\<rparr>)"
proof -
  have w: "servers_reachable w" "protected_from (m_sender msg) (files_of (nw_nm w0)) (files_of (nw_nm w))"
    "list_all2 (other_sessions_stay (m_sender msg)) (nw_ss w0) (nw_ss w)"
    using assms(1) by (simp_all add: unharmed_def)
  have "files_ok (server_ids (nw_nm w)) (files_of (nw_nm w))"
    using w(1) reachable_ok [of "(nw_nm w, nw_ss w)"] by (simp add: servers_reachable_def nm_ok_def)
  then have "protected_from (m_sender msg) (files_of (nw_nm w)) (files_of nm)"
    using request_allowed [OF assms(3)] file_changes_protect unfolding wire_sender [OF assms(2)] by (metis allowed_step_def)
  then have "protected_from (m_sender msg) (files_of (nw_nm w0)) (files_of nm)" by (rule protected_trans [OF w(2)])
  moreover have "map ss_sessions ws = map ss_sessions (nw_ss w)" using sessions.request_kept [OF assms(3) refl] .
  then have "length ws = length (nw_ss w)" "\<forall>i < length ws. ss_sessions (ws ! i) = ss_sessions (nw_ss w ! i)"
    by (metis length_map, metis length_map nth_map)
  then have "list_all2 (other_sessions_stay (m_sender msg)) (nw_ss w0) ws"
    using w(3) by (simp add: list_all2_conv_all_nth other_sessions_stay_def)
  ultimately show ?thesis using nm_request_reachable [OF w(1) assms(3)] by (simp add: unharmed_def)
qed

lemma ss_request_unharmed:
  assumes "unharmed (m_sender msg) w0 w" and "name_ok MAX_USERNAME (m_sender msg)" and "i < length (nw_ss w)"
    and "handle_client_request kern (nw_ss w ! i) (wire msg) = Some (ss, outs)"
  shows "unharmed (m_sender msg) w0 (w\<lparr>nw_ss := (nw_ss w)[i := ss]\<rparr>)"
proof -
  have w: "servers_reachable w" "list_all2 (other_sessions_stay (m_sender msg)) (nw_ss w0) (nw_ss w)"
    using assms(1) by (simp_all add: unharmed_def)
  have "other_sessions_stay (m_sender msg) (nw_ss w ! i) ss"
    using client_keeps_others [OF assms(4)] unfolding wire_sender [OF assms(2)] by (auto simp: other_sessions_stay_def)
  then have "list_all2 (other_sessions_stay (m_sender msg)) (nw_ss w0) ((nw_ss w)[i := ss])"
    using w(2) assms(3) by (auto simp: list_all2_conv_all_nth nth_list_update other_sessions_stay_def)
  then show ?thesis
    using ss_request_reachable [OF w(1) assms(3,4)] assms(1) by (simp add: unharmed_def)
qed

lemma server_sockets: "new_sockets (server_net env kern addresses) 3"
  by (auto simp: new_sockets_def server_net_def split: option.split)

interpretation net_sockets: fresh_sockets "server_net env kern addresses" 3 for env kern addresses
  by unfold_locales (rule server_sockets)

interpretation servers: served_world "server_net (env\<lparr>exchange := network k stack\<rparr>) kern addresses" user 3
    "\<lambda>w. name_ok MAX_USERNAME user \<and> unharmed user w0 w"
  for env :: "storage_server list nm_env" and k stack kern addresses user w0
proof
  fix w w' :: network_world and msg sock r got ip port
  let ?net = "server_net (env\<lparr>exchange := network k stack\<rparr>) kern addresses"
  assume w: "name_ok MAX_USERNAME user \<and> unharmed user w0 w"
  show "name_ok MAX_USERNAME user \<and> unharmed user w0 w'"
    if "client_request user (sock = 3) msg" "transmit ?net w sock msg = (w', r)"
  proof -
    have user: "user = m_sender msg" using that(1) by (simp add: client_request_def)
    show ?thesis
      using that(2) w unfolding user
      by (auto simp: server_net_def server_transmit_def Let_def nm_request_unharmed ss_request_unharmed
          split: if_splits option.splits prod.splits)
  qed
  show "name_ok MAX_USERNAME user \<and> unharmed user w0 w'" if "receive ?net w sock = Some (w', got)"
    using that w by (auto simp: server_net_def split: list.splits)
  show "(name_ok MAX_USERNAME user \<and> unharmed user w0 w') \<and> r \<noteq> 3" if "open_sock ?net w ip port = (w', r)"
    using that w by (auto simp: server_net_def split: option.splits)
  show "name_ok MAX_USERNAME user \<and> unharmed user w0 (close_sock ?net w sock)"
    using w by (simp add: server_net_def)
qed simp

text \<open>
  C8. Whatever a user types, the run of the client harms nobody else: every file of another
  user is still at the name server, with its owner and its access list, and everybody may do with it what they
  might before; every write session that another user has open at a storage server is still open and holds the lock of its
  sentence. The name of the user has no separator and fits its field, so it passes the wire format; names of files, targets and
  texts are arbitrary.
\<close>

theorem client_harms_nobody:
  assumes "exchange env = network k stack" and "servers_reachable (world c)" and "name_ok MAX_USERNAME (username c)"
    and "nm_sock c = 3" and "current_ss_sock c \<noteq> 3"
    and "command_loop (server_net env kern addresses) ins c = Some c'"
  shows "(\<forall>f m. files_of (nw_nm (world c)) f = Some m \<and> fm_owner m \<noteq> username c \<longrightarrow>
      (\<exists>m'. files_of (nw_nm (world c')) f = Some m' \<and> fm_owner m' = fm_owner m \<and> fm_acl m' = fm_acl m) \<and>
      (\<forall>v required. check_access (nw_nm (world c')) f v required = check_access (nw_nm (world c)) f v required)) \<and>
    length (nw_ss (world c')) = length (nw_ss (world c)) \<and>
    (\<forall>i s. i < length (nw_ss (world c)) \<and> s \<in> set (ss_sessions (nw_ss (world c) ! i)) \<and> ws_username s \<noteq> username c \<longrightarrow>
      s \<in> set (ss_sessions (nw_ss (world c') ! i)) \<and>
      holder (ss_locks (nw_ss (world c') ! i)) (ws_filename s, ws_sentence_idx s) = Some (ws_username s))"
proof -
  have env: "env = env\<lparr>exchange := network k stack\<rparr>" using assms(1) by (cases env) simp
  have "servers.client_ok (username c) (world c) c"
    unfolding servers.client_ok_def using assms(2-5) unharmed_refl by blast
  from servers.calls.command_loop_ok [OF this, where env = env and k = k and stack = stack and kern = kern and addresses = addresses and ins = ins]
  have "unharmed (username c) (world c) (world c')"
    using assms(6) unfolding env [symmetric] servers.client_ok_def by simp
  then have w: "protected_from (username c) (files_of (nw_nm (world c))) (files_of (nw_nm (world c')))"
    "list_all2 (other_sessions_stay (username c)) (nw_ss (world c)) (nw_ss (world c'))"
    "\<forall>ss \<in> set (nw_ss (world c')). ss_reachable ss"
    by (simp_all add: unharmed_def servers_reachable_def)
  have files: "(\<exists>m'. files_of (nw_nm (world c')) f = Some m' \<and> fm_owner m' = fm_owner m \<and> fm_acl m' = fm_acl m) \<and>
      (\<forall>v required. check_access (nw_nm (world c')) f v required = check_access (nw_nm (world c)) f v required)"
    if "files_of (nw_nm (world c)) f = Some m \<and> fm_owner m \<noteq> username c" for f m
  proof -
    note other = that
    obtain m' where "files_of (nw_nm (world c')) f = Some m'" "fm_owner m' = fm_owner m" "fm_acl m' = fm_acl m"
      using w(1) other unfolding protected_from_def by blast
    then show ?thesis using other by (simp add: check_access_def meta_allows_right)
  qed
  have open_sessions: "s \<in> set (ss_sessions (nw_ss (world c') ! i)) \<and>
      holder (ss_locks (nw_ss (world c') ! i)) (ws_filename s, ws_sentence_idx s) = Some (ws_username s)"
    if "i < length (nw_ss (world c)) \<and> s \<in> set (ss_sessions (nw_ss (world c) ! i)) \<and> ws_username s \<noteq> username c" for i s
  proof -
    have i: "i < length (nw_ss (world c'))" using that list_all2_lengthD [OF w(2)] by simp
    have s: "s \<in> set (ss_sessions (nw_ss (world c') ! i))"
      using list_all2_nthD [OF w(2), of i] that by (auto simp: other_sessions_stay_def)
    have "ss_reachable (nw_ss (world c') ! i)" using w(3) i by simp
    from sessions_holdD [OF reachable_sessions_hold [OF this] s] s show ?thesis by (simp add: session_key_def)
  qed
  show ?thesis
    by (rule conjI, use files in blast, rule conjI, simp add: list_all2_lengthD [OF w(2)], use open_sessions in blast)
qed

text \<open>User a owns the file f, user u is editing it, and user b tries to delete it.\<close>

definition busy_world :: network_world where
  "busy_world = \<lparr>nw_nm = created_server, nw_ss = [opened_server], nw_reply = init_message, nw_inbox = (\<lambda>s. [])\<rparr>"

lemma created_anywhere: "nm_reachable (created_server, w :: 'w)"
proof -
  have room: "cache_room (Suc 90) (init_cache CACHE_SIZE :: file_metadata lru_cache)" by (rule cache_room_init) simp
  obtain c :: "file_metadata lru_cache" where c: "cache_put (init_cache CACHE_SIZE) ''f'' file_of_a = Some c"
    by (rule cache_room_put [OF room, of "''f''" file_of_a]) auto
  define env :: "'w nm_env" where "env = \<lparr>clock = 5, time_text = (\<lambda>t. show_int t), shell = (\<lambda>s. None),
     exchange = (\<lambda>w k msg. (w, 0, answer SUCCESS))\<rparr>"
  have "handle_create env (one_server, w) (file_request MSG_CREATE ''a'') = Some ((created_server, w), answer SUCCESS)"
    using c by (simp add: created_server_def handle_create_def one_server_fields one_server_robin one_server_slot search_init
        yes_env_def env_def file_of_a_def Let_def)
  then have "handle_request env (one_server, w) (file_request MSG_CREATE ''a'') init_message =
      Some (((created_server, w), answer SUCCESS), init_message)"
    by (simp add: handle_request_def)
  from nm_reachable.request [OF one_server_reachable _ _ _ this] show ?thesis by simp
qed

lemma busy_reachable: "servers_reachable busy_world"
  by (simp add: servers_reachable_def busy_world_def created_anywhere opened_reachable)

lemma busy_delete: "\<exists>c'. command_loop (server_net net_env example_kernel []) [Line ''DELETE f''] (logged_in ''b'' busy_world) = Some c'"
proof -
  let ?m = "init_message\<lparr>m_type := MSG_DELETE, m_sender := ''b'', m_filename := ''f''\<rparr>"
  have "trim_whitespace ''DELETE f'' = ''DELETE f''" by code_simp
  moreover have "split_command ''DELETE f'' = [''DELETE'', ''f'']"
    using split_command_typed [of "[''DELETE'', ''f'']"] by (simp add: plain_word_def is_sep_def)
  moreover have "wire ?m = ?m"
    by (rule wire_id) (simp_all add: message_ok_def bar_free_def init_message_def int32_def buffer_ok_def)
  moreover have "handle_delete net_env (created_server, ws) ?m = Some ((created_server, ws), answer ERR_NOT_OWNER)" for ws
    by (simp add: handle_delete_def created_files file_of_a_def new_file_metadata_def)
  ultimately show ?thesis
    by (simp add: command_loop.simps run_line_def simple_command_def with_words_def handle_delete_cl_def file_command_def nm_command_def
        ask_def send_to_def recv_from_def logged_in_def request_def server_net_def server_transmit_def handle_request_def
        busy_world_def deliver_def fits_def)
qed

theorem client_harms_nobody_witness:
  "\<exists>c'. command_loop (server_net net_env example_kernel []) [Line ''DELETE f''] (logged_in ''b'' busy_world) = Some c' \<and>
     files_of (nw_nm (world c')) ''f'' \<noteq> None \<and> check_access (nw_nm (world c')) ''f'' ''a'' ACCESS_WRITE \<and>
     holder (ss_locks (nw_ss (world c') ! 0)) (''f'', 0) = Some ''u''"
proof -
  obtain c' where run: "command_loop (server_net net_env example_kernel []) [Line ''DELETE f''] (logged_in ''b'' busy_world) = Some c'"
    using busy_delete by blast
  have w: "world (logged_in ''b'' busy_world) = busy_world" "username (logged_in ''b'' busy_world) = ''b''"
    "nm_sock (logged_in ''b'' busy_world) = 3" "current_ss_sock (logged_in ''b'' busy_world) = - 1"
    by (simp_all add: logged_in_def)
  have f: "files_of (nw_nm busy_world) ''f'' = Some file_of_a" "fm_owner file_of_a = ''a''"
    by (simp_all add: busy_world_def created_files file_of_a_def new_file_metadata_def)
  have s: "hd (ss_sessions opened_server) \<in> set (ss_sessions (nw_ss busy_world ! 0))" "ws_username (hd (ss_sessions opened_server)) = ''u''"
    "ws_filename (hd (ss_sessions opened_server)) = ''f''" "ws_sentence_idx (hd (ss_sessions opened_server)) = 0"
    "0 < length (nw_ss busy_world)"
    by (simp_all add: busy_world_def opened_server_def server_with_def)
  have access: "check_access (nw_nm busy_world) ''f'' ''a'' ACCESS_WRITE"
    using f by (simp add: check_access_def meta_allows_def)
  have "exchange net_env = network example_kernel (answer ERR_SERVER_ERROR)" by (simp add: net_env_def)
  note safe = client_harms_nobody [OF this _ _ _ _ run, unfolded w, OF busy_reachable]
  have b: "name_ok MAX_USERNAME ''b''" "(- 1 :: int) \<noteq> 3" by (simp_all add: name_ok_def)
  note safe = safe [OF b(1) refl b(2)]
  have "files_of (nw_nm (world c')) ''f'' \<noteq> None" "check_access (nw_nm (world c')) ''f'' ''a'' ACCESS_WRITE"
    using conjunct1 [OF safe, rule_format, OF conjI [OF f(1)]] f(2) access by auto
  moreover have "holder (ss_locks (nw_ss (world c') ! 0)) (''f'', 0) = Some ''u''"
    using conjunct2 [OF conjunct2 [OF safe]] s by fastforce
  ultimately show ?thesis using run by blast
qed

end
