(* ===== verification/EditCycle.thy ===== *)
theory EditCycle
  imports SessionRestart
begin

text \<open>
  A whole write session at a storage server: lock, one write, unlock, as three requests of a
  client, and what they leave on the disk and in the lock table.
\<close>

text \<open>Nothing stands in the way of a session of \<^verbatim>\<open>u\<close> on sentence \<^verbatim>\<open>i\<close> of \<^verbatim>\<open>f\<close>.\<close>

definition editable :: "storage_server \<Rightarrow> string \<Rightarrow> string \<Rightarrow> int \<Rightarrow> string \<Rightarrow> bool" where
  "editable ss f u i txt \<longleftrightarrow>
     (let p = file_path ss f; t = temp_path ss f u i in
      contents (ss_disk ss) p = Some txt \<and> lock_index_valid (parse_file txt) i \<and>
      holder (ss_locks ss) (f, i) = None \<and> find_session ss f u i = None \<and> length (ss_sessions ss) < MAX_SESSIONS \<and>
      (map_of (ss_locks ss) f \<noteq> None \<or> length (ss_locks ss) < MAX_FILES) \<and> snd (get_commit_queue ss f) = Some [] \<and>
      distinct [t, p, undo_path p] \<and> list_all (fs_writable (ss_disk ss)) [t, p, undo_path p])"

text \<open>The lock is granted, the session goes to the end of the array and the file is copied.\<close>

definition locked_state :: "storage_server \<Rightarrow> string \<Rightarrow> string \<Rightarrow> int \<Rightarrow> string \<Rightarrow> lock_table \<Rightarrow> int \<Rightarrow> storage_server" where
  "locked_state ss f u i txt tbl t = ss\<lparr>ss_locks := tbl,
     ss_sessions := ss_sessions ss @ [\<lparr>ws_filename = f, ws_username = u, ws_sentence_idx = i, ws_temp_filepath = temp_path ss f u i,
       ws_original_count = int (length (parse_file txt)), ws_lock_time = t\<rparr>],
     ss_disk := fst (fs_write (ss_disk ss) (temp_path ss f u i) txt)\<rparr>"

lemma lock_appends_session:
  assumes "editable ss f u i txt" and "length u < MAX_USERNAME"
    and "m_filename msg = f" "m_sender msg = u" "m_sentence_index msg = i"
  shows "\<exists>tbl. handle_lock k ss msg = Some (locked_state ss f u i txt tbl (now k), SUCCESS) \<and>
    holder tbl = (holder (ss_locks ss))((f, i) := Some u) \<and> map_of tbl f \<noteq> None"
proof -
  note ed = assms(1) [unfolded editable_def Let_def]
  have i: "0 \<le> i" using ed by (auto simp: lock_index_valid_def split: if_splits)
  have "init_file_locks (ss_locks ss) f (i + 1) \<noteq> None"
    using ed by (auto simp: init_file_locks_def Let_def split: option.splits)
  then obtain tbl1 where init: "init_file_locks (ss_locks ss) f (i + 1) = Some tbl1" by blast
  obtain l where l: "get_sentence_lock tbl1 f i = Some l" by (rule init_has_lock [OF init i])
  have "lock_sentence_ss (ss_locks ss) f i u (now k) \<noteq> None" using init l by (simp add: lock_sentence_ss_def)
  then obtain tbl r where lock: "lock_sentence_ss (ss_locks ss) f i u (now k) = Some (tbl, r)" by auto
  have held: "r = SUCCESS" "holder tbl = (holder (ss_locks ss))((f, i) := Some u)"
    using locks.acquire_law [OF i assms(2) lock] ed by (auto split: if_splits)
  from held(2) have "holder tbl (f, i) \<noteq> None" by simp
  then have entry: "map_of tbl f \<noteq> None" by (auto simp: holder_def get_sentence_lock_def split: option.splits)
  let ?t = "temp_path ss f u i" and ?p = "file_path ss f"
  have paths: "?p \<noteq> ?t" "fs_writable (ss_disk ss) ?t" using ed by auto
  have read: "fs_read (ss_disk ss) ?p = Some txt" using ed by (intro fs_read_file) simp
  have copy: "copy_file (ss_disk ss) ?p ?t = (fst (fs_write (ss_disk ss) ?t txt), 0)"
    using copy_file_ok [of "ss_disk ss" ?p "txt" ?t] ed paths by simp
  have "start_write_session_ss (ss\<lparr>ss_locks := tbl\<rparr>) f u i (now k) = (locked_state ss f u i txt tbl (now k), SUCCESS)"
    using ed read copy
    by (simp add: start_write_session_ss_def get_write_session_def find_session_def temp_path_def file_path_def
        parse_or_empty_def Let_def locked_state_def)
  then have "handle_lock k ss msg = Some (locked_state ss f u i txt tbl (now k), SUCCESS)"
    using lock held(1) read ed assms(3-5) by (simp add: handle_lock_def parse_or_empty_def)
  then show ?thesis using held(2) entry by blast
qed

lemma locked_state_paths [simp]:
  "file_path (locked_state ss f u i txt tbl t) = file_path ss" "temp_path (locked_state ss f u i txt tbl t) = temp_path ss"
  "ss_locks (locked_state ss f u i txt tbl t) = tbl" "ss_queues (locked_state ss f u i txt tbl t) = ss_queues ss"
  "fs_writable (ss_disk (locked_state ss f u i txt tbl t)) = fs_writable (ss_disk ss)"
  by (simp_all add: locked_state_def file_path_def temp_path_def fun_eq_iff store_simps)

lemma queue_opens: "snd (get_commit_queue ss f) =
    (case map_of (ss_queues ss) f of Some q \<Rightarrow> Some q | None \<Rightarrow> if length (ss_queues ss) \<ge> MAX_FILE_QUEUES then None else Some [])"
  by (simp add: get_commit_queue_def split: option.split)

lemma lock_opens_session:
  assumes "editable ss f u i txt" and "length u < MAX_USERNAME"
    and "m_filename msg = f" "m_sender msg = u" "m_sentence_index msg = i"
  shows "\<exists>ss1. handle_lock k ss msg = Some (ss1, SUCCESS) \<and> fresh_session ss1 f u i (length (ss_sessions ss)) txt \<and>
    holder (ss_locks ss1) (f, i) = Some u \<and> file_path ss1 = file_path ss"
proof -
  obtain tbl where tbl: "handle_lock k ss msg = Some (locked_state ss f u i txt tbl (now k), SUCCESS)"
    "holder tbl = (holder (ss_locks ss))((f, i) := Some u)"
    using lock_appends_session [OF assms] by blast
  let ?ss1 = "locked_state ss f u i txt tbl (now k)"
  note ed = assms(1) [unfolded editable_def Let_def]
  have "find_session ?ss1 f u i = Some (length (ss_sessions ss))"
    using ed by (simp add: find_session_def locked_state_def find_index_append session_matches_def)
  moreover have "contents (ss_disk ?ss1) (file_path ss f) = Some txt" "contents (ss_disk ?ss1) (temp_path ss f u i) = Some txt"
    using ed by (simp_all add: locked_state_def store_simps)
  moreover have "snd (get_commit_queue ?ss1 f) = Some []" using ed unfolding queue_opens locked_state_paths by blast
  ultimately have "fresh_session ?ss1 f u i (length (ss_sessions ss)) txt"
    using ed unfolding fresh_session_def session_paths_ok_def by (simp add: Let_def) (simp add: locked_state_def)
  then show ?thesis using tbl by fastforce
qed

text \<open>
  A word may be written before or after any word of the sentence, except behind the final
  delimiter of a sentence that is not the last; the text of the file then is the old one with
  the word in its place, up to blanks.
\<close>

definition good_edit :: "string \<Rightarrow> nat \<Rightarrow> int \<Rightarrow> string \<Rightarrow> bool" where
  "good_edit txt i j w \<longleftrightarrow>
     (let ws = parse_file txt ! i in
      NUL \<notin> set txt \<and> i < length (parse_file txt) \<and> 1 \<le> j \<and> j \<le> int (real_word_count ws) + 1 \<and>
      (insert_index j ws < length ws \<or> i + 1 = length (parse_file txt)) \<and>
      w \<noteq> [] \<and> NUL \<notin> set w \<and> longest_run ordinary 0 w \<le> 127 \<and> length (lex w []) \<le> 10)"

definition text_with_word :: "string \<Rightarrow> nat \<Rightarrow> int \<Rightarrow> string \<Rightarrow> string" where
  "text_with_word txt i j w =
     (let fc = parse_file txt; ws = fc ! i; a = insert_index j ws in
      concat (concat (take i fc)) @ concat (take a ws) @ w @ concat (drop a ws) @ concat (concat (drop (i + 1) fc)))"

lemma good_edit_commits:
  assumes "fresh_session ss f u (int i) k txt" and "good_edit txt i j w"
  shows "\<exists>ss1 ss2 t. write_file_ss ss f u (int i) j w = Some (ss1, SUCCESS) \<and>
     commit_write_session_ss ss1 f u (int i) = Some (ss2, SUCCESS) \<and>
     contents (ss_disk ss2) (file_path ss f) = Some t \<and> filter visible t = filter visible (text_with_word txt i j w)"
  using edit_commits [OF assms(1) _ _ refl, of j w] assms(2) by (simp add: good_edit_def text_with_word_def Let_def)

text \<open>
  Behind the final delimiter of a sentence that is not the last, a word without a delimiter may be
  written as well: it belongs to the next sentence when the copy is parsed again, and is lost.
\<close>

definition any_edit :: "string \<Rightarrow> nat \<Rightarrow> int \<Rightarrow> string \<Rightarrow> bool" where
  "any_edit txt i j w \<longleftrightarrow>
     (let ws = parse_file txt ! i in
      NUL \<notin> set txt \<and> i < length (parse_file txt) \<and> 1 \<le> j \<and> j \<le> int (real_word_count ws) + 1 \<and>
      (insert_index j ws < length ws \<or> i + 1 = length (parse_file txt) \<or> delims w = []) \<and>
      w \<noteq> [] \<and> NUL \<notin> set w \<and> longest_run ordinary 0 w \<le> 127 \<and> length (lex w []) \<le> 10)"

definition text_after_edit :: "string \<Rightarrow> nat \<Rightarrow> int \<Rightarrow> string \<Rightarrow> string" where
  "text_after_edit txt i j w =
     (if insert_index j (parse_file txt ! i) < length (parse_file txt ! i) \<or> i + 1 = length (parse_file txt)
      then text_with_word txt i j w else txt)"

lemma good_edit_any: "good_edit txt i j w \<Longrightarrow> any_edit txt i j w \<and> text_after_edit txt i j w = text_with_word txt i j w"
  by (auto simp: good_edit_def any_edit_def text_after_edit_def Let_def)

lemma index_after_less: "k < length (filter (\<lambda>w. \<not> should_skip_for_indexing w) ws) \<Longrightarrow> index_after k ws < length ws"
  by (induction k ws rule: index_after.induct) (auto split: if_splits)

lemma insert_index_behind:
  assumes "\<not> insert_index j ws < length ws" and "ws \<noteq> []" and "1 \<le> j" and "j \<le> int (real_word_count ws) + 1"
  shows "j = int (real_word_count ws) + 1 \<and> 1 < j"
proof -
  have "j \<noteq> 1" using assms(1,2) by (auto simp: insert_index_def)
  moreover have "j = int (real_word_count ws) + 1"
  proof (rule ccontr)
    assume "j \<noteq> int (real_word_count ws) + 1"
    then have "nat (j - 1) < real_word_count ws" using assms(3,4) by linarith
    then show False
      using index_after_less [of "nat (j - 1)" ws] assms(1) \<open>j \<noteq> 1\<close> \<open>j \<noteq> int (real_word_count ws) + 1\<close>
      by (simp add: insert_index_def real_word_count_def)
  qed
  ultimately show ?thesis using assms(3) by simp
qed

lemma any_edit_commits:
  assumes "fresh_session ss f u (int i) k txt" and "any_edit txt i j w"
  shows "\<exists>ss1 ss2 t. write_file_ss ss f u (int i) j w = Some (ss1, SUCCESS) \<and>
     commit_write_session_ss ss1 f u (int i) = Some (ss2, SUCCESS) \<and>
     contents (ss_disk ss2) (file_path ss f) = Some t \<and> filter visible t = filter visible (text_after_edit txt i j w)"
proof (cases "insert_index j (parse_file txt ! i) < length (parse_file txt ! i) \<or> i + 1 = length (parse_file txt)")
  case True
  then show ?thesis
    using good_edit_commits [OF assms(1), of j w] assms(2) by (simp add: any_edit_def good_edit_def text_after_edit_def Let_def)
next
  case False
  have e: "NUL \<notin> set txt" "i < length (parse_file txt)" "1 \<le> j" "j \<le> int (real_word_count (parse_file txt ! i)) + 1" "delims w = []"
    "w \<noteq> []" "NUL \<notin> set w" "longest_run ordinary 0 w \<le> 127" "length (lex w []) \<le> 10"
    using False assms(2) by (auto simp: any_edit_def Let_def)
  obtain X M Y where "around txt i X M Y" using sentence_text [OF e(2)] by blast
  then have "parse_file txt ! i = lex M []" "M \<noteq> []" unfolding around_def by blast+
  then have "parse_file txt ! i \<noteq> []" by (simp add: lex_nil_iff)
  then have j: "j = int (real_word_count (parse_file txt ! i)) + 1" "1 < j"
    using insert_index_behind [OF _ _ e(3,4)] False by blast+
  have "i + 1 < length (parse_file txt)" using False e(2) by linarith
  with words_after_stop_are_lost [OF assms(1) _ _ j] show ?thesis
    using False e by (simp add: text_after_edit_def)
qed

text \<open>The three requests of a session.\<close>

definition names_session :: "string \<Rightarrow> string \<Rightarrow> int \<Rightarrow> message \<Rightarrow> bool" where
  "names_session f u i m \<longleftrightarrow> m_filename m = f \<and> m_sender m = u \<and> m_sentence_index m = i"

lemma session_cycle:
  assumes "editable ss f u (int i) txt" and "any_edit txt i j w" and "length u < MAX_USERNAME"
    and "list_all (names_session f u (int i)) [lk, wr, ul]"
    and "m_type lk = MSG_LOCK_SENTENCE" "m_type wr = MSG_WRITE" "m_type ul = MSG_UNLOCK_SENTENCE"
    and "m_word_index wr = j" "m_data wr = w"
  shows "\<exists>ss1 ss2 ss3 t. handle_client_request k ss lk = Some (ss1, [reply SUCCESS]) \<and>
    handle_client_request k' ss1 wr = Some (ss2, [reply SUCCESS]) \<and>
    handle_client_request k'' ss2 ul = Some (ss3, [reply SUCCESS]) \<and>
    contents (ss_disk ss3) (file_path ss f) = Some t \<and> filter visible t = filter visible (text_after_edit txt i j w) \<and>
    holder (ss_locks ss3) (f, int i) = None"
proof -
  have msgs: "m_filename lk = f" "m_sender lk = u" "m_sentence_index lk = int i"
    "m_filename wr = f" "m_sender wr = u" "m_sentence_index wr = int i"
    "m_filename ul = f" "m_sender ul = u" "m_sentence_index ul = int i"
    using assms(4) by (simp_all add: names_session_def)
  obtain ss1 where s1: "handle_lock k ss lk = Some (ss1, SUCCESS)" "fresh_session ss1 f u (int i) (length (ss_sessions ss)) txt"
    "holder (ss_locks ss1) (f, int i) = Some u" "file_path ss1 = file_path ss"
    using lock_opens_session [OF assms(1,3) msgs(1-3)] by blast
  obtain ss2 ss2' t where s2: "write_file_ss ss1 f u (int i) j w = Some (ss2, SUCCESS)"
    "commit_write_session_ss ss2 f u (int i) = Some (ss2', SUCCESS)"
    "contents (ss_disk ss2') (file_path ss1 f) = Some t" "filter visible t = filter visible (text_after_edit txt i j w)"
    using any_edit_commits [OF s1(2) assms(2)] by blast
  have held: "holder (ss_locks ss2') (f, int i) = Some u"
    using committed_session [OF s2(2)] write_file_keeps [OF s2(1)] s1(3) by simp
  define ss3 where "ss3 = fst (unlock_reply ss2' ul)"
  have "unlock_reply ss2' ul = (ss3, SUCCESS)"
    using held msgs locks.release_status [of "ss_locks ss2'" f "int i" u] by (simp add: ss3_def unlock_reply_def split_beta Let_def)
  then have "handle_unlock ss2 ul = Some (ss3, SUCCESS)" using s2(2) msgs by (simp add: handle_unlock_def)
  moreover have "holder (ss_locks ss3) (f, int i) = None" "ss_disk ss3 = ss_disk ss2'"
    using locks.release_frees [OF held] msgs by (simp_all add: ss3_def unlock_reply_def split_beta Let_def)
  ultimately show ?thesis
    using s1(1,4) s2 msgs assms(5-9) by (simp add: handle_client_request_def)
qed

text \<open>
  A whole edit at a storage server: when nothing stands in the way, a user who locks a
  sentence, writes a word into it and unlocks it is answered with success three times; the
  file then holds the old text with the word in its place, and the sentence is free again.
\<close>

theorem session_edits_file:
  assumes "editable ss f u (int i) txt" and "good_edit txt i j w" and "length u < MAX_USERNAME"
    and "list_all (names_session f u (int i)) [lk, wr, ul]"
    and "m_type lk = MSG_LOCK_SENTENCE" "m_type wr = MSG_WRITE" "m_type ul = MSG_UNLOCK_SENTENCE"
    and "m_word_index wr = j" "m_data wr = w"
  shows "\<exists>ss1 ss2 ss3 t. handle_client_request k ss lk = Some (ss1, [reply SUCCESS]) \<and>
    handle_client_request k' ss1 wr = Some (ss2, [reply SUCCESS]) \<and>
    handle_client_request k'' ss2 ul = Some (ss3, [reply SUCCESS]) \<and>
    contents (ss_disk ss3) (file_path ss f) = Some t \<and> filter visible t = filter visible (text_with_word txt i j w) \<and>
    holder (ss_locks ss3) (f, int i) = None"
  using session_cycle [OF assms(1) _ assms(3-9)] good_edit_any [OF assms(2)] by simp

text \<open>A server that stores one file, on which nobody works.\<close>

definition text_server :: storage_server where
  "text_server = server_with [''s/f'' \<mapsto> ''One. Two.''] [] [] []"

definition edit_message :: "int \<Rightarrow> message" where
  "edit_message t = init_message\<lparr>m_type := t, m_sender := ''a'', m_filename := ''f'', m_sentence_index := 0,
     m_word_index := 2, m_data := ''and''\<rparr>"

lemma text_editable: "editable text_server ''f'' ''a'' (int 0) ''One. Two.''"
proof -
  have paths: "file_path text_server ''f'' = ''s/f''" "temp_path text_server ''f'' ''a'' (int 0) = ''s/f.temp_a_0''"
    "undo_path ''s/f'' = ''s/f.undo''"
    by (simp_all add: file_path_def temp_path_def undo_path_def text_server_def server_with_def c_copy_def zero_digit)
  have "parent_dir ''s/f'' = ''s''" "parent_dir ''s/f.temp_a_0'' = ''s''" "parent_dir ''s/f.undo'' = ''s''"
    by (simp_all add: parent_dir_def)
  then show ?thesis
    unfolding editable_def paths
    by (simp add: paths Let_def text_server_def server_with_def lock_index_valid_def example_parse holder_def
        get_sentence_lock_def find_session_def get_commit_queue_def fs_writable_def)
qed

lemma text_edit: "good_edit ''One. Two.'' 0 2 ''and''" "filter visible (text_with_word ''One. Two.'' 0 2 ''and'') = ''Oneand.Two.''"
proof -
  have "good_edit ''One. Two.'' 0 2 ''and'' \<longleftrightarrow> True"
    by (simp add: good_edit_def example_parse example_ws example_word Let_def del: lex.simps longest_run.simps delims_simps)
  then show "good_edit ''One. Two.'' 0 2 ''and''" by simp
  show "filter visible (text_with_word ''One. Two.'' 0 2 ''and'') = ''Oneand.Two.''"
    by (simp add: text_with_word_def example_parse example_ws visible_def is_space_char_def)
qed

theorem session_edits_file_witness:
  "\<exists>ss1 ss2 ss3 t. handle_client_request example_kernel text_server (edit_message MSG_LOCK_SENTENCE) = Some (ss1, [reply SUCCESS]) \<and>
    handle_client_request example_kernel ss1 (edit_message MSG_WRITE) = Some (ss2, [reply SUCCESS]) \<and>
    handle_client_request example_kernel ss2 (edit_message MSG_UNLOCK_SENTENCE) = Some (ss3, [reply SUCCESS]) \<and>
    contents (ss_disk ss3) ''s/f'' = Some t \<and> filter visible t = ''Oneand.Two.'' \<and>
    holder (ss_locks ss3) (''f'', 0) = None"
proof -
  have "file_path text_server ''f'' = ''s/f''" by (simp add: file_path_def text_server_def server_with_def c_copy_def)
  then show ?thesis
    using session_edits_file [OF text_editable text_edit(1), where lk = "edit_message MSG_LOCK_SENTENCE" and
        wr = "edit_message MSG_WRITE" and ul = "edit_message MSG_UNLOCK_SENTENCE" and k = example_kernel and
        k' = example_kernel and k'' = example_kernel]
    unfolding text_edit(2) by (simp add: edit_message_def names_session_def)
qed

end
