(* ===== verification/ClientEdit.thy ===== *)
theory ClientEdit
  imports ClientSystem EditCycle
begin

text \<open>
  A write command from the keyboard to the disk: the client asks the name server, is sent to
  the storage server of the file, locks, writes and unlocks there.
\<close>

section \<open>Messages that cross the wire unchanged\<close>

definition wire_stable :: "message \<Rightarrow> bool" where
  "wire_stable m \<longleftrightarrow> message_ok m \<and> bar_free m \<and> length (m_target_path m) < MAX_FILENAME"

lemma wire_same: "wire_stable m \<Longrightarrow> wire m = m"
  by (simp add: wire_stable_def wire_id)

lemma session_wire:
  assumes "name_ok MAX_USERNAME (username c)" and "name_ok MAX_FILENAME f" and "int32 i" and "int32 j" and "buffer_ok MAX_BUFFER w"
  shows "wire (redirect_request c f) = redirect_request c f" "wire (lock_message c f i) = lock_message c f i"
    "wire (write_message c f i j w) = write_message c f i j w" "wire (unlock_message c f i) = unlock_message c f i"
  using assms
  by (auto intro!: wire_same simp: wire_stable_def message_ok_def bar_free_def redirect_request_def lock_message_def
      write_message_def unlock_message_def request_def init_message_def int32_def buffer_ok_def name_ok_def)

lemma reply_wire: "int32 status \<Longrightarrow> wire (reply status) = reply status"
  by (auto intro!: wire_same simp: wire_stable_def message_ok_def bar_free_def reply_def init_message_def int32_def buffer_ok_def)

section \<open>The address of a storage server\<close>

text \<open>The storage server \<^verbatim>\<open>srv\<close> of the name server's table is the \<^verbatim>\<open>k\<close>th that can be reached.\<close>

definition listens :: "(string \<times> int) list \<Rightarrow> ss_info \<Rightarrow> nat \<Rightarrow> bool" where
  "listens addresses srv k \<longleftrightarrow>
     (let ip = si_ip srv; port = si_client_port srv in
      ip \<noteq> [] \<and> length ip < INET_ADDRSTRLEN \<and> CHR '':'' \<notin> set ip \<and> NUL \<notin> set ip \<and> 0 \<le> port \<and> port < 2 ^ 16 \<and>
      find_index (\<lambda>a. a = (ip, port)) addresses = Some k)"

lemma scan_server_address:
  assumes "listens addresses srv k"
  shows "scan_address env (server_address srv) = Some (si_ip srv, si_client_port srv)"
proof -
  note srv = assms [unfolded listens_def Let_def]
  have "\<forall>c \<in> set (si_ip srv). c \<noteq> CHR '':''" using srv by auto
  then have "takeWhile (\<lambda>c. c \<noteq> CHR '':'') (server_address srv) = si_ip srv"
    unfolding server_address_def by (subst takeWhile_append2) simp_all
  moreover have "int32 (si_client_port srv)" using srv by (simp add: int32_def)
  then have "scan_int (show_int (si_client_port srv)) = Some (si_client_port srv)"
    using scan_int_show [of "si_client_port srv" "[]" "[]"] by simp
  ultimately show ?thesis using srv by (simp add: scan_address_def server_address_def)
qed

section \<open>Calls on the sockets\<close>

text \<open>A request to a storage server, and the answer that waits at the socket.\<close>

definition served :: "network_world \<Rightarrow> nat \<Rightarrow> storage_server \<Rightarrow> network_world" where
  "served w k ss = w\<lparr>nw_ss := (nw_ss w)[k := ss]\<rparr>"

lemma served_fields [simp]:
  "k < length (nw_ss w) \<Longrightarrow> nw_ss (served w k ss) ! k = ss" "length (nw_ss (served w k ss)) = length (nw_ss w)"
  "nw_inbox (served w k ss) = nw_inbox w"
  by (simp_all add: served_def)

lemma storage_send:
  assumes "k < length (nw_ss (world c))" and "wire msg = msg"
    and "handle_client_request kern (nw_ss (world c) ! k) msg = Some (ss, outs)"
  shows "send_to (server_net env kern addresses) (4 + int k) msg c =
    (c\<lparr>world := deliver (4 + int k) outs (served (world c) k ss)\<rparr>, 0)"
  using assms by (simp add: send_to_def server_net_def server_transmit_def Let_def served_def)

lemma delivered_recv:
  assumes "world c = deliver sock [m] w" and "nw_inbox w sock = []" and "wire m = m"
  shows "recv_from (server_net env kern addresses) sock buf c = Some (c\<lparr>world := w\<rparr>, 0, m)"
proof -
  have "w\<lparr>nw_inbox := (nw_inbox w)(sock := [])\<rparr> = w" using assms(2) by (cases w) (auto simp: fun_upd_idem)
  then show ?thesis using assms by (simp add: recv_from_def server_net_def deliver_def)
qed

lemma storage_ask:
  assumes "k < length (nw_ss (world c))" and "nw_inbox (world c) (4 + int k) = []" and "wire msg = msg" and "wire m = m"
    and "handle_client_request kern (nw_ss (world c) ! k) msg = Some (ss, [m])"
  shows "ask (server_net env kern addresses) (4 + int k) msg buf c = Some (c\<lparr>world := served (world c) k ss\<rparr>, m)"
  unfolding ask_def storage_send [OF assms(1,3,5)]
  by (simp add: delivered_recv [where w = "served (world c) k ss"] assms(2,4))

text \<open>The name server sends the client on to the storage server \<^verbatim>\<open>k\<close>.\<close>

definition sends_to :: "'w nm_env \<Rightarrow> name_server \<Rightarrow> string \<Rightarrow> string \<Rightarrow> int \<Rightarrow> ss_info \<Rightarrow> name_server \<Rightarrow> bool" where
  "sends_to env nm f u required srv nm2 \<longleftrightarrow>
     check_access nm f u required \<and>
     (case find_ss_for_file nm f of
        None \<Rightarrow> False
      | Some (nm1, sid) \<Rightarrow> 0 \<le> sid \<and>
          (case server_slot nm1 sid of None \<Rightarrow> False | Some i \<Rightarrow> nm_ss_list nm1 ! i = srv) \<and>
          record_access (clock env) nm1 f u = Some nm2)"

definition redirect_for :: "int \<Rightarrow> int \<Rightarrow> bool" where
  "redirect_for t required \<longleftrightarrow> t = MSG_WRITE \<and> required = ACCESS_WRITE \<or> t = MSG_READ \<and> required = ACCESS_READ"

lemma redirect_answer:
  assumes "sends_to env nm f (username c) required srv nm2" and "redirect_for t required"
  shows "handle_request env (nm, w) ((request c t)\<lparr>m_filename := f\<rparr>) buf =
    Some (((nm2, w), buf\<lparr>m_type := MSG_DATA, m_data := server_address srv, m_status := SUCCESS\<rparr>),
      buf\<lparr>m_type := MSG_DATA, m_data := server_address srv, m_status := SUCCESS\<rparr>)"
proof -
  define m where "m = (request c t)\<lparr>m_filename := f\<rparr>"
  have m: "m_type m = t" "m_filename m = f" "m_sender m = username c" by (simp_all add: m_def request_def)
  have "handle_request env (nm, w) m buf =
      Some (((nm2, w), buf\<lparr>m_type := MSG_DATA, m_data := server_address srv, m_status := SUCCESS\<rparr>),
        buf\<lparr>m_type := MSG_DATA, m_data := server_address srv, m_status := SUCCESS\<rparr>)"
    using assms(2) unfolding redirect_for_def
  proof (elim disjE conjE)
    assume t: "t = MSG_WRITE" "required = ACCESS_WRITE"
    then show ?thesis
      using assms(1) m by (auto simp: handle_request_def handle_redirect_def sends_to_def Let_def split: option.splits)
  next
    assume t: "t = MSG_READ" "required = ACCESS_READ"
    then show ?thesis
      using assms(1) m by (auto simp: handle_request_def handle_redirect_def sends_to_def Let_def split: option.splits)
  qed
  then show ?thesis by (simp add: m_def)
qed

lemma server_address_ok:
  assumes "listens addresses srv k"
  shows "buffer_ok MAX_BUFFER (server_address srv)"
proof -
  note srv = assms [unfolded listens_def Let_def]
  have "length (show_int (si_client_port srv)) \<le> 11" using srv by (intro show_int_length) simp_all
  moreover have "NUL \<notin> set (show_int (si_client_port srv))" using show_int_chars by blast
  ultimately show ?thesis using srv by (simp add: buffer_ok_def server_address_def)
qed

lemma ask_redirected:
  assumes "sends_to env (nw_nm (world c)) f (username c) required srv nm2" and "redirect_for t required" and "listens addresses srv k"
    and "nm_sock c = 3" and "nw_inbox (world c) 3 = []" and "wire_stable (nw_reply (world c))"
    and "wire ((request c t)\<lparr>m_filename := f\<rparr>) = (request c t)\<lparr>m_filename := f\<rparr>" and "fits MAX_FILENAME f"
  shows "\<exists>resp. ask_for_server (server_net env kern addresses) t complaint f c =
    Some (c\<lparr>world := (world c)\<lparr>nw_nm := nm2, nw_reply := resp, nw_inbox := (nw_inbox (world c))(4 + int k := [])\<rparr>\<rparr>,
      Some (4 + int k, resp)) \<and> wire_stable resp"
proof -
  let ?net = "server_net env kern addresses"
  define resp where "resp = (nw_reply (world c))\<lparr>m_type := MSG_DATA, m_data := server_address srv, m_status := SUCCESS\<rparr>"
  define w1 where "w1 = (world c)\<lparr>nw_nm := nm2, nw_reply := resp\<rparr>"
  have stable: "wire_stable resp"
    using assms(6) server_address_ok [OF assms(3)] by (simp add: wire_stable_def resp_def message_ok_def bar_free_def int32_def)
  have same: "w1\<lparr>nw_ss := nw_ss (world c)\<rparr> = w1" by (simp add: w1_def)
  have sent: "send_to ?net 3 ((request c t)\<lparr>m_filename := f\<rparr>) c = (c\<lparr>world := deliver 3 [resp] w1\<rparr>, 0)"
    using redirect_answer [OF assms(1,2), of "nw_ss (world c)" "nw_reply (world c)"]
    by (simp add: send_to_def server_net_def server_transmit_def assms(7) resp_def w1_def)
  have got: "ask ?net 3 ((request c t)\<lparr>m_filename := f\<rparr>) buf c = Some (c\<lparr>world := w1\<rparr>, resp)" for buf
    unfolding ask_def sent by (simp add: delivered_recv [where w = w1] assms(5) w1_def wire_same [OF stable])
  have port: "si_client_port srv mod 2 ^ 16 = si_client_port srv" using assms(3) by (simp add: listens_def Let_def)
  have "connect_to_ss ?net (m_data resp) (c\<lparr>world := w1\<rparr>) =
      Some (c\<lparr>world := w1\<lparr>nw_inbox := (nw_inbox w1)(4 + int k := [])\<rparr>\<rparr>, 4 + int k)"
    using assms(3) scan_server_address [OF assms(3), of ?net] port
    by (simp add: connect_to_ss_def resp_def server_net_def listens_def Let_def)
  then show ?thesis
    using got [of "leftover ?net"] assms(4,8) stable
    by (intro exI [of _ resp]) (simp add: ask_for_server_def resp_def w1_def)
qed

section \<open>One edit\<close>

text \<open>The lines, the write and the unlock, after the lock has been granted.\<close>

lemma edit_served:
  assumes "entry_ok (j, w)" and "k < length (nw_ss (world c))" and "nw_inbox (world c) (4 + int k) = []"
    and "current_ss_sock c > 0"
    and "wire (write_message c f i j w) = write_message c f i j w" and "wire (unlock_message c f i) = unlock_message c f i"
    and "handle_client_request kern (nw_ss (world c) ! k) (write_message c f i j w) = Some (ss2, [reply SUCCESS])"
    and "handle_client_request kern ss2 (unlock_message c f i) = Some (ss3, [reply SUCCESS])"
  shows "\<exists>c'. edit_session (server_net env kern addresses) f i (typed_line (j, w) # stop_line # ins) (c, 4 + int k, resp) =
      Some (c', False, ins) \<and> nw_ss (world c') = (nw_ss (world c))[k := ss3] \<and> nw_nm (world c') = nw_nm (world c) \<and>
      idle c' \<and> printed c' = printed c @ session_output 1 SUCCESS"
proof -
  let ?net = "server_net env kern addresses" and ?s = "4 + int k"
  have ok: "wire (reply SUCCESS) = reply SUCCESS" by (rule reply_wire) (simp add: int32_def)
  define c1 where "c1 = say_line ''Sentence locked. Enter writes (word_index content), then type ETIRW:''
    (c\<lparr>current_locked_sentence := i, current_locked_filename := f\<rparr>)"
  have c1: "world c1 = world c" "write_message c1 = write_message c" "unlock_message c1 = unlock_message c"
    by (simp_all add: c1_def write_message_def unlock_message_def request_def fun_eq_iff)
  define w2 where "w2 = served (world c) k ss2"
  define c2 where "c2 = say_line ''Write successful!'' ((say ''Client: '' c1)\<lparr>world := w2\<rparr>)"
  have c2: "world c2 = w2" "unlock_message c2 = unlock_message c" "current_ss_sock c2 > 0"
    using assms(4) c1(3) by (simp_all add: c2_def c1_def unlock_message_def request_def fun_eq_iff say_line_def say_def)
  have sent: "send_to ?net ?s (write_message (say ''Client: '' c1) f i j w) (say ''Client: '' c1) =
      ((say ''Client: '' c1)\<lparr>world := deliver ?s [reply SUCCESS] w2\<rparr>, 0)"
    using storage_send [of k "say ''Client: '' c1" "write_message c f i j w" kern ss2 "[reply SUCCESS]"] assms(2,5,7) c1
    by (simp add: w2_def write_message_def request_def c1_def)
  have got: "recv_from ?net ?s buf ((say ''Client: '' c1)\<lparr>world := deliver ?s [reply SUCCESS] w2\<rparr>) =
      Some ((say ''Client: '' c1)\<lparr>world := w2\<rparr>, 0, reply SUCCESS)" for buf
    using assms(3) ok delivered_recv [of "(say ''Client: '' c1)\<lparr>world := deliver ?s [reply SUCCESS] w2\<rparr>" ?s "reply SUCCESS" w2]
    by (simp add: w2_def)
  have "write_retry ?net f i j w 5 (say ''Client: '' c1, ?s, resp) = Some ((c2, ?s, reply SUCCESS), Written)"
    using sent got by (simp add: eval_nat_numeral c2_def reply_def)
  then have loop: "write_loop ?net f i (typed_line (j, w) # stop_line # ins) (c1, ?s, resp) 0 True =
      Some ((say ''Client: '' c2, ?s, reply SUCCESS), 1, True, False, ins)"
    using entry_line [OF assms(1)] by (simp add: typed_line_def Let_def write_loop_stop)
  define w3 where "w3 = served w2 k ss3"
  let ?c2 = "say ''Client: '' c2"
  have "send_to ?net ?s (unlock_message ?c2 f i) ?c2 = (?c2\<lparr>world := deliver ?s [reply SUCCESS] w3\<rparr>, 0)"
    using storage_send [of k ?c2 "unlock_message c f i" kern ss3 "[reply SUCCESS]"] assms(2,6,8) c2
    by (simp add: w3_def w2_def unlock_message_def request_def say_def)
  moreover have "recv_from ?net ?s buf (?c2\<lparr>world := deliver ?s [reply SUCCESS] w3\<rparr>) = Some (?c2\<lparr>world := w3\<rparr>, 0, reply SUCCESS)" for buf
    using assms(3) ok delivered_recv [of "?c2\<lparr>world := deliver ?s [reply SUCCESS] w3\<rparr>" ?s "reply SUCCESS" w3]
    by (simp add: w3_def w2_def)
  ultimately have "end_session ?net f i (?c2, ?s, reply SUCCESS) = Some (clear_session (close_client_sock ?net ?s (?c2\<lparr>world := w3\<rparr>)))"
    using c2(3) by (simp add: end_session_def reply_def)
  then have "edit_session ?net f i (typed_line (j, w) # stop_line # ins) (c, ?s, resp) =
      Some (say_line (session_summary 1 True) (clear_session (close_client_sock ?net ?s (?c2\<lparr>world := w3\<rparr>))), False, ins)"
    using loop by (simp add: edit_session_def c1_def)
  then show ?thesis
    using assms(2)
    by (simp add: clear_session_def close_client_sock_def server_net_def w3_def w2_def served_def idle_def say_line_def say_def
        c2_def c1_def session_output_def session_prompt_def write_output_def)
qed


text \<open>The user a edits the file f of the storage server that runs at host h, port 9.\<close>

definition edit_world :: network_world where
  "edit_world = \<lparr>nw_nm = created_server, nw_ss = [text_server], nw_reply = init_message, nw_inbox = (\<lambda>s. [])\<rparr>"

lemma created_sends: "\<exists>nm2. sends_to net_env created_server ''f'' ''a'' required (nm_ss_list created_server ! 0) nm2"
proof -
  obtain c where get: "cache_get (nm_cache created_server) ''f'' = Some (c, Some file_of_a)" using created_cached by blast
  have "nm_ok created_server" using reachable_ok [OF created_reachable] by simp
  then obtain ys where rep: "cache_rep (nm_cache created_server) ys" by (auto simp: nm_ok_def cache_sound_def)
  obtain c2 where c2: "cache_put c ''f'' (touch_metadata 5 ''a'' file_of_a) = Some c2"
    using put_after_get [OF rep get] by blast
  have f: "fm_owner file_of_a = ''a''" "fm_ss_id file_of_a = 1" by (simp_all add: file_of_a_def new_file_metadata_def)
  have found: "trie_search (nm_files created_server) ''f'' = Some file_of_a" by (simp add: created_files)
  show ?thesis
    using get c2 f found created_active(2)
    by (auto simp: sends_to_def find_ss_for_file_def check_access_def meta_allows_def server_slot_def record_access_def
        store_metadata_def net_env_def)
qed

lemma created_listens: "listens [(''h'', 9)] (nm_ss_list created_server ! 0) 0"
proof -
  obtain c where "created_server =
      one_server\<lparr>nm_next_ss_id := 1, nm_files := fst (trie_insert init_trie ''f'' file_of_a), nm_cache := c\<rparr>"
    by (rule create_returns)
  from arg_cong [OF this, of nm_ss_list] have "nm_ss_list created_server = nm_ss_list one_server" by simp
  moreover have "si_ip (nm_ss_list one_server ! 0) = ''h'' \<and> si_client_port (nm_ss_list one_server ! 0) = 9"
    by (simp add: one_server_def register_ss_def ss_hello_def init_message_def init_name_server_def server_slot_def)
  ultimately show ?thesis by (simp add: listens_def)
qed

text \<open>At the second position the word is committed, at the third, behind the full stop, it is lost.\<close>

lemma lost_edit: "any_edit ''One. Two.'' 0 3 ''and''" "text_after_edit ''One. Two.'' 0 3 ''and'' = ''One. Two.''"
proof -
  have "insert_index 3 [''One'', ''.''] = 2" using example_ws(1) by (simp add: insert_index_def)
  then show "any_edit ''One. Two.'' 0 3 ''and''" "text_after_edit ''One. Two.'' 0 3 ''and'' = ''One. Two.''"
    by (simp_all add: any_edit_def text_after_edit_def example_parse example_ws example_word Let_def del: lex.simps longest_run.simps delims_simps)
qed


end
