(* ===== verification/TextCut.thy ===== *)
theory TextCut
  imports TextSentences
begin

text \<open>
  The sentences of a file as the reader sees them: the visible text of each sentence depends on
  the visible text of the file alone. So a file can be edited in several sentences one after
  the other, although each edit writes and parses it anew.
\<close>

section \<open>Cutting text after its delimiters\<close>

definition visible_sentences :: "string \<Rightarrow> string list" where
  "visible_sentences t = map (\<lambda>s. filter visible (concat s)) (parse_file t)"

text \<open>Every piece but the last ends with its only delimiter.\<close>

definition closed_piece :: "string \<Rightarrow> bool" where
  "closed_piece v \<longleftrightarrow> v \<noteq> [] \<and> is_delimiter (last v) \<and> length (delims v) = 1"

fun pieces :: "string list \<Rightarrow> bool" where
  "pieces (v # w # vs) \<longleftrightarrow> closed_piece v \<and> pieces (w # vs)"
| "pieces _ \<longleftrightarrow> True"

lemma pieces_nth: "pieces vs \<longleftrightarrow> (\<forall>k. k + 1 < length vs \<longrightarrow> closed_piece (vs ! k))"
proof (induction vs rule: pieces.induct)
  case (1 v w vs)
  show ?case
  proof
    assume p: "pieces (v # w # vs)"
    show "\<forall>k. k + 1 < length (v # w # vs) \<longrightarrow> closed_piece ((v # w # vs) ! k)"
    proof (intro allI impI)
      fix k assume "k + 1 < length (v # w # vs)"
      then show "closed_piece ((v # w # vs) ! k)" using p 1 by (cases k) auto
    qed
  next
    assume h: "\<forall>k. k + 1 < length (v # w # vs) \<longrightarrow> closed_piece ((v # w # vs) ! k)"
    have "closed_piece v" using spec [OF h, of 0] by simp
    moreover have "closed_piece ((w # vs) ! k)" if "k + 1 < length (w # vs)" for k using spec [OF h, of "Suc k"] that by simp
    ultimately show "pieces (v # w # vs)" using 1 by simp
  qed
qed auto

lemma visible_delimiter: "is_delimiter d \<Longrightarrow> visible d"
  using delim_not_space by (simp add: visible_def)

lemma visible_closed:
  assumes "M \<noteq> []" and "is_delimiter (last M)"
  shows "filter visible M \<noteq> [] \<and> last (filter visible M) = last M"
proof -
  obtain x d where "M = x @ [d]" using assms(1) by (cases M rule: rev_cases) auto
  then show ?thesis using assms(2) visible_delimiter by simp
qed

lemma cut_unique:
  assumes "p @ q = p' @ q'" and "length (delims p) = length (delims p')"
    and "p = [] \<or> is_delimiter (last p)" and "p' = [] \<or> is_delimiter (last p')"
  shows "p = p'"
proof -
  have no: "r = []" if "x = y @ r" "length (delims x) = length (delims y)" "x = [] \<or> is_delimiter (last x)" for x y r
  proof (rule ccontr)
    assume "r \<noteq> []"
    moreover from this have "is_delimiter (last r)" using that by auto
    ultimately have "last r \<in> set (delims r)" by (simp add: delims_def)
    moreover have "delims r = []" using that(1,2) by simp
    ultimately show False by simp
  qed
  consider r where "p = p' @ r" | r where "p' = p @ r" using assms(1) by (auto simp: append_eq_append_conv2)
  then show ?thesis
  proof cases
    case (1 r)
    then show ?thesis using no [OF 1 assms(2,3)] by simp
  next
    case (2 r)
    then show ?thesis using no [OF 2 assms(2) [symmetric] assms(4)] by simp
  qed
qed

text \<open>The first sentence of a text that has more than one.\<close>

lemma first_sentence:
  assumes "parse_file t = s # ss"
  shows "\<exists>M Y. t = M @ Y \<and> parse_file M = [s] \<and> parse_file Y = ss \<and> s = lex M [] \<and>
    (ss \<noteq> [] \<longrightarrow> M \<noteq> [] \<and> is_delimiter (last M) \<and> length (delims M) = 1)"
proof -
  have "0 < length (parse_file t)" using assms by simp
  then obtain X M Y where ar: "around t 0 X M Y" using sentence_text by blast
  then have X: "X = []" by (simp add: around_def)
  have M: "parse_file M = [s]" "parse_file Y = ss" "s = lex M []" "M \<noteq> []" "Y \<noteq> [] \<longrightarrow> is_delimiter (last M)" "t = M @ Y"
    using ar assms by (simp_all add: around_def X)
  have closed: "ss \<noteq> [] \<longrightarrow> M \<noteq> [] \<and> is_delimiter (last M) \<and> length (delims M) = 1"
  proof
    assume "ss \<noteq> []"
    then have "Y \<noteq> []" using M(2) by auto
    then have "is_delimiter (last M)" using M(5) by simp
    moreover have "length (parse_file M) = 1" using M(1) by simp
    ultimately show "M \<noteq> [] \<and> is_delimiter (last M) \<and> length (delims M) = 1" using parse_length [of M] M(4) by simp
  qed
  show ?thesis using M(1-3,6) closed by blast
qed

lemma visible_sentences_concat: "NUL \<notin> set t \<Longrightarrow> concat (visible_sentences t) = filter visible t"
proof -
  have "concat (map (\<lambda>s. filter visible (concat s)) fc) = filter visible (concat (concat fc))" for fc :: "string list list"
    by (induction fc) simp_all
  then show "NUL \<notin> set t \<Longrightarrow> concat (visible_sentences t) = filter visible t"
    by (simp add: visible_sentences_def parse_visible)
qed

lemma visible_sentences_pieces: "NUL \<notin> set t \<Longrightarrow> pieces (visible_sentences t)"
proof (induction "length t" arbitrary: t rule: less_induct)
  case less
  show ?case
  proof (cases "parse_file t")
    case Nil
    then show ?thesis by (simp add: visible_sentences_def)
  next
    case (Cons s ss)
    obtain M Y where M: "t = M @ Y" "parse_file M = [s]" "parse_file Y = ss" "s = lex M []"
      "ss \<noteq> [] \<longrightarrow> M \<noteq> [] \<and> is_delimiter (last M) \<and> length (delims M) = 1"
      using first_sentence [OF Cons] by blast
    show ?thesis
    proof (cases ss)
      case Nil
      then show ?thesis using Cons by (simp add: visible_sentences_def)
    next
      case (Cons u us)
      have one: "M \<noteq> []" "is_delimiter (last M)" "length (delims M) = 1" using M(5) Cons by simp_all
      have v: "filter visible (concat s) = filter visible M" using lex_visible0 less.prems M(1,4) by simp
      have "closed_piece (filter visible M)"
        using visible_closed [OF one(1,2)] one(2,3) by (simp add: closed_piece_def delims_visible)
      moreover have "pieces (visible_sentences Y)" using less M(1) one(1) by simp
      ultimately show ?thesis using \<open>parse_file t = s # ss\<close> M(3) Cons v by (simp add: visible_sentences_def)
    qed
  qed
qed

text \<open>The cut is the only one into that number of pieces.\<close>

lemma visible_sentences_unique:
  "NUL \<notin> set t \<Longrightarrow> filter visible t = concat vs \<Longrightarrow> pieces vs \<Longrightarrow> length (parse_file t) = length vs \<Longrightarrow> visible_sentences t = vs"
proof (induction vs arbitrary: t)
  case Nil
  then show ?case by (simp add: visible_sentences_def)
next
  case (Cons v vs)
  obtain s ss where p: "parse_file t = s # ss" "length ss = length vs" using Cons.prems(4) by (cases "parse_file t") auto
  obtain M Y where M: "t = M @ Y" "parse_file M = [s]" "parse_file Y = ss" "s = lex M []"
    "ss \<noteq> [] \<longrightarrow> M \<noteq> [] \<and> is_delimiter (last M) \<and> length (delims M) = 1"
    using first_sentence [OF p(1)] by blast
  have nul: "NUL \<notin> set M" "NUL \<notin> set Y" using Cons.prems(1) M(1) by simp_all
  have s: "filter visible (concat s) = filter visible M" using lex_visible0 [OF nul(1)] M(4) by simp
  have "filter visible M = v \<and> filter visible Y = concat vs"
  proof (cases vs)
    case Nil
    then have "Y = []" using p(2) M(3) by simp
    then show ?thesis using Cons.prems(2) M(1) Nil by simp
  next
    case (Cons w ws)
    then have one: "M \<noteq> []" "is_delimiter (last M)" "length (delims M) = 1" using M(5) p(2) by auto
    have v: "closed_piece v" using Cons.prems(3) Cons by simp
    have "filter visible M @ filter visible Y = v @ concat vs" using Cons.prems(2) M(1) by simp
    moreover from this have "filter visible M = v"
      by (rule cut_unique) (use one v visible_closed [OF one(1,2)] in \<open>simp_all add: delims_visible closed_piece_def\<close>)
    ultimately show ?thesis by simp
  qed
  moreover have "pieces vs" using Cons.prems(3) by (cases vs) auto
  ultimately have "visible_sentences Y = vs" using Cons.IH [OF nul(2)] M(3) p(2) by simp
  then show ?case using p(1) M(3) s \<open>filter visible M = v \<and> _\<close> by (simp add: visible_sentences_def)
qed

section \<open>Counting the sentences of a written file\<close>

lemma last_concat: "xs \<noteq> [] \<Longrightarrow> last xs \<noteq> [] \<Longrightarrow> concat xs \<noteq> [] \<and> last (concat xs) = last (last xs)"
  by (induction xs) (auto simp: last_append split: if_splits)

lemma parse_sentence_nonempty:
  assumes "s \<in> set (parse_file t)"
  shows "s \<noteq> []"
proof -
  obtain i where i: "i < length (parse_file t)" "s = parse_file t ! i" using assms by (auto simp: in_set_conv_nth)
  obtain X M Y where "around t i X M Y" using sentence_text [OF i(1)] by blast
  then have "parse_file t ! i = lex M []" "M \<noteq> []" unfolding around_def by blast+
  then show ?thesis using i(2) by (simp add: lex_nil_iff)
qed

lemma parse_last:
  assumes "t \<noteq> []"
  shows "last (last (parse_file t)) = last (lex t [])" and "last (parse_file t) \<noteq> []"
proof -
  have ne: "parse_file t \<noteq> []" using assms by simp
  show "last (parse_file t) \<noteq> []" using parse_sentence_nonempty [of "last (parse_file t)" t] ne by simp
  from last_concat [OF ne this] show "last (last (parse_file t)) = last (lex t [])"
    by (simp add: parse_file_lex concat_group)
qed

definition ends_closed :: "file_content \<Rightarrow> bool" where
  "ends_closed D \<longleftrightarrow> is_delim_token (last (last D))"

definition ends_well :: "file_content \<Rightarrow> bool" where
  "ends_well D \<longleftrightarrow> D \<noteq> [] \<and> last D \<noteq> [] \<and> lexeme (last (last D))"

lemma parse_ends:
  assumes "t \<noteq> []" and "NUL \<notin> set t"
  shows "ends_well (parse_file t)" and "ends_closed (parse_file t) \<longleftrightarrow> is_delimiter (last t)"
proof -
  have "lexeme (last (lex t []))"
    using lexemes_last [OF lex_lexemes] assms by (simp add: lex_nil_iff)
  then show "ends_well (parse_file t)" using parse_last [OF assms(1)] assms(1) by (simp add: ends_well_def)
  show "ends_closed (parse_file t) \<longleftrightarrow> is_delimiter (last t)"
    using lex_last [OF assms(1), of "[]"] parse_last(1) [OF assms(1)] by (simp add: ends_closed_def)
qed

lemma written_ends:
  assumes "ends_well D"
  shows "write_file_content D \<noteq> []" and "is_delimiter (last (write_file_content D)) \<longleftrightarrow> ends_closed D"
  using write_content_last [of D] lexeme_hd(1) lexeme_last_delim assms by (auto simp: ends_well_def ends_closed_def)

lemma written_delims: "delims (write_file_content D) = delims (concat (concat D))"
proof -
  have "delims (filter visible (write_file_content D)) = delims (filter visible (concat (concat D)))" by (simp add: write_visible)
  then show ?thesis by (simp add: delims_visible)
qed

lemma written_count:
  assumes "ends_well D" and "ends_closed D \<longleftrightarrow> ends_closed (parse_file t)" and "t \<noteq> []" and "NUL \<notin> set t"
    and "length (delims (concat (concat D))) = length (delims t)"
  shows "length (parse_file (write_file_content D)) = length (parse_file t)"
  using written_ends [OF assms(1)] parse_ends [OF assms(3,4)] assms(2,3,5) by (simp add: parse_length written_delims)

lemma same_delims: "filter visible t = filter visible u \<Longrightarrow> delims t = delims u"
  using delims_visible by metis

section \<open>One edit, sentence by sentence\<close>

definition sentence_with :: "sentence \<Rightarrow> int \<Rightarrow> string \<Rightarrow> string" where
  "sentence_with ws j w = concat (take (insert_index j ws) ws) @ w @ concat (drop (insert_index j ws) ws)"

text \<open>The word goes in front of the end of its sentence, or the file ends in an open sentence.\<close>

definition inside :: "string \<Rightarrow> nat \<Rightarrow> int \<Rightarrow> bool" where
  "inside txt i j \<longleftrightarrow> (let ws = parse_file txt ! i in
     insert_index j ws < length ws \<or> i + 1 = length (parse_file txt) \<and> \<not> is_delimiter (last txt))"

lemma replaced_ends:
  assumes "i < length fc" and "ends_well fc"
    and "i + 1 = length fc \<Longrightarrow> s \<noteq> [] \<and> lexeme (last s) \<and> (is_delim_token (last s) \<longleftrightarrow> ends_closed fc)"
  shows "ends_well (take i fc @ s # drop (i + 1) fc)" and "ends_closed (take i fc @ s # drop (i + 1) fc) \<longleftrightarrow> ends_closed fc"
proof -
  have "last (take i fc @ s # drop (i + 1) fc) = (if i + 1 = length fc then s else last fc)"
    using assms(1) by (simp add: last_append last_drop)
  then show "ends_well (take i fc @ s # drop (i + 1) fc)" "ends_closed (take i fc @ s # drop (i + 1) fc) \<longleftrightarrow> ends_closed fc"
    using assms by (auto simp: ends_well_def ends_closed_def)
qed

lemma replaced_delims:
  assumes "i < length fc" and "length (delims (concat s)) = length (delims (concat (fc ! i)))"
  shows "length (delims (concat (concat (take i fc @ s # drop (i + 1) fc)))) = length (delims (concat (concat fc)))"
proof -
  have "fc = take i fc @ fc ! i # drop (i + 1) fc" using id_take_nth_drop [OF assms(1)] by simp
  then have "length (delims (concat (concat fc))) = length (delims (concat (concat (take i fc @ fc ! i # drop (i + 1) fc))))" by simp
  then show ?thesis using assms(2) by simp
qed

lemma replaced_visible:
  assumes "i < length (parse_file t)" and "filter visible (concat s) = filter visible e"
  shows "filter visible (concat (concat (take i (parse_file t) @ s # drop (i + 1) (parse_file t)))) =
    concat ((visible_sentences t)[i := filter visible e])"
proof -
  have flat: "concat (map (\<lambda>s. filter visible (concat s)) fc) = filter visible (concat (concat fc))" for fc :: "string list list"
    by (induction fc) simp_all
  have "(visible_sentences t)[i := filter visible e] =
      map (\<lambda>s. filter visible (concat s)) (take i (parse_file t)) @ filter visible e #
      map (\<lambda>s. filter visible (concat s)) (drop (i + 1) (parse_file t))"
    using assms(1) by (simp add: visible_sentences_def upd_conv_take_nth_drop take_map drop_map)
  then show ?thesis using assms(2) by (simp add: flat)
qed

lemma sentence_end:
  assumes "i + 1 < length (parse_file t)"
  obtains d where "is_delimiter d" and "parse_file t ! i \<noteq> []" and "last (parse_file t ! i) = [d]"
proof -
  have "i < length (parse_file t)" using assms by simp
  then obtain X M Y where ar: "around t i X M Y" using sentence_text by blast
  have "parse_file Y = drop (i + 1) (parse_file t)" by (rule aroundD(4) [OF ar])
  then have "parse_file Y \<noteq> []" using assms by (simp del: parse_nil_iff)
  then have "Y \<noteq> []" by simp
  then have M: "M \<noteq> []" "is_delimiter (last M)" using ar unfolding around_def by blast+
  then have "lex M [] \<noteq> []" "last (lex M []) = [last M]" using lex_last_delim [OF M(2), of "butlast M" "[]"] by simp_all
  then show thesis using that [OF M(2)] aroundD(3) [OF ar] by simp
qed

lemma drop_last: "a < length ws \<Longrightarrow> drop a ws \<noteq> [] \<and> last (drop a ws) = last ws"
  by (simp add: last_drop)

text \<open>The sentence with the word is one piece again.\<close>

lemma edited_delims:
  assumes "delims w = []"
  shows "delims (sentence_with ws j w) = delims (concat ws)"
proof -
  let ?a = "insert_index j ws"
  have "concat ws = concat (take ?a ws) @ concat (drop ?a ws)" by (metis append_take_drop_id concat_append)
  then have "delims (concat ws) = delims (concat (take ?a ws)) @ delims (concat (drop ?a ws))" by simp
  then show ?thesis using assms by (simp add: sentence_with_def)
qed

lemma edited_closed:
  assumes "NUL \<notin> set t" and i: "i + 1 < length (parse_file t)" and "inside t i j" and "delims w = []"
  shows "closed_piece (filter visible (sentence_with (parse_file t ! i) j w))"
proof -
  let ?ws = "parse_file t ! i" and ?a = "insert_index j (parse_file t ! i)"
  let ?e = "sentence_with ?ws j w"
  have len: "length (visible_sentences t) = length (parse_file t)" by (simp add: visible_sentences_def)
  obtain d where d: "is_delimiter d" "?ws \<noteq> []" "last ?ws = [d]" using sentence_end [OF i] by metis
  have a: "?a < length ?ws" using assms(3) i by (auto simp: inside_def Let_def)
  have "concat (drop ?a ?ws) \<noteq> [] \<and> last (concat (drop ?a ?ws)) = d"
    using drop_last [OF a] last_concat [of "drop ?a ?ws"] d(3) by auto
  then have e: "?e \<noteq> []" "last ?e = d" by (simp_all add: sentence_with_def)
  have "closed_piece (visible_sentences t ! i)"
    using visible_sentences_pieces [OF assms(1)] i len unfolding pieces_nth by simp
  then have "length (delims (concat ?ws)) = 1" using i by (simp add: closed_piece_def delims_visible visible_sentences_def)
  then show ?thesis
    using visible_closed [OF e(1)] e(2) d(1) by (simp add: closed_piece_def delims_visible edited_delims [OF assms(4)])
qed

lemma edited_nul_free:
  assumes "NUL \<notin> set t" and "i < length (parse_file t)" and "NUL \<notin> set w"
  shows "NUL \<notin> set (sentence_with (parse_file t ! i) j w)"
proof -
  let ?ws = "parse_file t ! i"
  have "NUL \<notin> set (concat (concat (parse_file t)))" using visible_nul_free [OF parse_visible] assms(1) by blast
  then have "NUL \<notin> set (concat ?ws)" using assms(2) nth_mem by fastforce
  then show ?thesis using assms(3) by (auto simp: sentence_with_def dest: in_set_takeD in_set_dropD)
qed

text \<open>A text that has as many sentences as another one and is open or closed like it.\<close>

definition same_shape :: "string \<Rightarrow> string \<Rightarrow> bool" where
  "same_shape t u \<longleftrightarrow> u \<noteq> [] \<and> NUL \<notin> set u \<and> length (parse_file u) = length (parse_file t) \<and>
     (is_delimiter (last u) \<longleftrightarrow> is_delimiter (last t))"

text \<open>A sentence that can stand at the place of sentence \<^verbatim>\<open>i\<close>: the last one ends as the text ends.\<close>

definition fits_at :: "string \<Rightarrow> nat \<Rightarrow> sentence \<Rightarrow> bool" where
  "fits_at t i s \<longleftrightarrow> length (delims (concat s)) = length (delims (concat (parse_file t ! i))) \<and>
     (i + 1 = length (parse_file t) \<longrightarrow> s \<noteq> [] \<and> lexeme (last s) \<and> (is_delim_token (last s) \<longleftrightarrow> is_delimiter (last t)))"

lemma replaced_shape:
  assumes "NUL \<notin> set t" and i: "i < length (parse_file t)" and fit: "fits_at t i s"
    and v: "filter visible (concat s) = filter visible e" and "NUL \<notin> set e"
    and T: "T = write_file_content (take i (parse_file t) @ s # drop (i + 1) (parse_file t))"
  shows "same_shape t T" and "filter visible T = concat ((visible_sentences t)[i := filter visible e])"
proof -
  let ?fc = "parse_file t" and ?V = "visible_sentences t"
  define D where "D = take i ?fc @ s # drop (i + 1) ?fc"
  have ne: "t \<noteq> []" using i by auto
  note ends = parse_ends [OF ne assms(1)]
  have w: "ends_well D" "ends_closed D \<longleftrightarrow> ends_closed ?fc"
    using replaced_ends [OF i ends(1), of s] fit ends(2) by (simp_all add: D_def fits_at_def)
  have "length (delims (concat (concat ?fc))) = length (delims t)" using same_delims [OF parse_visible [OF assms(1)]] by simp
  then have "length (delims (concat (concat D))) = length (delims t)"
    using replaced_delims [OF i] fit unfolding D_def fits_at_def by metis
  then have n: "length (parse_file T) = length ?fc" unfolding T D_def [symmetric] by (rule written_count [OF w ne assms(1)])
  show V: "filter visible T = concat (?V[i := filter visible e])"
    using replaced_visible [OF i v] by (simp add: T write_visible)
  have "NUL \<notin> set (concat ?V)" using visible_sentences_concat [OF assms(1)] assms(1) by auto
  then have "NUL \<notin> set (concat (?V[i := filter visible e]))"
    using set_update_subset_insert [of ?V i "filter visible e"] assms(5) by fastforce
  then have "NUL \<notin> set T" using V visible_nul [of T] by simp
  then show "same_shape t T"
    using written_ends [OF w(1)] w(2) ends(2) n by (simp add: same_shape_def T D_def)
qed

lemma replaced_sentences:
  assumes "NUL \<notin> set t" and i: "i < length (parse_file t)" and fit: "fits_at t i s"
    and v: "filter visible (concat s) = filter visible e" and "NUL \<notin> set e"
    and closed: "i + 1 < length (parse_file t) \<Longrightarrow> closed_piece (filter visible e)"
    and T: "T = write_file_content (take i (parse_file t) @ s # drop (i + 1) (parse_file t))"
  shows "visible_sentences T = (visible_sentences t)[i := filter visible e]"
proof -
  let ?V = "visible_sentences t"
  have len: "length ?V = length (parse_file t)" by (simp add: visible_sentences_def)
  note r = replaced_shape [OF assms(1) i fit v assms(5) T]
  have "closed_piece (?V[i := filter visible e] ! k)" if "k + 1 < length ?V" for k
    using that closed visible_sentences_pieces [OF assms(1)] unfolding pieces_nth len [symmetric] by (cases "k = i") simp_all
  then have "pieces (?V[i := filter visible e])" unfolding pieces_nth by simp
  then show ?thesis
    using visible_sentences_unique [of T] r len by (simp add: same_shape_def)
qed

text \<open>
  A word without a delimiter: the copy with the word has as many sentences as the file, and the
  sentence that is cut out of it holds the word and fits in the place of the old one.
\<close>

lemma plain_insert:
  assumes "NUL \<notin> set txt" and i: "i < length (parse_file txt)" and ws: "ws = parse_file txt ! i"
    and "1 \<le> j" and "j \<le> int (real_word_count ws) + 1" and ins: "inside txt i j"
    and "NUL \<notin> set w" and "longest_run ordinary 0 w \<le> 127" and "length (lex w []) \<le> 10" and "w \<noteq> []" and d: "delims w = []"
  shows "\<exists>fc' new pre x post. insert_word_in_sentence (parse_file txt) (int i) j w = Some (fc', int new) \<and>
    parse_file (write_file_content fc') = pre @ [x] @ post \<and> length pre = i \<and> length post = length (parse_file txt) - (i + 1) \<and>
    filter visible (concat x) = filter visible (sentence_with ws j w) \<and> fits_at txt i x"
proof -
  let ?fc = "parse_file txt" and ?a = "insert_index j ws"
  have ne: "txt \<noteq> []" using i by auto
  note ends = parse_ends [OF ne assms(1)]
  have "?a < length ws \<or> i + 1 = length ?fc" using ins ws by (auto simp: inside_def Let_def)
  then obtain s1 s2 m new pre mods post where r:
    "insert_word_in_sentence ?fc (int i) j w = Some (take i ?fc @ s1 # s2 @ replicate m [] @ drop (i + 1) ?fc, int new)"
    "s1 @ concat s2 = take ?a ws @ lex w [] @ drop ?a ws" "s2 = [] \<and> m = 0"
    "parse_file (write_file_content (take i ?fc @ s1 # s2 @ replicate m [] @ drop (i + 1) ?fc)) = pre @ mods @ post"
    "length pre = i" "length post = length ?fc - (i + 1)" "filter visible (concat (concat mods)) = filter visible (concat (s1 @ concat s2))"
    using insert_reparsed [OF assms(1-5) _ assms(7-10)] d by metis
  define T where "T = write_file_content (take i ?fc @ s1 # drop (i + 1) ?fc)"
  have T: "parse_file T = pre @ mods @ post" using r(3,4) by (simp add: T_def)
  have s1: "s1 = take ?a ws @ lex w [] @ drop ?a ws" using r(2,3) by simp
  have v1: "filter visible (concat s1) = filter visible (sentence_with ws j w)"
    using lex_visible0 [OF assms(7)] by (simp add: s1 sentence_with_def)
  have delims_like: "length (delims (concat s)) = length (delims (concat (?fc ! i)))"
    if "filter visible (concat s) = filter visible (sentence_with ws j w)" for s
    using same_delims [OF that] edited_delims [OF d] ws by simp
  have last_s1: "s1 \<noteq> [] \<and> lexeme (last s1) \<and> (is_delim_token (last s1) \<longleftrightarrow> is_delimiter (last txt))" if "i + 1 = length ?fc"
  proof (cases "?a < length ws")
    case True
    have "last ?fc = ws" using that ws by (metis add_diff_cancel_right' i last_conv_nth list.size(3) not_less_zero)
    moreover have "s1 \<noteq> [] \<and> last s1 = last ws" using drop_last [OF True] by (simp add: s1)
    ultimately show ?thesis using ends by (simp add: ends_well_def ends_closed_def)
  next
    case False
    then have "drop ?a ws = []" "\<not> is_delimiter (last txt)" using ins ws by (simp_all add: inside_def Let_def)
    moreover have "lex w [] \<noteq> []" "lexeme (last (lex w []))"
      using lexemes_last [OF lex_lexemes, of "[]" w] assms(7,10) by (simp_all add: lex_nil_iff)
    moreover have "\<not> is_delimiter (last w)" using d assms(10) by (auto simp: delims_def filter_empty_conv)
    then have "\<not> is_delim_token (last (lex w []))" using lex_last [OF assms(10), of "[]"] by simp
    ultimately show ?thesis by (simp add: s1)
  qed
  have "fits_at txt i s1" using delims_like [OF v1] last_s1 by (simp add: fits_at_def)
  from replaced_shape(1) [OF assms(1) i this v1 _ T_def] have shape: "same_shape txt T"
    using edited_nul_free [OF assms(1) i assms(7)] ws by blast
  then have "i + (length mods + (length ?fc - (i + 1))) = length ?fc" using T r(5,6) by (simp add: same_shape_def)
  then have "length mods = 1" using i by linarith
  then obtain x where x: "mods = [x]" by (cases mods) auto
  have vx: "filter visible (concat x) = filter visible (sentence_with ws j w)" using r(3,7) x v1 by simp
  have "x \<noteq> [] \<and> lexeme (last x) \<and> (is_delim_token (last x) \<longleftrightarrow> is_delimiter (last txt))" if "i + 1 = length ?fc"
  proof -
    have "last (parse_file T) = x" using T x r(6) that by simp
    then show ?thesis using parse_ends [of T] shape by (auto simp: ends_well_def ends_closed_def same_shape_def)
  qed
  then have "fits_at txt i x" using delims_like [OF vx] by (simp add: fits_at_def)
  then show ?thesis
    using r(1,3,5,6) T vx by (intro exI [of _ "take i ?fc @ s1 # drop (i + 1) ?fc"] exI [of _ new] exI [of _ pre] exI [of _ x] exI [of _ post])
      (simp add: T_def x)
qed

end
