(* ===== verification/ConcurrentEdits.thy ===== *)
theory ConcurrentEdits
  imports EditCycle TextCut
begin

text \<open>
  Several users edit one file at once, each in a sentence of his own: their requests reach a
  storage server in any order in which everybody locks before the first commit and writes
  before he unlocks.
\<close>

section \<open>Edits and their requests\<close>

record user_edit =
  ed_user :: string
  ed_sentence :: nat
  ed_word :: int
  ed_text :: string

abbreviation edit_index :: "user_edit \<Rightarrow> int" where
  "edit_index e \<equiv> int (ed_sentence e)"

definition edit_request :: "string \<Rightarrow> int \<Rightarrow> user_edit \<Rightarrow> message" where
  "edit_request f t e = init_message\<lparr>m_type := t, m_sender := ed_user e, m_filename := f, m_sentence_index := edit_index e,
     m_word_index := ed_word e, m_data := ed_text e\<rparr>"

abbreviation lock_msg :: "string \<Rightarrow> user_edit \<Rightarrow> message" where "lock_msg f \<equiv> edit_request f MSG_LOCK_SENTENCE"
abbreviation write_msg :: "string \<Rightarrow> user_edit \<Rightarrow> message" where "write_msg f \<equiv> edit_request f MSG_WRITE"
abbreviation unlock_msg :: "string \<Rightarrow> user_edit \<Rightarrow> message" where "unlock_msg f \<equiv> edit_request f MSG_UNLOCK_SENTENCE"

lemma edit_request_fields [simp]:
  "m_type (edit_request f t e) = t" "m_sender (edit_request f t e) = ed_user e" "m_filename (edit_request f t e) = f"
  "m_sentence_index (edit_request f t e) = edit_index e" "m_word_index (edit_request f t e) = ed_word e"
  "m_data (edit_request f t e) = ed_text e"
  by (simp_all add: edit_request_def)

lemma edit_request_inj [simp]: "edit_request f t e = edit_request f t' e' \<longleftrightarrow> t = t' \<and> e = e'"
proof
  assume eq: "edit_request f t e = edit_request f t' e'"
  have "t = t'" using arg_cong [OF eq, of m_type] by simp
  moreover have "e = e'"
    using arg_cong [OF eq, of m_sender] arg_cong [OF eq, of m_sentence_index] arg_cong [OF eq, of m_word_index]
      arg_cong [OF eq, of m_data] by simp
  ultimately show "t = t' \<and> e = e'" ..
qed simp

text \<open>The server answers one request after the other, each at its own time.\<close>

fun serve_requests :: "(kernel \<times> message) list \<Rightarrow> storage_server \<Rightarrow> (storage_server \<times> message list list) option" where
  "serve_requests [] ss = Some (ss, [])"
| "serve_requests ((k, m) # rs) ss =
     (case handle_client_request k ss m of
        None \<Rightarrow> None
      | Some (ss1, out) \<Rightarrow> map_option (\<lambda>(ss2, outs). (ss2, out # outs)) (serve_requests rs ss1))"

lemma serve_append:
  assumes "serve_requests rs ss = Some (ss1, outs)" and "serve_requests qs ss1 = Some (ss2, outs')"
  shows "serve_requests (rs @ qs) ss = Some (ss2, outs @ outs')"
  using assms by (induction rs ss arbitrary: outs rule: serve_requests.induct) (auto split: option.splits)

text \<open>The visible sentences of the file with the words in their places.\<close>

definition edited_sentence :: "string \<Rightarrow> user_edit \<Rightarrow> string" where
  "edited_sentence txt e = sentence_with (parse_file txt ! ed_sentence e) (ed_word e) (ed_text e)"

definition with_edits :: "string \<Rightarrow> user_edit list \<Rightarrow> string list" where
  "with_edits txt es = fold (\<lambda>e vs. vs[ed_sentence e := filter visible (edited_sentence txt e)]) es (visible_sentences txt)"

text \<open>A word without a delimiter that does not change how its sentence ends.\<close>

definition plain_edit :: "string \<Rightarrow> user_edit \<Rightarrow> bool" where
  "plain_edit txt e \<longleftrightarrow> good_edit txt (ed_sentence e) (ed_word e) (ed_text e) \<and> inside txt (ed_sentence e) (ed_word e) \<and>
     delims (ed_text e) = [] \<and> length (ed_user e) < MAX_USERNAME"

lemma with_edits_snoc: "with_edits txt (es @ [e]) = (with_edits txt es)[ed_sentence e := filter visible (edited_sentence txt e)]"
  by (simp add: with_edits_def)

lemma with_edits_length [simp]: "length (with_edits txt es) = length (parse_file txt)"
  by (induction es rule: rev_induct) (simp_all add: with_edits_snoc, simp add: with_edits_def visible_sentences_def)

lemma with_edits_nth:
  assumes "distinct (map ed_sentence es)" and "k < length (parse_file txt)"
  shows "with_edits txt es ! k =
    (case find (\<lambda>e. ed_sentence e = k) es of None \<Rightarrow> visible_sentences txt ! k | Some e \<Rightarrow> filter visible (edited_sentence txt e))"
  using assms(1)
proof (induction es rule: rev_induct)
  case Nil
  show ?case by (simp add: with_edits_def)
next
  case (snoc e es)
  have app: "find P (xs @ [y]) = (case find P xs of Some x \<Rightarrow> Some x | None \<Rightarrow> if P y then Some y else None)" for P :: "user_edit \<Rightarrow> bool" and xs y
    by (induction xs) auto
  show ?case
  proof (cases "ed_sentence e = k")
    case True
    then have "find (\<lambda>e. ed_sentence e = k) es = None" using snoc.prems by (auto simp: find_None_iff image_iff)
    then show ?thesis using True assms(2) by (simp add: with_edits_snoc app)
  next
    case False
    then show ?thesis using snoc by (simp add: with_edits_snoc app split: option.split)
  qed
qed

lemma with_edits_same:
  assumes "distinct (map ed_sentence es)" and "distinct (map ed_sentence ds)" and "set ds = set es"
  shows "with_edits txt ds = with_edits txt es"
proof (rule nth_equalityI)
  fix k assume "k < length (with_edits txt ds)"
  then have k: "k < length (parse_file txt)" by simp
  have "find (\<lambda>e. ed_sentence e = k) ds = find (\<lambda>e. ed_sentence e = k) es"
  proof (cases "find (\<lambda>e. ed_sentence e = k) ds")
    case None
    then have "find (\<lambda>e. ed_sentence e = k) es = None" using assms(3) by (simp add: find_None_iff)
    then show ?thesis using None by simp
  next
    case (Some d)
    then have d: "d \<in> set es" "ed_sentence d = k" using assms(3) by (auto simp: find_Some_iff)
    then obtain e where e: "find (\<lambda>e. ed_sentence e = k) es = Some e"
      by (cases "find (\<lambda>e. ed_sentence e = k) es") (auto simp: find_None_iff)
    then have "e \<in> set es" "ed_sentence e = k" by (auto simp: find_Some_iff)
    then have "e = d" using d assms(1) by (auto simp: distinct_map inj_on_def)
    then show ?thesis using e Some by simp
  qed
  then show "with_edits txt ds ! k = with_edits txt es ! k" by (simp add: with_edits_nth assms(1,2) k)
qed simp

section \<open>Sessions side by side\<close>

text \<open>The session of an edit is open with \<^verbatim>\<open>T\<close> in its private copy.\<close>

definition open_at :: "storage_server \<Rightarrow> string \<Rightarrow> string \<Rightarrow> user_edit \<Rightarrow> string \<Rightarrow> bool" where
  "open_at ss f txt e T \<longleftrightarrow>
     (\<exists>s. find (session_matches f (ed_user e) (edit_index e)) (ss_sessions ss) = Some s \<and>
        ws_original_count s = int (length (parse_file txt)) \<and>
        ws_temp_filepath s = temp_path ss f (ed_user e) (edit_index e)) \<and>
     contents (ss_disk ss) (temp_path ss f (ed_user e) (edit_index e)) = Some T \<and>
     holder (ss_locks ss) (f, edit_index e) = Some (ed_user e)"

definition edit_paths :: "storage_server \<Rightarrow> string \<Rightarrow> user_edit \<Rightarrow> bool" where
  "edit_paths ss f e \<longleftrightarrow>
     (let p = file_path ss f; t = temp_path ss f (ed_user e) (edit_index e) in
      distinct [t, p, undo_path p] \<and> list_all (fs_writable (ss_disk ss)) [t, p, undo_path p])"

lemma find_by_index: "find P xs = map_option ((!) xs) (find_index P xs)"
  by (induction xs) (auto simp: option.map_comp comp_def)

lemma find_remove_at:
  assumes "k < length xs" and "\<not> P (xs ! k)"
  shows "find P (remove_at k xs) = find P xs"
proof -
  have app: "find P (ys @ zs) = (case find P ys of Some x \<Rightarrow> Some x | None \<Rightarrow> find P zs)" for ys zs
    by (induction ys) auto
  have "find P xs = find P (take k xs @ xs ! k # drop (Suc k) xs)" using id_take_nth_drop [OF assms(1)] by simp
  then show ?thesis using assms(2) by (simp add: remove_at_def app split: option.split)
qed

lemma find_snoc: "find P (xs @ [y]) = (case find P xs of Some x \<Rightarrow> Some x | None \<Rightarrow> if P y then Some y else None)"
  by (induction xs) auto

lemma open_session:
  assumes "open_at ss f txt e T"
  obtains k where "find_session ss f (ed_user e) (edit_index e) = Some k"
    and "k < length (ss_sessions ss)" and "session_matches f (ed_user e) (edit_index e) (ss_sessions ss ! k)"
    and "ws_original_count (ss_sessions ss ! k) = int (length (parse_file txt))"
    and "ws_temp_filepath (ss_sessions ss ! k) = temp_path ss f (ed_user e) (edit_index e)"
  using assms find_index_SomeD by (fastforce simp: open_at_def find_by_index find_session_def)

text \<open>What a lock, a write and an unlock leave of the other sessions.\<close>

lemma lock_opens:
  assumes "editable ss f (ed_user e) (edit_index e) txt" and "holder tbl = (holder (ss_locks ss))((f, edit_index e) := Some (ed_user e))"
  shows "open_at (locked_state ss f (ed_user e) (edit_index e) txt tbl t) f txt e txt"
proof -
  have "find (session_matches f (ed_user e) (edit_index e)) (ss_sessions ss) = None"
    using assms(1) by (simp add: editable_def Let_def find_session_def find_by_index)
  then show ?thesis
    using assms unfolding open_at_def locked_state_paths
    by (simp add: locked_state_def find_snoc session_matches_def editable_def Let_def store_simps)
qed

lemma lock_keeps_open:
  assumes "open_at ss f txt e T" and "holder tbl = (holder (ss_locks ss))((f, i) := Some u)" and "i \<noteq> edit_index e"
    and "temp_path ss f u i \<noteq> temp_path ss f (ed_user e) (edit_index e)"
  shows "open_at (locked_state ss f u i txt' tbl t) f txt e T"
  using assms unfolding open_at_def locked_state_paths
  by (auto simp: locked_state_def find_snoc store_simps)

lemma lock_keeps_editable:
  assumes "editable ss f u i txt" and "editable ss f v j txt" and "i \<noteq> j" and "temp_path ss f u i \<noteq> temp_path ss f v j"
    and "holder tbl = (holder (ss_locks ss))((f, i) := Some u)" and "map_of tbl f \<noteq> None"
    and "length (ss_sessions ss) + 1 < MAX_SESSIONS"
  shows "editable (locked_state ss f u i txt tbl t) f v j txt"
proof -
  let ?ss1 = "locked_state ss f u i txt tbl t"
  have "find_session ?ss1 f v j = None"
    using assms(2,3) by (simp add: editable_def Let_def find_session_def locked_state_def find_index_append session_matches_def)
  moreover have "contents (ss_disk ?ss1) (file_path ss f) = Some txt"
    using assms(1) by (simp add: editable_def Let_def locked_state_def store_simps)
  moreover have "length (ss_sessions ?ss1) < MAX_SESSIONS" using assms(7) by (simp add: locked_state_def)
  moreover have "snd (get_commit_queue ?ss1 f) = Some []"
    using assms(1) unfolding editable_def Let_def queue_opens locked_state_paths by blast
  ultimately show ?thesis
    using assms(2,3,5,6) unfolding editable_def Let_def locked_state_paths by simp
qed

text \<open>The private copy holds the word; its sentence \<^verbatim>\<open>x\<close> is the one the commit will take.\<close>

definition written_at :: "storage_server \<Rightarrow> string \<Rightarrow> string \<Rightarrow> user_edit \<Rightarrow> bool" where
  "written_at ss f txt e \<longleftrightarrow> (\<exists>T pre x post. open_at ss f txt e T \<and> parse_file T = pre @ [x] @ post \<and>
     length pre = ed_sentence e \<and> length post = length (parse_file txt) - (ed_sentence e + 1) \<and>
     filter visible (concat x) = filter visible (edited_sentence txt e) \<and> fits_at txt (ed_sentence e) x)"

lemma store_keeps_open:
  assumes "open_at ss f txt e T" and "q \<noteq> temp_path ss f (ed_user e) (edit_index e)"
  shows "open_at (ss\<lparr>ss_disk := fst (fs_write (ss_disk ss) q b)\<rparr>) f txt e T"
  using assms by (auto simp: open_at_def temp_path_def store_simps)

lemma store_opens:
  assumes "open_at ss f txt e T" and "edit_paths ss f e"
  shows "open_at (ss\<lparr>ss_disk := fst (fs_write (ss_disk ss) (temp_path ss f (ed_user e) (edit_index e)) b)\<rparr>) f txt e b"
  using assms by (auto simp: open_at_def edit_paths_def Let_def temp_path_def store_simps)

lemma write_request_step:
  assumes op: "open_at ss f txt e txt" and paths: "edit_paths ss f e" and plain: "plain_edit txt e"
  shows "\<exists>b. let ss1 = ss\<lparr>ss_disk := fst (fs_write (ss_disk ss) (temp_path ss f (ed_user e) (edit_index e)) b)\<rparr>
     in handle_client_request k ss (write_msg f e) = Some (ss1, [reply SUCCESS]) \<and> written_at ss1 f txt e"
proof -
  note ge = plain [unfolded plain_edit_def good_edit_def Let_def]
  have i: "ed_sentence e < length (parse_file txt)" using ge by blast
  then have ne: "txt \<noteq> []" by auto
  obtain fc' new pre x post where r: "insert_word_in_sentence (parse_file txt) (edit_index e) (ed_word e) (ed_text e) = Some (fc', int new)"
    "parse_file (write_file_content fc') = pre @ [x] @ post" "length pre = ed_sentence e"
    "length post = length (parse_file txt) - (ed_sentence e + 1)"
    "filter visible (concat x) = filter visible (edited_sentence txt e)" "fits_at txt (ed_sentence e) x"
    using plain_insert [OF _ i refl, of "ed_word e" "ed_text e"] ge unfolding edited_sentence_def by blast
  obtain m where m: "find_session ss f (ed_user e) (edit_index e) = Some m"
    "ws_temp_filepath (ss_sessions ss ! m) = temp_path ss f (ed_user e) (edit_index e)"
    using open_session [OF op] by metis
  have t: "contents (ss_disk ss) (ws_temp_filepath (ss_sessions ss ! m)) = Some txt"
    "fs_writable (ss_disk ss) (ws_temp_filepath (ss_sessions ss ! m))"
    using op paths by (simp_all add: m(2) open_at_def edit_paths_def Let_def)
  have "write_file_ss ss f (ed_user e) (edit_index e) (ed_word e) (ed_text e) =
      Some (ss\<lparr>ss_disk := fst (fs_write (ss_disk ss) (temp_path ss f (ed_user e) (edit_index e)) (write_file_content fc'))\<rparr>, SUCCESS)"
    using write_step [OF m(1) refl t(1) ne _ _ r(1) t(2)] i m(2) by simp
  moreover have "written_at (ss\<lparr>ss_disk := fst (fs_write (ss_disk ss) (temp_path ss f (ed_user e) (edit_index e))
      (write_file_content fc'))\<rparr>) f txt e"
    using store_opens [OF op paths, of "write_file_content fc'"] r(2-6) unfolding written_at_def by blast
  ultimately show ?thesis by (intro exI [of _ "write_file_content fc'"]) (simp add: handle_client_request_def)
qed

text \<open>The file while some edits have been committed.\<close>

definition main_text :: "storage_server \<Rightarrow> string \<Rightarrow> string \<Rightarrow> user_edit list \<Rightarrow> bool" where
  "main_text ss f txt ds \<longleftrightarrow> (\<exists>t. contents (ss_disk ss) (file_path ss f) = Some t \<and> same_shape txt t \<and>
     visible_sentences t = with_edits txt ds) \<and> snd (get_commit_queue ss f) = Some []"

text \<open>What stays the same for the other sessions when one is committed.\<close>

definition commit_leaves :: "storage_server \<Rightarrow> string \<Rightarrow> user_edit \<Rightarrow> storage_server \<Rightarrow> bool" where
  "commit_leaves ss f e ss2 \<longleftrightarrow>
     ss_path ss2 = ss_path ss \<and> fs_writable (ss_disk ss2) = fs_writable (ss_disk ss) \<and>
     holder (ss_locks ss2) = (holder (ss_locks ss))((f, edit_index e) := None) \<and>
     (\<forall>u i. (u, i) \<noteq> (ed_user e, edit_index e) \<longrightarrow>
        find (session_matches f u i) (ss_sessions ss2) = find (session_matches f u i) (ss_sessions ss)) \<and>
     (\<forall>q. q \<notin> {file_path ss f, undo_path (file_path ss f), temp_path ss f (ed_user e) (edit_index e)} \<longrightarrow>
        contents (ss_disk ss2) q = contents (ss_disk ss) q)"

lemma unlock_request_step:
  assumes wr: "written_at ss f txt e" and paths: "edit_paths ss f e" and plain: "plain_edit txt e"
    and main: "main_text ss f txt ds" and other: "ed_sentence e \<notin> ed_sentence ` set ds" and dist: "distinct (map ed_sentence ds)"
  shows "\<exists>ss2. handle_client_request k ss (unlock_msg f e) = Some (ss2, [reply SUCCESS]) \<and>
     main_text ss2 f txt (ds @ [e]) \<and> commit_leaves ss f e ss2"
proof -
  let ?u = "ed_user e" and ?i = "edit_index e" and ?n = "ed_sentence e" and ?p = "file_path ss f"
  let ?tmp = "temp_path ss f ?u ?i" and ?e = "edited_sentence txt e"
  note ge = plain [unfolded plain_edit_def good_edit_def Let_def]
  obtain T pre x post where w: "open_at ss f txt e T" "parse_file T = pre @ [x] @ post" "length pre = ?n"
    "length post = length (parse_file txt) - (?n + 1)" "filter visible (concat x) = filter visible ?e" "fits_at txt ?n x"
    using wr unfolding written_at_def by blast
  obtain t where t: "contents (ss_disk ss) ?p = Some t" "same_shape txt t" "visible_sentences t = with_edits txt ds"
    "snd (get_commit_queue ss f) = Some []"
    using main unfolding main_text_def by blast
  have len: "length (parse_file t) = length (parse_file txt)" and nul: "NUL \<notin> set t" using t(2) by (simp_all add: same_shape_def)
  have i: "?n < length (parse_file t)" using ge len by simp
  obtain m where m: "find_session ss f ?u ?i = Some m" "m < length (ss_sessions ss)" "session_matches f ?u ?i (ss_sessions ss ! m)"
    "ws_original_count (ss_sessions ss ! m) = int (length (parse_file txt))" "ws_temp_filepath (ss_sessions ss ! m) = ?tmp"
    by (rule open_session [OF w(1)])
  define F where "F = take ?n (parse_file t) @ [x] @ drop (?n + 1) (parse_file t)"
  have split: "take ?n (parse_file t) @ parse_file t ! ?n # drop (?n + 1) (parse_file t) = parse_file t"
    using id_take_nth_drop [OF i] by simp
  have "merge_commit (take ?n (parse_file t) @ parse_file t ! ?n # drop (?n + 1) (parse_file t)) (pre @ [x] @ post)
      (int (length (take ?n (parse_file t)))) (int (length (take ?n (parse_file t) @ parse_file t ! ?n # drop (?n + 1) (parse_file t)))) = Merged F"
    using w(3,4) len i by (subst merge_aligned) (simp_all add: F_def)
  then have merge: "merge_commit (parse_file t) (parse_file T) ?i (ws_original_count (ss_sessions ss ! m)) = Merged F"
    using i unfolding split w(2) m(4) by (simp add: len)
  have ok: "session_paths_ok ss f (ss_sessions ss ! m)"
    using paths by (simp add: session_paths_ok_def edit_paths_def m(5))
  have "contents (ss_disk ss) (ws_temp_filepath (ss_sessions ss ! m)) = Some T" using w(1) by (simp add: open_at_def m(5))
  from commit_merges [OF m(1) refl _ t(1) this merge ok] t(4)
  obtain ss1 where c: "commit_write_session_ss ss f ?u ?i = Some (ss1, SUCCESS)"
    "contents (ss_disk ss1) = (contents (ss_disk ss))(undo_path ?p := Some t, ?p := Some (write_file_content F), ?tmp := None)"
    "map_of (ss_queues ss1) f = Some []" "ss_sessions ss1 = remove_at m (ss_sessions ss)" "ss_locks ss1 = ss_locks ss"
    "ss_path ss1 = ss_path ss" "fs_writable (ss_disk ss1) = fs_writable (ss_disk ss)"
    unfolding m(5) by (metis prod.collapse)
  define ss2 where "ss2 = fst (unlock_reply ss1 (unlock_msg f e))"
  have held: "holder (ss_locks ss1) (f, ?i) = Some ?u" using w(1) c(5) by (simp add: open_at_def)
  then have "unlock_reply ss1 (unlock_msg f e) = (ss2, SUCCESS)"
    using locks.release_status [of "ss_locks ss1" f ?i ?u] by (simp add: ss2_def unlock_reply_def split_beta Let_def)
  then have reply: "handle_client_request k ss (unlock_msg f e) = Some (ss2, [reply SUCCESS])"
    using c(1) by (simp add: handle_client_request_def handle_unlock_def)
  have ss2: "ss_disk ss2 = ss_disk ss1" "ss_sessions ss2 = ss_sessions ss1" "ss_path ss2 = ss_path ss1" "ss_queues ss2 = ss_queues ss1"
    "holder (ss_locks ss2) = (holder (ss_locks ss))((f, ?i) := None)"
    using held locks.release_law [of "ss_locks ss1" f ?i ?u] c(5) by (simp_all add: ss2_def unlock_reply_def split_beta Let_def)
  show ?thesis
  proof (intro exI [of _ ss2] conjI)
    show "handle_client_request k ss (unlock_msg f e) = Some (ss2, [reply SUCCESS])" by (rule reply)
    have "find (\<lambda>d. ed_sentence d = ?n) ds = None" using other by (auto simp: find_None_iff image_iff)
    then have "visible_sentences t ! ?n = visible_sentences txt ! ?n"
      using with_edits_nth [OF dist, of ?n "txt"] i len t(3) by simp
    then have same: "delims (concat (parse_file t ! ?n)) = delims (concat (parse_file txt ! ?n))"
      using i len by (intro same_delims) (simp add: visible_sentences_def)
    have fit: "fits_at t ?n x" using w(6) t(2) same len by (simp add: fits_at_def same_shape_def)
    have nul_e: "NUL \<notin> set ?e" unfolding edited_sentence_def using edited_nul_free [of "txt" ?n "ed_text e"] ge by simp
    have closed: "closed_piece (filter visible ?e)" if "?n + 1 < length (parse_file t)"
      unfolding edited_sentence_def using edited_closed [of "txt" ?n "ed_word e" "ed_text e"] that ge plain len by (simp add: plain_edit_def)
    have F: "write_file_content F = write_file_content (take ?n (parse_file t) @ x # drop (?n + 1) (parse_file t))"
      by (simp add: F_def)
    have "same_shape t (write_file_content F)" using replaced_shape(1) [OF nul i fit w(5) nul_e F] .
    then have shape: "same_shape txt (write_file_content F)" using t(2) len by (simp add: same_shape_def)
    have "visible_sentences (write_file_content F) = with_edits txt (ds @ [e])"
      using replaced_sentences [OF nul i fit w(5) nul_e closed F] t(3) by (simp add: with_edits_snoc)
    moreover have "file_path ss2 f = ?p" by (simp add: file_path_def ss2 c(6))
    then have "contents (ss_disk ss2) (file_path ss2 f) = Some (write_file_content F)"
      using paths by (auto simp: ss2 c(2) edit_paths_def Let_def)
    moreover have "snd (get_commit_queue ss2 f) = Some []" by (simp add: queue_opens ss2 c(3))
    ultimately show "main_text ss2 f txt (ds @ [e])" using shape unfolding main_text_def by blast
    have "find (session_matches f v j) (ss_sessions ss2) = find (session_matches f v j) (ss_sessions ss)" if "(v, j) \<noteq> (?u, ?i)" for v j
      unfolding ss2 c(4) using m(3) that by (intro find_remove_at [OF m(2)]) (auto simp: session_matches_def)
    moreover have "contents (ss_disk ss2) q = contents (ss_disk ss) q" if "q \<notin> {?p, undo_path ?p, ?tmp}" for q
      using that by (simp add: ss2 c(2))
    ultimately show "commit_leaves ss f e ss2" unfolding commit_leaves_def by (simp add: ss2 c(6,7))
  qed
qed

section \<open>Any order of the requests\<close>

text \<open>\<^verbatim>\<open>L\<close>: locked, \<^verbatim>\<open>W\<close>: written, \<^verbatim>\<open>ds\<close>: committed, in this order.\<close>

definition in_progress :: "storage_server \<Rightarrow> string \<Rightarrow> string \<Rightarrow> user_edit set \<Rightarrow> user_edit set \<Rightarrow> user_edit list \<Rightarrow> bool" where
  "in_progress ss f txt L W ds \<longleftrightarrow>
     main_text ss f txt ds \<and> (\<forall>e \<in> L. open_at ss f txt e txt) \<and> (\<forall>e \<in> W. written_at ss f txt e) \<and>
     (\<forall>e \<in> L \<union> W. edit_paths ss f e \<and> plain_edit txt e) \<and> (\<forall>e \<in> set ds. holder (ss_locks ss) (f, edit_index e) = None) \<and>
     inj_on (\<lambda>e. temp_path ss f (ed_user e) (edit_index e)) (L \<union> W) \<and> inj_on ed_sentence (L \<union> W \<union> set ds) \<and>
     L \<inter> W = {} \<and> (L \<union> W) \<inter> set ds = {} \<and> distinct ds"

lemma progress_write:
  assumes pr: "in_progress ss f txt L W ds" and e: "e \<in> L"
  shows "\<exists>ss1. handle_client_request k ss (write_msg f e) = Some (ss1, [reply SUCCESS]) \<and>
    in_progress ss1 f txt (L - {e}) (insert e W) ds \<and> file_path ss1 = file_path ss"
proof -
  note inv = pr [unfolded in_progress_def]
  have "open_at ss f txt e txt" "edit_paths ss f e" "plain_edit txt e" using inv e by simp_all
  from write_request_step [OF this, of k] obtain b where b:
    "handle_client_request k ss (write_msg f e) =
       Some (ss\<lparr>ss_disk := fst (fs_write (ss_disk ss) (temp_path ss f (ed_user e) (edit_index e)) b)\<rparr>, [reply SUCCESS])"
    "written_at (ss\<lparr>ss_disk := fst (fs_write (ss_disk ss) (temp_path ss f (ed_user e) (edit_index e)) b)\<rparr>) f txt e"
    by (auto simp: Let_def)
  define ss1 where "ss1 = ss\<lparr>ss_disk := fst (fs_write (ss_disk ss) (temp_path ss f (ed_user e) (edit_index e)) b)\<rparr>"
  have paths: "file_path ss1 = file_path ss" "temp_path ss1 = temp_path ss" "ss_locks ss1 = ss_locks ss" "ss_queues ss1 = ss_queues ss"
    "fs_writable (ss_disk ss1) = fs_writable (ss_disk ss)"
    by (simp_all add: ss1_def file_path_def temp_path_def fun_eq_iff store_simps)
  have other: "temp_path ss f (ed_user e) (edit_index e) \<noteq> temp_path ss f (ed_user d) (edit_index d)" if "d \<in> L \<union> W" "d \<noteq> e" for d
    using inv that e unfolding inj_on_def by blast
  have opens: "open_at ss1 f txt d T" if "open_at ss f txt d T" "d \<in> L \<union> W" "d \<noteq> e" for d T
    unfolding ss1_def by (rule store_keeps_open [OF that(1) other [OF that(2,3)]])
  have "edit_paths ss1 f d = edit_paths ss f d" for d by (simp add: edit_paths_def paths)
  moreover have "main_text ss1 f txt ds"
  proof -
    have "temp_path ss f (ed_user e) (edit_index e) \<noteq> file_path ss f" using inv e by (auto simp: edit_paths_def Let_def)
    then have "contents (ss_disk ss1) (file_path ss f) = contents (ss_disk ss) (file_path ss f)"
      by (auto simp: ss1_def store_simps)
    moreover have "main_text ss f txt ds" using inv by simp
    ultimately show ?thesis unfolding main_text_def queue_opens paths by simp
  qed
  moreover have "open_at ss1 f txt d txt" if "d \<in> L - {e}" for d using opens that inv by blast
  moreover have "written_at ss1 f txt d" if "d \<in> insert e W" for d
  proof (cases "d = e")
    case True
    then show ?thesis using b(2) by (simp add: ss1_def)
  next
    case False
    then have "written_at ss f txt d" "d \<in> L \<union> W" using that inv by auto
    then show ?thesis using opens False unfolding written_at_def by blast
  qed
  moreover have sets: "(L - {e}) \<union> insert e W = L \<union> W" using e by blast
  moreover have "(L - {e}) \<inter> insert e W = {}" using inv by blast
  ultimately have "in_progress ss1 f txt (L - {e}) (insert e W) ds"
    using inv unfolding in_progress_def sets paths by simp
  then show ?thesis using b(1) ss1_def paths(1) by blast
qed

lemma progress_unlock:
  assumes pr: "in_progress ss f txt L W ds" and e: "e \<in> W"
  shows "\<exists>ss2. handle_client_request k ss (unlock_msg f e) = Some (ss2, [reply SUCCESS]) \<and>
    in_progress ss2 f txt L (W - {e}) (ds @ [e]) \<and> file_path ss2 = file_path ss"
proof -
  note inv = pr [unfolded in_progress_def]
  have now: "written_at ss f txt e" "edit_paths ss f e" "plain_edit txt e" "main_text ss f txt ds" using inv e by simp_all
  have "ed_sentence e \<noteq> ed_sentence d" if "d \<in> set ds" for d
  proof
    assume "ed_sentence e = ed_sentence d"
    moreover have "e \<in> L \<union> W \<union> set ds" "d \<in> L \<union> W \<union> set ds" using e that by simp_all
    ultimately have "e = d" using inv by (blast dest: inj_onD)
    then show False using that e inv by blast
  qed
  then have new: "ed_sentence e \<notin> ed_sentence ` set ds" by blast
  have "distinct (map ed_sentence ds)" using inv by (simp add: distinct_map inj_on_Un)
  from unlock_request_step [OF now new this, of k] obtain ss2 where s2:
    "handle_client_request k ss (unlock_msg f e) = Some (ss2, [reply SUCCESS])" "main_text ss2 f txt (ds @ [e])" "commit_leaves ss f e ss2"
    by blast
  note left = s2(3) [unfolded commit_leaves_def]
  have paths: "file_path ss2 = file_path ss" "temp_path ss2 = temp_path ss" using left by (simp_all add: file_path_def temp_path_def fun_eq_iff)
  have same: "edit_paths ss2 f d = edit_paths ss f d" for d using left by (simp add: edit_paths_def paths)
  have opens: "open_at ss2 f txt d T" if op: "open_at ss f txt d T" and d: "d \<in> L \<union> W" "d \<noteq> e" for d T
  proof -
    have "temp_path ss f (ed_user e) (edit_index e) \<noteq> temp_path ss f (ed_user d) (edit_index d)"
      using inv d e unfolding inj_on_def by blast
    moreover have "edit_paths ss f d" using inv d by blast
    ultimately have "contents (ss_disk ss2) (temp_path ss f (ed_user d) (edit_index d)) = contents (ss_disk ss) (temp_path ss f (ed_user d) (edit_index d))"
      using left by (simp add: edit_paths_def Let_def)
    moreover have "ed_sentence d \<noteq> ed_sentence e" using inv d e unfolding inj_on_def by blast
    ultimately show ?thesis using op left unfolding open_at_def paths by simp
  qed
  have "open_at ss2 f txt d txt" if "d \<in> L" for d using opens that inv e by blast
  moreover have "written_at ss2 f txt d" if "d \<in> W - {e}" for d
  proof -
    have "written_at ss f txt d" "d \<in> L \<union> W" "d \<noteq> e" using that inv by auto
    then show ?thesis using opens unfolding written_at_def by blast
  qed
  moreover have "\<forall>d \<in> set (ds @ [e]). holder (ss_locks ss2) (f, edit_index d) = None" using left inv by simp
  moreover have sets: "L \<union> (W - {e}) \<union> set (ds @ [e]) = L \<union> W \<union> set ds" using e by auto
  moreover have "inj_on (\<lambda>d. temp_path ss f (ed_user d) (edit_index d)) (L \<union> (W - {e}))"
    by (rule inj_on_subset [of _ "L \<union> W"]) (use inv in blast)+
  moreover have "L \<inter> (W - {e}) = {}" "(L \<union> (W - {e})) \<inter> set (ds @ [e]) = {}" "distinct (ds @ [e])" using inv e by auto
  ultimately have "in_progress ss2 f txt L (W - {e}) (ds @ [e])"
    using inv s2(2) unfolding in_progress_def sets paths same by blast
  then show ?thesis using s2(1) paths(1) by blast
qed

lemma progress_runs:
  assumes "in_progress ss f txt L W ds" and "distinct (map snd rs)"
    and "set (map snd rs) = write_msg f ` L \<union> unlock_msg f ` (L \<union> W)"
    and "\<forall>e \<in> L. unlock_msg f e \<in> set (dropWhile (\<lambda>m. m \<noteq> write_msg f e) (map snd rs))"
  shows "\<exists>ss2 ds'. serve_requests rs ss = Some (ss2, replicate (length rs) [reply SUCCESS]) \<and>
    in_progress ss2 f txt {} {} ds' \<and> set ds' = set ds \<union> L \<union> W \<and> file_path ss2 = file_path ss"
  using assms
proof (induction rs arbitrary: ss L W ds)
  case Nil
  then have "L = {}" "W = {}" by auto
  then show ?case using Nil by auto
next
  case (Cons r rs)
  obtain k msg where r: "r = (k, msg)" by fastforce
  have "msg \<in> set (map snd (r # rs))" using r by simp
  then consider e where "e \<in> L" "msg = write_msg f e" | e where "e \<in> L \<union> W" "msg = unlock_msg f e"
    unfolding Cons.prems(3) by blast
  then show ?case
  proof cases
    case (1 e)
    obtain ss1 where s1: "handle_client_request k ss msg = Some (ss1, [reply SUCCESS])" "in_progress ss1 f txt (L - {e}) (insert e W) ds"
      "file_path ss1 = file_path ss"
      using progress_write [OF Cons.prems(1) 1(1)] 1(2) by blast
    have "set (map snd rs) = set (map snd (r # rs)) - {msg}" using Cons.prems(2) r by auto
    also have "\<dots> = write_msg f ` (L - {e}) \<union> unlock_msg f ` ((L - {e}) \<union> insert e W)"
      unfolding Cons.prems(3) 1(2) using 1(1) by auto
    finally have set: "set (map snd rs) = write_msg f ` (L - {e}) \<union> unlock_msg f ` ((L - {e}) \<union> insert e W)" .
    have "\<forall>d \<in> L - {e}. unlock_msg f d \<in> set (dropWhile (\<lambda>m. m \<noteq> write_msg f d) (map snd rs))"
      using Cons.prems(4) r 1(2) by (auto split: if_splits)
    from Cons.IH [OF s1(2) _ set this] Cons.prems(2) obtain ss2 ds' where
      "serve_requests rs ss1 = Some (ss2, replicate (length rs) [reply SUCCESS])" "in_progress ss2 f txt {} {} ds'"
      "set ds' = set ds \<union> (L - {e}) \<union> insert e W" "file_path ss2 = file_path ss1" by auto
    then show ?thesis using s1(1,3) r 1(1) by (intro exI [of _ ss2] exI [of _ ds']) auto
  next
    case (2 e)
    have "e \<notin> L"
    proof
      assume "e \<in> L"
      then have "unlock_msg f e \<in> set (dropWhile (\<lambda>m. m \<noteq> write_msg f e) (map snd (r # rs)))" using Cons.prems(4) by blast
      then have "unlock_msg f e \<in> set (map snd rs)" using r 2(2) by (auto dest: set_dropWhileD)
      then show False using Cons.prems(2) r 2(2) by simp
    qed
    then have e: "e \<in> W" using 2(1) by blast
    obtain ss1 where s1: "handle_client_request k ss msg = Some (ss1, [reply SUCCESS])" "in_progress ss1 f txt L (W - {e}) (ds @ [e])"
      "file_path ss1 = file_path ss"
      using progress_unlock [OF Cons.prems(1) e] 2(2) by blast
    have "set (map snd rs) = set (map snd (r # rs)) - {msg}" using Cons.prems(2) r by auto
    also have "\<dots> = write_msg f ` L \<union> unlock_msg f ` (L \<union> (W - {e}))"
      unfolding Cons.prems(3) 2(2) using \<open>e \<notin> L\<close> by auto
    finally have set: "set (map snd rs) = write_msg f ` L \<union> unlock_msg f ` (L \<union> (W - {e}))" .
    have "\<forall>d \<in> L. unlock_msg f d \<in> set (dropWhile (\<lambda>m. m \<noteq> write_msg f d) (map snd rs))"
      using Cons.prems(4) r 2(2) by auto
    from Cons.IH [OF s1(2) _ set this] Cons.prems(2) obtain ss2 ds' where
      "serve_requests rs ss1 = Some (ss2, replicate (length rs) [reply SUCCESS])" "in_progress ss2 f txt {} {} ds'"
      "set ds' = set (ds @ [e]) \<union> L \<union> (W - {e})" "file_path ss2 = file_path ss1" by auto
    then show ?thesis using s1(1,3) r e by (intro exI [of _ ss2] exI [of _ ds']) auto
  qed
qed

section \<open>The locks\<close>

lemma editable_paths: "editable ss f (ed_user e) (edit_index e) txt \<Longrightarrow> edit_paths ss f e"
  by (simp add: editable_def edit_paths_def Let_def)

lemma locks_run:
  assumes "map snd rs = map (lock_msg f) es"
    and "\<forall>e \<in> set es. editable ss f (ed_user e) (edit_index e) txt \<and> length (ed_user e) < MAX_USERNAME"
    and "\<forall>e \<in> L. open_at ss f txt e txt \<and> edit_paths ss f e"
    and "inj_on (\<lambda>e. temp_path ss f (ed_user e) (edit_index e)) (L \<union> set es)" and "inj_on ed_sentence (L \<union> set es)"
    and "distinct es" and "set es \<inter> L = {}" and "length (ss_sessions ss) + length es \<le> MAX_SESSIONS"
  shows "\<exists>ss1. serve_requests rs ss = Some (ss1, replicate (length rs) [reply SUCCESS]) \<and>
    (\<forall>e \<in> L \<union> set es. open_at ss1 f txt e txt \<and> edit_paths ss1 f e) \<and> file_path ss1 = file_path ss \<and> temp_path ss1 = temp_path ss \<and>
    contents (ss_disk ss1) (file_path ss f) = contents (ss_disk ss) (file_path ss f) \<and> ss_queues ss1 = ss_queues ss"
  using assms
proof (induction es arbitrary: rs ss L)
  case Nil
  then show ?case by simp
next
  case (Cons e es)
  let ?u = "ed_user e" and ?i = "edit_index e"
  obtain k rs' where rs: "rs = (k, lock_msg f e) # rs'" "map snd rs' = map (lock_msg f) es" using Cons.prems(1) by (cases rs) auto
  have ed: "editable ss f ?u ?i txt" "length ?u < MAX_USERNAME" using Cons.prems(2) by simp_all
  obtain tbl where tbl: "handle_lock k ss (lock_msg f e) = Some (locked_state ss f ?u ?i txt tbl (now k), SUCCESS)"
    "holder tbl = (holder (ss_locks ss))((f, ?i) := Some ?u)" "map_of tbl f \<noteq> None"
    using lock_appends_session [OF ed, of "lock_msg f e" k] by auto
  define ss1 where "ss1 = locked_state ss f ?u ?i txt tbl (now k)"
  have paths: "file_path ss1 = file_path ss" "temp_path ss1 = temp_path ss" "ss_queues ss1 = ss_queues ss"
    "fs_writable (ss_disk ss1) = fs_writable (ss_disk ss)" by (simp_all add: ss1_def)
  have same: "edit_paths ss1 f d = edit_paths ss f d" for d by (simp add: edit_paths_def paths)
  have apart: "ed_sentence d \<noteq> ed_sentence e" "temp_path ss f ?u ?i \<noteq> temp_path ss f (ed_user d) (edit_index d)"
    if "d \<in> L \<union> set es" for d
  proof -
    have d: "d \<in> L \<union> set (e # es)" "e \<in> L \<union> set (e # es)" "d \<noteq> e" using that Cons.prems(6,7) by auto
    show "ed_sentence d \<noteq> ed_sentence e" using inj_onD [OF Cons.prems(5) _ d(1,2)] d(3) by blast
    show "temp_path ss f ?u ?i \<noteq> temp_path ss f (ed_user d) (edit_index d)" using inj_onD [OF Cons.prems(4) _ d(1,2)] d(3) by fastforce
  qed
  have "open_at ss1 f txt d txt \<and> edit_paths ss1 f d" if "d \<in> insert e L" for d
  proof (cases "d = e")
    case True
    then show ?thesis using lock_opens [OF ed(1) tbl(2)] editable_paths [OF ed(1)] same by (simp add: ss1_def)
  next
    case False
    then have d: "d \<in> L" "d \<in> L \<union> set es" using that by simp_all
    then have "open_at ss1 f txt d txt"
      using lock_keeps_open [OF _ tbl(2) _ apart(2) [OF d(2)]] apart(1) [OF d(2)] Cons.prems(3) unfolding ss1_def by fastforce
    then show ?thesis using Cons.prems(3) d(1) same by simp
  qed
  moreover have "editable ss1 f (ed_user d) (edit_index d) txt \<and> length (ed_user d) < MAX_USERNAME" if d: "d \<in> set es" for d
  proof -
    have "0 < length es" using d by (cases es) auto
    then have room: "length (ss_sessions ss) + 1 < MAX_SESSIONS" using Cons.prems(8) unfolding list.size by linarith
    have d': "d \<in> L \<union> set es" using d by simp
    have "editable ss f (ed_user d) (edit_index d) txt" "length (ed_user d) < MAX_USERNAME" using Cons.prems(2) d by simp_all
    then show ?thesis
      using lock_keeps_editable [OF ed(1) _ _ apart(2) [OF d'] tbl(2,3) room] apart(1) [OF d'] unfolding ss1_def by simp
  qed
  moreover have "length (ss_sessions ss1) + length es \<le> MAX_SESSIONS" using Cons.prems(8) by (simp add: ss1_def locked_state_def)
  moreover have "insert e L \<union> set es = L \<union> set (e # es)" by auto
  moreover have "set es \<inter> insert e L = {}" "distinct es" using Cons.prems(6,7) by auto
  ultimately obtain ss2 where s2: "serve_requests rs' ss1 = Some (ss2, replicate (length rs') [reply SUCCESS])"
    "\<forall>d \<in> L \<union> set (e # es). open_at ss2 f txt d txt \<and> edit_paths ss2 f d" "file_path ss2 = file_path ss1" "temp_path ss2 = temp_path ss1"
    "contents (ss_disk ss2) (file_path ss1 f) = contents (ss_disk ss1) (file_path ss1 f)" "ss_queues ss2 = ss_queues ss1"
    using Cons.IH [OF rs(2), of ss1 "insert e L"] Cons.prems(4,5) paths(2) by auto
  have "file_path ss f \<noteq> temp_path ss f ?u ?i" using ed(1) by (auto simp: editable_def Let_def)
  then have "contents (ss_disk ss1) (file_path ss f) = contents (ss_disk ss) (file_path ss f)"
    by (simp add: ss1_def locked_state_def store_simps)
  moreover have "handle_client_request k ss (lock_msg f e) = Some (ss1, [reply SUCCESS])"
    using tbl(1) by (simp add: handle_client_request_def ss1_def)
  ultimately show ?case using s2 paths rs(1) by (intro exI [of _ ss2]) simp
qed

section \<open>Nobody's edit is lost\<close>

text \<open>The writes and unlocks of the edits, each write somewhere in front of its unlock.\<close>

definition any_order :: "string \<Rightarrow> user_edit list \<Rightarrow> message list \<Rightarrow> bool" where
  "any_order f es body \<longleftrightarrow> distinct body \<and> set body = write_msg f ` set es \<union> unlock_msg f ` set es \<and>
     list_all (\<lambda>e. unlock_msg f e \<in> set (dropWhile (\<lambda>m. m \<noteq> write_msg f e) body)) es"

text \<open>Nothing stands in the way of any of the edits, and they do not get into each other's.\<close>

definition edits_ready :: "storage_server \<Rightarrow> string \<Rightarrow> string \<Rightarrow> user_edit list \<Rightarrow> bool" where
  "edits_ready ss f txt es \<longleftrightarrow>
     es \<noteq> [] \<and> list_all (\<lambda>e. editable ss f (ed_user e) (edit_index e) txt \<and> plain_edit txt e) es \<and>
     distinct (map ed_sentence es) \<and> distinct (map (\<lambda>e. temp_path ss f (ed_user e) (edit_index e)) es) \<and>
     length (ss_sessions ss) + length es \<le> MAX_SESSIONS"

text \<open>
  C3. Users who edit different sentences of a file at the same time do not lose each other's words.
  All have locked their sentences before the first of them writes or unlocks, their private copies have
  different names and the server has room for their sessions. Each writes one text without delimiters, of at most ten
  tokens, none longer than 127 characters, in front of the final delimiter of the sentence, or at any place of a last
  sentence that has no final delimiter; behind a final delimiter the code loses words. Then in whatever
  order their writes and unlocks arrive, every request is answered with success, the file ends as the old
  one with every text in its sentence, blanks aside, and all the sentences are free again.
\<close>

theorem concurrent_edits_kept:
  assumes "edits_ready ss f txt es" and "map snd rs = map (lock_msg f) es @ body" and "any_order f es body"
  shows "\<exists>ss' t. serve_requests rs ss = Some (ss', replicate (length rs) [reply SUCCESS]) \<and>
    contents (ss_disk ss') (file_path ss f) = Some t \<and> filter visible t = concat (with_edits txt es) \<and>
    list_all (\<lambda>e. holder (ss_locks ss') (f, edit_index e) = None) es"
proof -
  note ready = assms(1) [unfolded edits_ready_def list_all_iff]
  note order = assms(3) [unfolded any_order_def list_all_iff]
  obtain rs1 rs2 where rs: "rs = rs1 @ rs2" "map snd rs1 = map (lock_msg f) es" "map snd rs2 = body"
    using assms(2) by (metis map_eq_append_conv)
  have inj: "inj_on ed_sentence (set es)" "inj_on (\<lambda>e. temp_path ss f (ed_user e) (edit_index e)) (set es)" "distinct es"
    using ready by (auto simp: distinct_map)
  have users: "\<forall>e \<in> set es. editable ss f (ed_user e) (edit_index e) txt \<and> length (ed_user e) < MAX_USERNAME"
    using ready by (auto simp: plain_edit_def)
  obtain ss1 where s1: "serve_requests rs1 ss = Some (ss1, replicate (length rs1) [reply SUCCESS])"
    "\<forall>e \<in> set es. open_at ss1 f txt e txt \<and> edit_paths ss1 f e" "file_path ss1 = file_path ss" "temp_path ss1 = temp_path ss"
    "contents (ss_disk ss1) (file_path ss f) = contents (ss_disk ss) (file_path ss f)" "ss_queues ss1 = ss_queues ss"
    using locks_run [OF rs(2) users, of "{}"] inj ready by auto
  obtain e where e: "e \<in> set es" using ready by (cases es) auto
  then have ed: "editable ss f (ed_user e) (edit_index e) txt" "plain_edit txt e" using ready by auto
  have nul: "NUL \<notin> set txt" "txt \<noteq> []" using ed(2) by (auto simp: plain_edit_def good_edit_def Let_def)
  have "contents (ss_disk ss) (file_path ss f) = Some txt" "snd (get_commit_queue ss f) = Some []"
    using ed(1) by (simp_all add: editable_def Let_def)
  then have "main_text ss1 f txt []"
    using nul s1(5) unfolding main_text_def queue_opens s1(3,6) by (simp add: same_shape_def with_edits_def)
  then have "in_progress ss1 f txt (set es) {} []"
    using s1(2,4) inj ready unfolding in_progress_def by simp
  from progress_runs [OF this, of rs2] order rs(3) obtain ss2 ds where s2:
    "serve_requests rs2 ss1 = Some (ss2, replicate (length rs2) [reply SUCCESS])" "in_progress ss2 f txt {} {} ds" "set ds = set es" "file_path ss2 = file_path ss1"
    by auto
  note fin = s2(2) [unfolded in_progress_def]
  have "distinct (map ed_sentence ds)" using fin by (simp add: distinct_map)
  then have eq: "with_edits txt ds = with_edits txt es" using with_edits_same ready s2(3) by blast
  obtain t where t: "contents (ss_disk ss2) (file_path ss2 f) = Some t" "same_shape txt t" "visible_sentences t = with_edits txt es"
    using fin eq unfolding main_text_def by auto
  have "filter visible t = concat (with_edits txt es)"
    using t(2,3) visible_sentences_concat [of t] by (simp add: same_shape_def)
  moreover have "serve_requests rs ss = Some (ss2, replicate (length rs) [reply SUCCESS])"
    using serve_append [OF s1(1) s2(1)] by (simp add: rs(1) replicate_add)
  ultimately show ?thesis using t(1) fin s2(3,4) s1(3) by (auto simp: list_all_iff)
qed

definition two_edits :: "user_edit list" where
  "two_edits = [\<lparr>ed_user = ''a'', ed_sentence = 0, ed_word = 2, ed_text = ''and''\<rparr>,
     \<lparr>ed_user = ''b'', ed_sentence = 1, ed_word = 2, ed_text = ''more''\<rparr>]"

lemma second_sentence: "real_word_count ['' '', ''Two'', ''.''] = 2" "insert_index 2 ['' '', ''Two'', ''.''] = 2"
  by (simp_all add: insert_index_def real_word_count_def should_skip_for_indexing_def is_space_token_def
      is_newline_token_def is_space_char_def numeral_2_eq_2)

lemma second_word: "longest_run ordinary 0 ''more'' = 4" "lex ''more'' [] = [''more'']" "delims ''more'' = []"
  by (simp_all add: ordinary_def is_space_char_def is_delimiter_def flush_word_def c_str_def)

lemma one_digit: "show_int 1 = ''1''"
  by code_simp

lemma two_editable: "editable text_server ''f'' ''b'' (int 1) ''One. Two.''"
  "temp_path text_server ''f'' ''a'' (int 0) \<noteq> temp_path text_server ''f'' ''b'' (int 1)"
proof -
  have paths: "file_path text_server ''f'' = ''s/f''" "temp_path text_server ''f'' ''b'' (int 1) = ''s/f.temp_b_1''"
    "undo_path ''s/f'' = ''s/f.undo''"
    by (simp_all add: file_path_def temp_path_def undo_path_def text_server_def server_with_def c_copy_def one_digit)
  have "parent_dir ''s/f'' = ''s''" "parent_dir ''s/f.temp_b_1'' = ''s''" "parent_dir ''s/f.undo'' = ''s''"
    by (simp_all add: parent_dir_def)
  then show "editable text_server ''f'' ''b'' (int 1) ''One. Two.''"
    unfolding editable_def paths
    by (simp add: paths Let_def text_server_def server_with_def lock_index_valid_def example_parse holder_def
        get_sentence_lock_def find_session_def get_commit_queue_def fs_writable_def)
  show "temp_path text_server ''f'' ''a'' (int 0) \<noteq> temp_path text_server ''f'' ''b'' (int 1)"
    by (simp add: temp_path_def text_server_def server_with_def c_copy_def zero_digit one_digit)
qed

theorem concurrent_edits_kept_witness:
  "\<exists>ss' t. serve_requests (map (Pair example_kernel)
       (map (lock_msg ''f'') two_edits @ map (write_msg ''f'') (rev two_edits) @ map (unlock_msg ''f'') two_edits)) text_server =
       Some (ss', replicate 6 [reply SUCCESS]) \<and>
     contents (ss_disk ss') ''s/f'' = Some t \<and> filter visible t = ''Oneand.Twomore.''"
proof -
  let ?body = "map (write_msg ''f'') (rev two_edits) @ map (unlock_msg ''f'') two_edits"
  let ?rs = "map (Pair example_kernel) (map (lock_msg ''f'') two_edits @ ?body)"
  have plain: "list_all (plain_edit ''One. Two.'') two_edits"
    by (simp add: two_edits_def plain_edit_def good_edit_def inside_def example_parse example_ws example_word second_sentence
        second_word Let_def del: lex.simps longest_run.simps delims_simps)
  have "edits_ready text_server ''f'' ''One. Two.'' two_edits"
    using plain text_editable two_editable by (simp add: edits_ready_def two_edits_def) (simp add: text_server_def)
  moreover have "map snd ?rs = map (lock_msg ''f'') two_edits @ ?body" by (simp add: comp_def)
  moreover have "any_order ''f'' two_edits ?body" by (simp add: any_order_def two_edits_def insert_commute)
  ultimately have "\<exists>ss' t. serve_requests ?rs text_server = Some (ss', replicate (length ?rs) [reply SUCCESS]) \<and>
    contents (ss_disk ss') (file_path text_server ''f'') = Some t \<and> filter visible t = concat (with_edits ''One. Two.'' two_edits) \<and>
    list_all (\<lambda>e. holder (ss_locks ss') (''f'', edit_index e) = None) two_edits"
    by (rule concurrent_edits_kept)
  moreover have "file_path text_server ''f'' = ''s/f''" by (simp add: file_path_def text_server_def server_with_def c_copy_def)
  moreover have "concat (with_edits ''One. Two.'' two_edits) = ''Oneand.Twomore.''"
    by (simp add: with_edits_def two_edits_def edited_sentence_def sentence_with_def visible_sentences_def example_parse example_ws
        second_sentence visible_def is_space_char_def)
  moreover have "length ?rs = 6" by (simp add: two_edits_def)
  ultimately show ?thesis by auto
qed

end
