(* ===== verification/QueueMerge.thy ===== *)
theory QueueMerge
  imports CommitQueue
begin

text \<open>
  What \<^verbatim>\<open>process_commit_queue\<close> of \<^verbatim>\<open>ss.c\<close> computes. The loop reads and writes the disk for every
  entry; the reference is one fold over the texts of the private copies, without a disk.
\<close>

section \<open>The merge without a disk\<close>

text \<open>
  Each entry comes with what its private copy reads as, if it can be read. The result is the text of the
  file and the number of merged copies; \<^const>\<open>None\<close> is a merge that overruns its array.
\<close>

fun merge_texts :: "(commit_entry \<times> string option) list \<Rightarrow> string option \<Rightarrow> (string option \<times> nat) option" where
  "merge_texts [] main = Some (main, 0)"
| "merge_texts ((e, None) # es) main = merge_texts es main"
| "merge_texts ((e, Some t) # es) main =
     (case merge_commit (parse_or_empty main) (parse_file t) (ce_sentence_idx e) (ce_original_count e) of
        Skip \<Rightarrow> merge_texts es main
      | Overrun \<Rightarrow> None
      | Merged fc \<Rightarrow> map_option (\<lambda>(m, n). (m, n + 1)) (merge_texts es (Some (write_file_content fc))))"

definition with_copies :: "file_system \<Rightarrow> commit_entry list \<Rightarrow> (commit_entry \<times> string option) list" where
  "with_copies fs es = map (\<lambda>e. (e, fs_read fs (ce_temp_filepath e))) es"

text \<open>The entries the loop passes over while the file is as it is.\<close>

definition passed_over :: "file_system \<Rightarrow> string \<Rightarrow> commit_entry \<Rightarrow> bool" where
  "passed_over fs p e \<longleftrightarrow>
     (case fs_read fs (ce_temp_filepath e) of
        None \<Rightarrow> True
      | Some t \<Rightarrow> merge_commit (parse_or_empty (fs_read fs p)) (parse_file t) (ce_sentence_idx e) (ce_original_count e) = Skip)"

section \<open>The loop\<close>

lemma fs_read_store: "q \<noteq> p \<Longrightarrow> fs_read (fst (fs_write fs p s)) q = fs_read fs q"
  by (simp add: fs_read_def store_simps)

lemma fs_read_stored: "fs_writable fs p \<Longrightarrow> fs_read (fst (fs_write fs p s)) p = Some s"
  by (simp add: fs_read_def store_simps)

lemma fs_read_unlink: "q \<noteq> p \<Longrightarrow> fs_read (fst (fs_unlink fs p)) q = fs_read fs q"
  by (simp add: fs_read_def store_simps)

lemma with_copies_unlink:
  "x \<notin> ce_temp_filepath ` set es \<Longrightarrow> with_copies (fst (fs_unlink fs x)) es = with_copies fs es"
  unfolding with_copies_def by (rule map_cong) (auto intro!: fs_read_unlink)

lemma with_copies_store:
  "x \<notin> ce_temp_filepath ` set es \<Longrightarrow> with_copies (fst (fs_write fs x s)) es = with_copies fs es"
  unfolding with_copies_def by (rule map_cong) (auto intro!: fs_read_store)

text \<open>What is left of the disk: the copies are gone, the file is the merged text, all else stays.\<close>

definition merged_disk :: "file_system \<Rightarrow> string \<Rightarrow> commit_entry list \<Rightarrow> string option \<Rightarrow> file_system \<Rightarrow> bool" where
  "merged_disk fs p es m fs' \<longleftrightarrow> fs_read fs' p = m \<and> (\<forall>e \<in> set es. contents fs' (ce_temp_filepath e) = None) \<and>
     (\<forall>x. x \<noteq> p \<and> x \<notin> ce_temp_filepath ` set es \<longrightarrow> contents fs' x = contents fs x)"

lemma merged_disk_step:
  assumes "merged_disk (fst (fs_unlink fs1 (ce_temp_filepath e))) p es m fs'" and "ce_temp_filepath e \<notin> insert p (ce_temp_filepath ` set es)"
    and "\<And>x. x \<noteq> p \<Longrightarrow> contents fs1 x = contents fs x"
  shows "merged_disk fs p (e # es) m fs'"
  using assms unfolding merged_disk_def by (auto simp: store_simps)

lemma entries_merged:
  assumes "fs_writable fs p" and "distinct (p # map ce_temp_filepath es)"
    and "merge_texts (with_copies fs es) (fs_read fs p) = Some (m, n)"
  shows "\<exists>fs'. process_entries p es fs = Some (fs', [], int n) \<and> merged_disk fs p es m fs'"
  using assms
proof (induction es arbitrary: fs n)
  case Nil
  then show ?case by (simp add: with_copies_def merged_disk_def)
next
  case (Cons e es)
  let ?t = "ce_temp_filepath e"
  have t: "?t \<noteq> p" "?t \<notin> ce_temp_filepath ` set es" "p \<notin> ce_temp_filepath ` set es" "distinct (p # map ce_temp_filepath es)"
    using Cons.prems(2) by auto
  let ?fs1 = "fst (fs_unlink fs ?t)"
  have unl: "fs_writable ?fs1 p" "fs_read ?fs1 p = fs_read fs p" "with_copies ?fs1 es = with_copies fs es"
    using Cons.prems(1) t by (simp_all add: store_simps fs_read_unlink with_copies_unlink)
  have skip: "\<exists>fs'. process_entries p es ?fs1 = Some (fs', [], int n) \<and> merged_disk fs p (e # es) m fs'"
    if same: "merge_texts (with_copies fs es) (fs_read fs p) = Some (m, n)"
  proof -
    obtain fs' where "process_entries p es ?fs1 = Some (fs', [], int n)" "merged_disk ?fs1 p es m fs'"
      using Cons.IH [OF unl(1) t(4), of n] same unl by auto
    then show ?thesis using merged_disk_step [of fs e p es m fs' fs] t by auto
  qed
  show ?case
  proof (cases "fs_read fs ?t")
    case None
    then show ?thesis using skip Cons.prems(3) by (simp add: with_copies_def)
  next
    case (Some c)
    show ?thesis
    proof (cases "merge_commit (parse_or_empty (fs_read fs p)) (parse_file c) (ce_sentence_idx e) (ce_original_count e)")
      case Skip
      then show ?thesis using skip Some Cons.prems(3) by (simp add: with_copies_def)
    next
      case Overrun
      then show ?thesis using Some Cons.prems(3) by (simp add: with_copies_def)
    next
      case (Merged fc)
      define fs2 where "fs2 = fst (fs_write fs p (write_file_content fc))"
      let ?fs3 = "fst (fs_unlink fs2 ?t)"
      have w: "fs_write fs p (write_file_content fc) = (fs2, 0)" using Cons.prems(1) by (simp add: fs2_def fs_write_def)
      have after: "fs_writable ?fs3 p" "fs_read ?fs3 p = Some (write_file_content fc)" "with_copies ?fs3 es = with_copies fs es"
        using Cons.prems(1) t by (simp_all add: fs2_def store_simps fs_read_unlink fs_read_stored with_copies_unlink with_copies_store)
      obtain n' where n': "merge_texts (with_copies fs es) (Some (write_file_content fc)) = Some (m, n')" "n = n' + 1"
        using Cons.prems(3) Some Merged by (auto simp: with_copies_def)
      obtain fs' where "process_entries p es ?fs3 = Some (fs', [], int n')" "merged_disk ?fs3 p es m fs'"
        using Cons.IH [OF after(1) t(4), of n'] n'(1) after by auto
      moreover from this(2) have "merged_disk fs p (e # es) m fs'"
        by (rule merged_disk_step) (use t in \<open>auto simp: fs2_def store_simps\<close>)
      ultimately show ?thesis using Some Merged w n'(2) by simp
    qed
  qed
qed

lemma entries_stopped:
  assumes "\<not> fs_writable fs p" and "distinct (p # map ce_temp_filepath es)"
    and "merge_texts (with_copies fs es) (fs_read fs p) = Some (m, n)"
  shows "\<exists>fs'. process_entries p es fs = Some (fs', dropWhile (passed_over fs p) es, if n = 0 then 0 else - 1) \<and>
    fs_read fs' p = fs_read fs p \<and> (n = 0 \<longleftrightarrow> dropWhile (passed_over fs p) es = [])"
  using assms
proof (induction es arbitrary: fs n)
  case Nil
  then show ?case by (simp add: with_copies_def)
next
  case (Cons e es)
  let ?t = "ce_temp_filepath e"
  have t: "?t \<noteq> p" "?t \<notin> ce_temp_filepath ` set es" "distinct (p # map ce_temp_filepath es)"
    using Cons.prems(2) by auto
  let ?fs1 = "fst (fs_unlink fs ?t)"
  have unl: "\<not> fs_writable ?fs1 p" "fs_read ?fs1 p = fs_read fs p" "with_copies ?fs1 es = with_copies fs es"
    using Cons.prems(1) t by (simp_all add: store_simps fs_read_unlink with_copies_unlink)
  have "passed_over ?fs1 p d = passed_over fs p d" if "d \<in> set es" for d
  proof -
    have "ce_temp_filepath d \<noteq> ?t" using t(2) imageI [OF that, of ce_temp_filepath] by auto
    then show ?thesis using t(1) [symmetric] by (simp add: passed_over_def fs_read_unlink split: option.split)
  qed
  then have drop: "dropWhile (passed_over ?fs1 p) es = dropWhile (passed_over fs p) es" by (rule dropWhile_cong [OF refl])
  have skip: "\<exists>fs'. process_entries p es ?fs1 = Some (fs', dropWhile (passed_over fs p) es, if n = 0 then 0 else - 1) \<and>
      fs_read fs' p = fs_read fs p \<and> (n = 0 \<longleftrightarrow> dropWhile (passed_over fs p) es = [])"
    if "merge_texts (with_copies fs es) (fs_read fs p) = Some (m, n)"
    using Cons.IH [OF unl(1) t(3), of n] that unl drop by simp
  show ?case
  proof (cases "passed_over fs p e")
    case True
    have "merge_texts (with_copies fs es) (fs_read fs p) = Some (m, n) \<and> process_entries p (e # es) fs = process_entries p es ?fs1"
    proof (cases "fs_read fs ?t")
      case None
      then show ?thesis using Cons.prems(3) by (simp add: with_copies_def)
    next
      case (Some c)
      moreover have "merge_commit (parse_or_empty (fs_read fs p)) (parse_file c) (ce_sentence_idx e) (ce_original_count e) = Skip"
        using True Some by (simp add: passed_over_def)
      ultimately show ?thesis using Cons.prems(3) by (simp add: with_copies_def)
    qed
    then show ?thesis using skip True by simp
  next
    case False
    then obtain c fc where c: "fs_read fs ?t = Some c"
      "merge_commit (parse_or_empty (fs_read fs p)) (parse_file c) (ce_sentence_idx e) (ce_original_count e) = Merged fc"
      using Cons.prems(3) by (auto simp: passed_over_def with_copies_def split: option.splits merge_result.splits)
    then have "n \<noteq> 0" using Cons.prems(3) by (auto simp: with_copies_def)
    moreover have "fs_write fs p (write_file_content fc) = (fs, - 1)" using Cons.prems(1) by (simp add: fs_write_def)
    ultimately show ?thesis using c False by simp
  qed
qed

section \<open>The queue of a file\<close>

lemma backup_keeps:
  "x \<noteq> undo_path p \<Longrightarrow> contents (fst (create_undo_backup fs p)) x = contents fs x"
  "dirs (fst (create_undo_backup fs p)) = dirs fs" "fs_writable (fst (create_undo_backup fs p)) = fs_writable fs"
  by (auto simp: create_undo_backup_def copy_file_def Let_def fun_eq_iff split_beta store_simps)

lemma fs_read_backup: "x \<noteq> undo_path p \<Longrightarrow> fs_read (fst (create_undo_backup fs p)) x = fs_read fs x"
  by (simp add: fs_read_def backup_keeps)


text \<open>Two users have edited one sentence each.\<close>

definition queued :: "int \<Rightarrow> string \<Rightarrow> commit_entry" where
  "queued i t = \<lparr>ce_filename = ''f'', ce_username = ''u'', ce_sentence_idx = i, ce_original_count = 2, ce_temp_filepath = t, ce_lock_time = 0\<rparr>"

definition queued_server :: storage_server where
  "queued_server = server_with [''s/f'' \<mapsto> ''One. Two.'', ''s/t'' \<mapsto> ''Three. Two.'', ''s/u'' \<mapsto> ''One. Four.''] [] []
     [(''f'', [queued 0 ''s/t'', queued 1 ''s/u''])]"


end
