(* ===== verification/ServerThreads.thy ===== *)
theory ServerThreads
  imports StorageServer
begin

text \<open>
  The process around the requests of a storage server (\<^verbatim>\<open>ss.c\<close>): the checks of \<^verbatim>\<open>main\<close>, the
  choice of the address, and the threads that talk to the name server. They end by clearing
  the flag \<^verbatim>\<open>running\<close>, and decide that by \<^verbatim>\<open>errno\<close>, which a call sets only when it fails.
\<close>

section \<open>Start\<close>

abbreviation NM_SS_HB_PORT :: int where "NM_SS_HB_PORT \<equiv> 8082"

text \<open>
  The entries of \<^verbatim>\<open>getifaddrs\<close> in their order, \<^const>\<open>None\<close> for one without an IPv4 address. The
  result is the text in the buffer, which the caller passes as it was, and the return value.
\<close>

definition get_system_ip :: "string option list option \<Rightarrow> nat \<Rightarrow> string \<Rightarrow> string \<times> int" where
  "get_system_ip ifaddrs buffer_size old =
     (case ifaddrs of
        None \<Rightarrow> (old, - 1)
      | Some entries \<Rightarrow>
          (case find (\<lambda>e. e \<noteq> None \<and> e \<noteq> Some ''127.0.0.1'') entries of
             Some (Some ip) \<Rightarrow> (c_copy buffer_size ip, 0)
           | _ \<Rightarrow> (c_copy buffer_size ''127.0.0.1'', - 1)))"

text \<open>
  What \<^verbatim>\<open>main\<close> prints before it gives up, or the address and port of the name server, the
  client port and the number of the server. The warning about an unusual port has no effect.
\<close>

definition port_ok :: "int \<Rightarrow> bool" where
  "port_ok port \<longleftrightarrow> 0 < port \<and> port \<le> 65535"

definition server_arguments :: "string list \<Rightarrow> string + string \<times> int \<times> int \<times> int" where
  "server_arguments argv =
     (if length argv \<noteq> 5
      then Inl (''Usage: '' @ argv ! 0 @ '' <nm_ip> <nm_port> <client_port> <dir_name>'' @ [NEWLINE])
      else let nm_port = atoi (argv ! 2); client_port = atoi (argv ! 3); ss_id = atoi (argv ! 4) in
        if \<not> port_ok nm_port
        then Inl (''Error: Invalid NM port number. Must be between 1 and 65535.'' @ [NEWLINE])
        else if \<not> port_ok client_port
        then Inl (''Error: Invalid client port number. Must be between 1 and 65535.'' @ [NEWLINE])
        else if client_port = nm_port
        then Inl (''Error: Client port and NM port cannot be the same.'' @ [NEWLINE])
        else Inr (argv ! 1, nm_port, client_port, ss_id))"

text \<open>The directory is made when there is nothing of that name.\<close>

definition init_storage_server :: "file_system \<Rightarrow> int \<Rightarrow> storage_server" where
  "init_storage_server fs i =
     (let storage_path = c_copy MAX_PATH (''./ss_storage_'' @ show_int i)
      in fresh_server (if fs_exists fs storage_path then fs else fs_mkdir fs storage_path) storage_path i)"

text \<open>
  The two connections, for commands and for heartbeats: what \<^verbatim>\<open>perror\<close> is given before \<^verbatim>\<open>exit(1)\<close>,
  if one of the two \<^verbatim>\<open>socket\<close> calls fails or nobody listens.
\<close>

definition ss_connect_to_nm :: "bool \<times> bool \<Rightarrow> (string \<times> int \<Rightarrow> bool) \<Rightarrow> string \<Rightarrow> int \<Rightarrow> string option" where
  "ss_connect_to_nm sockets listening nm_ip nm_port =
     (if \<not> fst sockets then Some ''Socket creation failed''
      else if \<not> listening (nm_ip, nm_port) then Some ''Connection to NM failed''
      else if \<not> snd sockets then Some ''Heartbeat socket creation failed''
      else if \<not> listening (nm_ip, NM_SS_HB_PORT) then Some ''Connection to NM heartbeat port failed''
      else None)"

section \<open>The threads of the name server connection\<close>

datatype errno = EAGAIN | EINTR | EPIPE | ECONNRESET | ENOTCONN | Other_errno

text \<open>
  A send that worked or failed. A receive that delivered a message, found the connection
  closed by the peer (which leaves \<^verbatim>\<open>errno\<close> alone), or failed. With a request comes the \<^verbatim>\<open>errno\<close>
  that the library calls of its handler leave behind.
\<close>

datatype send_result = Sent | Send_failed errno

datatype nm_receive = Request message errno | Peer_closed | Receive_failed errno

record ss_process =
  proc_server :: storage_server
  proc_running :: bool
  proc_errno :: errno

definition connection_broken :: "errno \<Rightarrow> bool" where
  "connection_broken e \<longleftrightarrow> e \<in> {EPIPE, ECONNRESET, ENOTCONN}"

text \<open>
  \<^verbatim>\<open>main\<close> up to the start of the threads: why it gives up, or the process and the message it has
  sent; \<^const>\<open>None\<close> if the list of files overruns its buffer. The buffer \<^verbatim>\<open>ss.ip\<close> is zero at first.
\<close>

definition start_storage_server ::
  "file_system \<Rightarrow> kernel \<Rightarrow> errno \<Rightarrow> string option list option \<Rightarrow> bool \<times> bool \<Rightarrow> (string \<times> int \<Rightarrow> bool) \<Rightarrow> string list \<Rightarrow>
   (string + ss_process \<times> message list) option" where
  "start_storage_server fs k e ifaddrs sockets listening argv =
     (case server_arguments argv of
        Inl complaint \<Rightarrow> Some (Inl complaint)
      | Inr (nm_ip, nm_port, client_port, i) \<Rightarrow>
          (let (ip, found) = get_system_ip ifaddrs INET_ADDRSTRLEN [];
               ss = init_storage_server fs i
           in case ss_connect_to_nm sockets listening nm_ip nm_port of
                Some complaint \<Rightarrow> Some (Inl complaint)
              | None \<Rightarrow> map_option (\<lambda>msgs. Inr (\<lparr>proc_server = ss, proc_running = True, proc_errno = e\<rparr>, msgs))
                  (scan_and_register_files k ss ip client_port nm_port)))"

text \<open>What follows a receive that returned -1, and a send that returned -1\<close>

definition receive_failed :: "ss_process \<Rightarrow> ss_process" where
  "receive_failed p = (if proc_errno p \<in> {EAGAIN, EINTR} then p else p\<lparr>proc_running := False\<rparr>)"

definition send_done :: "send_result \<Rightarrow> ss_process \<Rightarrow> ss_process" where
  "send_done r p =
     (case r of
        Sent \<Rightarrow> p
      | Send_failed e \<Rightarrow> p\<lparr>proc_errno := e, proc_running := proc_running p \<and> \<not> connection_broken e\<rparr>)"

text \<open>One round of \<^verbatim>\<open>handle_nm_communication\<close>, with the answer it tries to send\<close>

definition handle_nm_communication ::
  "kernel \<Rightarrow> nm_receive \<Rightarrow> send_result \<Rightarrow> ss_process \<Rightarrow> (ss_process \<times> message option) option" where
  "handle_nm_communication k got sent p =
     (case got of
        Peer_closed \<Rightarrow> Some (receive_failed p, None)
      | Receive_failed e \<Rightarrow> Some (receive_failed (p\<lparr>proc_errno := e\<rparr>), None)
      | Request msg e \<Rightarrow>
          map_option (\<lambda>(ss, response). (send_done sent (p\<lparr>proc_server := ss, proc_errno := e\<rparr>), Some response))
            (handle_nm_request k (proc_server p) msg))"

fun nm_thread :: "kernel \<Rightarrow> (nm_receive \<times> send_result) list \<Rightarrow> ss_process \<Rightarrow> (ss_process \<times> message list) option" where
  "nm_thread k [] p = Some (p, [])"
| "nm_thread k ((got, sent) # rounds) p =
     (if \<not> proc_running p then Some (p, [])
      else case handle_nm_communication k got sent p of
        None \<Rightarrow> None
      | Some (p', out) \<Rightarrow> map_option (\<lambda>(p'', outs). (p'', (case out of None \<Rightarrow> outs | Some m \<Rightarrow> m # outs))) (nm_thread k rounds p'))"

text \<open>\<^verbatim>\<open>heartbeat_thread\<close>: two messages whose results are ignored, then one every five seconds\<close>

definition heartbeat_message :: "int \<Rightarrow> string \<Rightarrow> message" where
  "heartbeat_message i text = init_message\<lparr>m_type := MSG_ACK, m_ss_id := i, m_data := text\<rparr>"

fun heartbeat_loop :: "int \<Rightarrow> send_result list \<Rightarrow> message list \<times> bool" where
  "heartbeat_loop i [] = ([], True)"
| "heartbeat_loop i (r # rs) =
     (let msg = heartbeat_message i ''HEARTBEAT'' in
      case r of
        Send_failed e \<Rightarrow> if connection_broken e then ([msg], False) else (let (ms, running) = heartbeat_loop i rs in (msg # ms, running))
      | Sent \<Rightarrow> (let (ms, running) = heartbeat_loop i rs in (msg # ms, running)))"

definition heartbeat_thread :: "int \<Rightarrow> send_result list \<Rightarrow> message list \<times> bool" where
  "heartbeat_thread i rs =
     (let (ms, running) = heartbeat_loop i rs
      in (heartbeat_message i ''HB_INIT'' # heartbeat_message i ''HEARTBEAT'' # ms, running))"

section \<open>Properties\<close>

text \<open>
  Once a receive from the name server has timed out, the end of that connection goes
  unnoticed: the peer's close does not set \<^verbatim>\<open>errno\<close>, which still holds the time-out, so the
  thread asks again and again without waiting and the process keeps running. Without a
  time-out before it the same event ends the process.
\<close>

lemma closed_rounds:
  "proc_errno p \<in> {EAGAIN, EINTR} \<Longrightarrow> nm_thread k (replicate n (Peer_closed, Sent)) p = Some (p, [])"
  by (induction n) (auto simp: handle_nm_communication_def receive_failed_def)

theorem close_after_timeout_is_ignored:
  assumes "proc_running p" and "proc_errno p \<notin> {EAGAIN, EINTR}"
  shows "nm_thread k [(Peer_closed, Sent)] p = Some (p\<lparr>proc_running := False\<rparr>, []) \<and>
    nm_thread k ((Receive_failed EAGAIN, Sent) # replicate n (Peer_closed, Sent)) p = Some (p\<lparr>proc_errno := EAGAIN\<rparr>, [])"
  using assms closed_rounds [of "p\<lparr>proc_errno := EAGAIN\<rparr>" k n] by (simp add: handle_nm_communication_def receive_failed_def)

definition example_process :: ss_process where
  "example_process = \<lparr>proc_server = server_with Map.empty [] [] [], proc_running = True, proc_errno = Other_errno\<rparr>"

theorem close_after_timeout_is_ignored_witness:
  "\<exists>p. nm_thread k ((Receive_failed EAGAIN, Sent) # replicate 1000000 (Peer_closed, Sent)) example_process = Some (p, []) \<and>
     proc_running p"
  using close_after_timeout_is_ignored [of example_process k 1000000] by (simp add: example_process_def)

text \<open>A storage server that only its threads work on stays in a reachable state.\<close>

lemma round_server [simp]:
  "proc_server (send_done r p) = proc_server p" "proc_server (receive_failed p) = proc_server p"
  by (simp_all add: send_done_def receive_failed_def split: send_result.splits)

lemma round_reachable:
  assumes "handle_nm_communication k got sent p = Some (p', out)" and "ss_reachable (proc_server p)"
  shows "ss_reachable (proc_server p')"
proof (cases got)
  case (Request msg e)
  then obtain ss response where req: "handle_nm_request k (proc_server p) msg = Some (ss, response)"
    and p': "p' = send_done sent (p\<lparr>proc_server := ss, proc_errno := e\<rparr>)"
    using assms(1) by (auto simp: handle_nm_communication_def)
  have "ss_reachable ss" by (rule ss_reachable.name_server [OF assms(2) req])
  then show ?thesis using p' by simp
qed (use assms in \<open>auto simp: handle_nm_communication_def\<close>)

lemma nm_thread_reachable:
  "nm_thread k rounds p = Some (p', out) \<Longrightarrow> ss_reachable (proc_server p) \<Longrightarrow> ss_reachable (proc_server p')"
proof (induction rounds arbitrary: p out)
  case Nil
  then show ?case by simp
next
  case (Cons r rounds)
  obtain got sent where r: "r = (got, sent)" by (cases r)
  show ?case
  proof (cases "proc_running p")
    case False
    then show ?thesis using Cons.prems r by simp
  next
    case True
    then obtain p1 o1 outs where one: "handle_nm_communication k got sent p = Some (p1, o1)"
      and rest: "nm_thread k rounds p1 = Some (p', outs)"
      using Cons.prems(1) r by (auto split: option.splits)
    have "ss_reachable (proc_server p1)" by (rule round_reachable [OF one Cons.prems(2)])
    then show ?thesis using Cons.IH [OF rest] by simp
  qed
qed

end
