(* ===== verification/NameThreads.thy ===== *)
theory NameThreads
  imports NameProps ServerThreads
begin

text \<open>
  The threads of the name server (\<^verbatim>\<open>nm.c\<close>): one for each client connection, command connection
  and heartbeat connection, and the monitor. Each thread is what it remembers between two
  calls of \<^verbatim>\<open>recv_message\<close>; a run of the server is a list of events, each the result of such a
  call in one thread, in any order.
\<close>

section \<open>Threads\<close>

text \<open>
  A client thread in its request loop keeps the slot it was given and its reply buffer; the
  user is the name it was opened with, which the code does not keep. The other threads keep
  the number of their storage server.
\<close>

record client_thread =
  ct_user :: string
  ct_slot :: nat
  ct_response :: message

record 'w name_system =
  sys_nm :: name_server
  sys_world :: 'w
  sys_clients :: "int \<Rightarrow> client_thread option"
  sys_commands :: "int \<Rightarrow> int option"
  sys_heartbeats :: "int \<Rightarrow> int option"

text \<open>\<^verbatim>\<open>handle_client_connection\<close>: the registration, a request, or the end of the connection\<close>

definition handle_client_connection ::
  "'w nm_env \<Rightarrow> int \<Rightarrow> int \<Rightarrow> message option \<Rightarrow> 'w name_system \<Rightarrow> ('w name_system \<times> message option) option" where
  "handle_client_connection env t sock got s =
     (case sys_clients s sock of
        None \<Rightarrow> (case got of
            None \<Rightarrow> Some (s, None)
          | Some msg \<Rightarrow> do {
              (nm, idx, out) \<leftarrow> connect_client t (sys_nm s) sock msg;
              Some (s\<lparr>sys_nm := nm, sys_clients := (sys_clients s)(sock :=
                      map_option (\<lambda>i. \<lparr>ct_user = m_sender msg, ct_slot = i, ct_response = answer SUCCESS\<rparr>) idx)\<rparr>, out)
            })
      | Some ct \<Rightarrow> (case got of
            None \<Rightarrow> Some (s\<lparr>sys_nm := disconnect_client t (sys_nm s) (ct_slot ct) sock,
                           sys_clients := (sys_clients s)(sock := None)\<rparr>, None)
          | Some msg \<Rightarrow> do {
              (((nm, w), out), response) \<leftarrow> handle_request env (sys_nm s, sys_world s) msg (ct_response ct);
              Some (s\<lparr>sys_nm := nm, sys_world := w,
                      sys_clients := (sys_clients s)(sock \<mapsto> ct\<lparr>ct_response := response\<rparr>)\<rparr>, Some out)
            }))"

text \<open>
  \<^verbatim>\<open>handle_ss_connection\<close>: the registration, and one look at the flag of the server. Once the
  server is registered, its thread no longer reads from the socket.
\<close>

definition handle_ss_connection ::
  "int \<Rightarrow> int \<Rightarrow> message option \<Rightarrow> 'w name_system \<Rightarrow> 'w name_system option" where
  "handle_ss_connection t sock got s =
     (if sys_commands s sock \<noteq> None then Some s
      else case got of
        None \<Rightarrow> Some s
      | Some msg \<Rightarrow> do {
          (nm, accepted) \<leftarrow> register_ss t sock (sys_nm s) msg;
          Some (s\<lparr>sys_nm := nm, sys_commands := (if accepted then (sys_commands s)(sock \<mapsto> m_ss_id msg) else sys_commands s)\<rparr>)
        })"

definition still_active :: "name_server \<Rightarrow> int \<Rightarrow> bool" where
  "still_active nm sid = (case server_slot nm sid of None \<Rightarrow> False | Some k \<Rightarrow> si_active (nm_ss_list nm ! k))"

definition check_ss_connection :: "int \<Rightarrow> 'w name_system \<Rightarrow> 'w name_system" where
  "check_ss_connection sock s =
     (case sys_commands s sock of
        None \<Rightarrow> s
      | Some sid \<Rightarrow> if still_active (sys_nm s) sid then s else s\<lparr>sys_commands := (sys_commands s)(sock := None)\<rparr>)"

definition handle_ss_heartbeat :: "int \<Rightarrow> int \<Rightarrow> message option \<Rightarrow> 'w name_system \<Rightarrow> 'w name_system" where
  "handle_ss_heartbeat t sock got s =
     (case sys_heartbeats s sock of
        None \<Rightarrow> (case got of
            None \<Rightarrow> s
          | Some msg \<Rightarrow> if m_type msg = MSG_ACK
              then s\<lparr>sys_nm := heartbeat_connected t sock (sys_nm s) (m_ss_id msg),
                     sys_heartbeats := (sys_heartbeats s)(sock \<mapsto> m_ss_id msg)\<rparr>
              else s)
      | Some sid \<Rightarrow> (case got of
            None \<Rightarrow> s\<lparr>sys_nm := heartbeat_lost (sys_nm s) sid, sys_heartbeats := (sys_heartbeats s)(sock := None)\<rparr>
          | Some msg \<Rightarrow> s\<lparr>sys_nm := heartbeat_received t (sys_nm s) sid msg\<rparr>))"

section \<open>Runs\<close>

text \<open>
  The numbers are the time and the socket. The sockets of the three ports are kept apart, as
  each thread knows its own.
\<close>

datatype 'w nm_event =
    Client int int "message option"
  | Server int int "message option"
  | Command_check int
  | Heartbeat int int "message option"
  | Monitor int
  | Elsewhere 'w

definition system_step :: "'w nm_env \<Rightarrow> 'w nm_event \<Rightarrow> 'w name_system \<Rightarrow> 'w name_system option" where
  "system_step env ev s =
     (case ev of
        Client t sock got \<Rightarrow> map_option fst (handle_client_connection env t sock got s)
      | Server t sock got \<Rightarrow> handle_ss_connection t sock got s
      | Command_check sock \<Rightarrow> Some (check_ss_connection sock s)
      | Heartbeat t sock got \<Rightarrow> Some (handle_ss_heartbeat t sock got s)
      | Monitor t \<Rightarrow> Some (s\<lparr>sys_nm := heartbeat_monitor t (sys_nm s)\<rparr>)
      | Elsewhere w \<Rightarrow> Some (s\<lparr>sys_world := w\<rparr>))"

fun run_events :: "'w nm_env \<Rightarrow> 'w nm_event list \<Rightarrow> 'w name_system \<Rightarrow> 'w name_system option" where
  "run_events env [] s = Some s"
| "run_events env (ev # evs) s = do { s' \<leftarrow> system_step env ev s; run_events env evs s' }"

text \<open>What \<^verbatim>\<open>recv_message\<close> returns is a well-formed message.\<close>

fun event_ok :: "'w nm_event \<Rightarrow> bool" where
  "event_ok (Client t sock got) = pred_option message_ok got"
| "event_ok (Server t sock got) = pred_option message_ok got"
| "event_ok (Heartbeat t sock got) = pred_option message_ok got"
| "event_ok _ = True"

inductive system_reachable :: "'w name_system \<Rightarrow> bool" where
  start: "system_reachable \<lparr>sys_nm = init_name_server, sys_world = w, sys_clients = Map.empty,
     sys_commands = Map.empty, sys_heartbeats = Map.empty\<rparr>"
| step: "system_reachable s \<Longrightarrow> event_ok ev \<Longrightarrow> system_step env ev s = Some s' \<Longrightarrow> system_reachable s'"

section \<open>Sessions of users\<close>

text \<open>
  A register of names, each with the socket that is logged in under it, and what logging in
  and out promise.
\<close>

locale session_register =
  fixes session :: "'s \<Rightarrow> string \<Rightarrow> int option"
    and login :: "int \<Rightarrow> 's \<Rightarrow> string \<Rightarrow> int \<Rightarrow> 's \<times> bool"
    and logout :: "int \<Rightarrow> 's \<Rightarrow> string \<Rightarrow> int \<Rightarrow> 's"
  assumes login_refused: "login t s u sock = (s', True) \<Longrightarrow> s' = s"
    and login_granted: "login t s u sock = (s', False) \<Longrightarrow> session s u = None \<and> session s' = (session s)(u \<mapsto> sock)"
    and login_exclusive: "session s u \<noteq> None \<Longrightarrow> snd (login t s u sock)"
    and logout_law: "session (logout t s u sock) = (if session s u = Some sock then (session s)(u := None) else session s)"
begin

text \<open>Every open connection is the one its user is registered with.\<close>

definition registered :: "'s \<Rightarrow> (int \<Rightarrow> string option) \<Rightarrow> bool" where
  "registered s threads \<longleftrightarrow> (\<forall>sock u. threads sock = Some u \<longrightarrow> session s u = Some sock)"

lemma registered_unique: "registered s threads \<Longrightarrow> threads a = Some u \<Longrightarrow> threads b = Some u \<Longrightarrow> a = b"
  unfolding registered_def by (metis option.inject)

lemma registered_login:
  assumes "registered s threads" and "login t s u sock = (s', False)"
  shows "registered s' (threads(sock \<mapsto> u))"
proof -
  have "session s u = None" "session s' = (session s)(u \<mapsto> sock)" using login_granted [OF assms(2)] by simp_all
  then show ?thesis using assms(1) by (force simp: registered_def)
qed

lemma registered_logout:
  assumes "registered s threads"
  shows "registered (logout t s u sock) (threads(sock := None))"
  using assms by (force simp: registered_def logout_law)

lemma registered_other_logout:
  assumes "registered s threads" and "threads sock = None"
  shows "registered (logout t s u sock) threads"
  using registered_logout [OF assms(1), of t u sock] assms(2) by (simp add: fun_upd_idem)

end

text \<open>A list searched for the first entry with a key, as the partial map it stands for.\<close>

definition table_get :: "('x \<Rightarrow> 'k) \<Rightarrow> 'x list \<Rightarrow> 'k \<Rightarrow> 'x option" where
  "table_get key xs k = map_option (nth xs) (find_index (\<lambda>x. key x = k) xs)"

lemma find_index_same:
  assumes "k < length xs" and "P y = P (xs ! k)"
  shows "find_index P (xs[k := y]) = find_index P xs"
  using assms by (induction xs arbitrary: k) (auto simp: nth_Cons split: nat.splits)

lemma find_index_map: "find_index P (map f xs) = find_index (P \<circ> f) xs"
  by (induction xs) auto

lemma table_get_append:
  assumes "find_index (\<lambda>y. key y = key x) xs = None"
  shows "table_get key (xs @ [x]) = (table_get key xs)(key x \<mapsto> x)"
proof
  fix k
  have "nth (xs @ [x]) i = nth xs i" if "find_index (\<lambda>y. key y = k) xs = Some i" for i
    using find_index_SomeD [OF that] by (simp add: nth_append)
  then show "table_get key (xs @ [x]) k = ((table_get key xs)(key x \<mapsto> x)) k"
    using assms by (auto simp: table_get_def find_index_append split: option.splits)
qed

lemma table_get_update:
  assumes "find_index (\<lambda>x. key x = k) xs = Some i" and "key y = k"
  shows "table_get key (xs[i := y]) = (table_get key xs)(k \<mapsto> y)"
proof
  fix k'
  have i: "i < length xs" "key (xs ! i) = k" using find_index_SomeD [OF assms(1)] by auto
  have same: "find_index (\<lambda>x. key x = k') (xs[i := y]) = find_index (\<lambda>x. key x = k') xs"
    by (rule find_index_same [OF i(1)]) (simp add: i(2) assms(2))
  have "j \<noteq> i" if "find_index (\<lambda>x. key x = k') xs = Some j" "k' \<noteq> k" for j
    using find_index_SomeD [OF that(1)] i(2) that(2) by auto
  then show "table_get key (xs[i := y]) k' = ((table_get key xs)(k \<mapsto> y)) k'"
    using assms(1) i(1) unfolding table_get_def same by (cases "find_index (\<lambda>x. key x = k') xs") auto
qed

lemma table_get_map:
  assumes "\<And>x. key (f x) = key x"
  shows "table_get key (map f xs) k = map_option f (table_get key xs k)"
proof -
  have "map f xs ! i = f (xs ! i)" if "find_index (\<lambda>x. key x = k) xs = Some i" for i
    using find_index_SomeD [OF that] by simp
  then show ?thesis
    by (cases "find_index (\<lambda>x. key x = k) xs") (simp_all add: table_get_def find_index_map comp_def assms)
qed

definition session_of :: "name_server \<Rightarrow> string \<Rightarrow> int option" where
  "session_of nm u =
     (case table_get ru_username (nm_users nm) u of
        None \<Rightarrow> None | Some r \<Rightarrow> if ru_active r then Some (ru_sock r) else None)"

interpretation logins: session_register session_of "\<lambda>t nm u sock. register_user_persistent t nm u sock" deregister_active_session
proof
  fix t sock :: int and nm nm' :: name_server and u
  show "nm' = nm" if "register_user_persistent t nm u sock = (nm', True)"
    using that by (auto simp: register_user_persistent_def split: option.splits if_splits)
  show "session_of nm u = None \<and> session_of nm' = (session_of nm)(u \<mapsto> sock)"
    if reg: "register_user_persistent t nm u sock = (nm', False)"
  proof (cases "find_index (\<lambda>r. ru_username r = u) (nm_users nm)")
    case None
    define r where "r = \<lparr>ru_username = u, ru_first_registered = t, ru_last_seen = t, ru_active = True, ru_sock = sock\<rparr>"
    have "table_get ru_username (nm_users nm') = (table_get ru_username (nm_users nm))(u \<mapsto> r)"
      using reg None table_get_append [of ru_username r "nm_users nm"]
      by (auto simp: register_user_persistent_def r_def split: if_splits)
    then show ?thesis using None by (simp add: session_of_def fun_eq_iff r_def) (simp add: table_get_def)
  next
    case (Some k)
    define r where "r = (nm_users nm ! k)\<lparr>ru_last_seen := t, ru_active := True, ru_sock := sock\<rparr>"
    have "ru_username (nm_users nm ! k) = u" using find_index_SomeD [OF Some] by simp
    then have "table_get ru_username (nm_users nm') = (table_get ru_username (nm_users nm))(u \<mapsto> r)" "\<not> ru_active (nm_users nm ! k)"
      using reg Some table_get_update [OF Some, of r]
      by (auto simp: register_user_persistent_def r_def split: if_splits)
    then show ?thesis using Some by (simp add: session_of_def fun_eq_iff r_def) (simp add: table_get_def)
  qed
  show "snd (register_user_persistent t nm u sock)" if "session_of nm u \<noteq> None"
    using that by (auto simp: register_user_persistent_def session_of_def table_get_def split: option.splits if_splits)
  show "session_of (deregister_active_session t nm u sock) =
      (if session_of nm u = Some sock then (session_of nm)(u := None) else session_of nm)"
  proof (cases "find_index (\<lambda>r. ru_username r = u) (nm_users nm)")
    case None
    then show ?thesis by (simp add: deregister_active_session_def session_of_def table_get_def)
  next
    case (Some k)
    define r where "r = (nm_users nm ! k)\<lparr>ru_active := False, ru_sock := - 1, ru_last_seen := t\<rparr>"
    have "ru_username (nm_users nm ! k) = u" using find_index_SomeD [OF Some] by simp
    then have "table_get ru_username ((nm_users nm)[k := r]) = (table_get ru_username (nm_users nm))(u \<mapsto> r)"
      using table_get_update [OF Some, of r] by (simp add: r_def)
    then have "session_of (nm\<lparr>nm_users := (nm_users nm)[k := r]\<rparr>) = (session_of nm)(u := None)"
      by (simp add: session_of_def fun_eq_iff r_def)
    moreover have "session_of nm u = (if ru_active (nm_users nm ! k) then Some (ru_sock (nm_users nm ! k)) else None)"
      using Some by (simp add: session_of_def table_get_def)
    moreover have "deregister_active_session t nm u sock =
        (if ru_sock (nm_users nm ! k) = sock then nm\<lparr>nm_users := (nm_users nm)[k := r]\<rparr> else nm)"
      using Some by (simp add: deregister_active_session_def r_def)
    ultimately show ?thesis by (auto simp: fun_upd_idem)
  qed
qed

section \<open>The invariant of the threads\<close>

definition users_served :: "'w name_system \<Rightarrow> int \<Rightarrow> string option" where
  "users_served s sock = map_option ct_user (sys_clients s sock)"

definition threads_ok :: "'w name_system \<Rightarrow> bool" where
  "threads_ok s \<longleftrightarrow> nm_reachable (sys_nm s, sys_world s) \<and> logins.registered (sys_nm s) (users_served s) \<and>
     (\<forall>sock ct. sys_clients s sock = Some ct \<longrightarrow> ct_slot ct < MAX_CLIENTS)"

text \<open>Only logging in and out changes the sessions.\<close>

lemma session_of_users:
  assumes "nm_users nm' = nm_users nm"
  shows "session_of nm' = session_of nm"
  unfolding session_of_def assms ..

lemma registered_users:
  assumes "nm_users nm' = nm_users nm"
  shows "logins.registered nm' threads = logins.registered nm threads"
  unfolding logins.registered_def session_of_users [OF assms] ..

lemma server_steps_users:
  "register_ss t sock nm msg = Some (nm', ok) \<Longrightarrow> nm_users nm' = nm_users nm"
  "nm_users (heartbeat_connected t sock nm sid) = nm_users nm"
  "nm_users (heartbeat_received t nm sid msg) = nm_users nm"
  "nm_users (heartbeat_lost nm sid) = nm_users nm"
  "nm_users (heartbeat_monitor t nm) = nm_users nm"
  by (auto simp: register_ss_def heartbeat_connected_def heartbeat_received_def heartbeat_lost_def heartbeat_monitor_def
      update_server_def Let_def split: if_splits option.splits Option.bind_splits)

lemma connect_registered:
  assumes con: "connect_client t nm sock msg = Some (nm', idx, out)" and reg: "logins.registered nm threads"
    and new: "threads sock = None"
  shows "logins.registered nm' (threads(sock := map_option (\<lambda>_. m_sender msg) idx)) \<and> pred_option (\<lambda>k. k < MAX_CLIENTS) idx"
proof -
  obtain nm1 dup where login: "register_user_persistent t nm (m_sender msg) sock = (nm1, dup)" by fastforce
  have same: "threads(sock := None) = threads" using new by (simp add: fun_upd_idem)
  consider "m_type msg \<noteq> MSG_REG_CLIENT" | "m_type msg = MSG_REG_CLIENT" "dup" | "m_type msg = MSG_REG_CLIENT" "\<not> dup" by blast
  then show ?thesis
  proof cases
    case 1
    then show ?thesis using con reg same by (simp add: connect_client_def)
  next
    case 2
    then have "nm1 = nm" using login logins.login_refused [of t nm "m_sender msg" sock nm1] by simp
    then show ?thesis using con reg same login 2 by (auto simp: connect_client_def)
  next
    case 3
    then have in1: "logins.registered nm1 (threads(sock \<mapsto> m_sender msg))"
      using logins.registered_login [OF reg] login by simp
    have "logins.registered (deregister_active_session t nm1 (m_sender msg) sock) threads"
      using logins.registered_logout [OF in1, of t "m_sender msg" sock] same by simp
    moreover have "logins.registered (nm1\<lparr>nm_clients := cs, nm_client_count := n\<rparr>) = logins.registered nm1" for cs n
      by (rule ext, rule registered_users) simp
    ultimately show ?thesis
      using con 3 login same in1 by (auto simp: connect_client_def Let_def split: if_splits)
  qed
qed

lemma disconnect_registered:
  assumes "logins.registered nm threads"
  shows "logins.registered (disconnect_client t nm k sock) (threads(sock := None))"
proof -
  obtain nm1 u where d: "disconnect_client t nm k sock = deregister_active_session t nm1 u sock" "nm_users nm1 = nm_users nm"
    by (auto simp: disconnect_client_def Let_def split: option.splits)
  show ?thesis unfolding d(1) using assms by (intro logins.registered_logout) (simp add: registered_users [OF d(2)])
qed

lemma request_users:
  assumes "nm_reachable (nm, w)" and "handle_request env (nm, w) msg buf = Some (((nm', w'), out), buf')"
  shows "nm_users nm' = nm_users nm"
proof -
  have "files_ok (server_ids nm) (files_of nm)" using reachable_ok [OF assms(1)] by (simp add: nm_ok_def)
  from request_allowed [OF assms(2) this] show ?thesis by (simp add: allowed_step_def)
qed

lemma client_step_ok:
  assumes ok: "threads_ok s" and got: "pred_option message_ok got"
    and step: "handle_client_connection env t sock got s = Some (s', out)"
  shows "threads_ok s'"
proof -
  have inv: "nm_reachable (sys_nm s, sys_world s)" "logins.registered (sys_nm s) (users_served s)"
    and slots: "\<And>sock ct. sys_clients s sock = Some ct \<Longrightarrow> ct_slot ct < MAX_CLIENTS"
    using ok by (auto simp: threads_ok_def)
  show ?thesis
  proof (cases "sys_clients s sock")
    case None
    then have free: "users_served s sock = None" by (simp add: users_served_def)
    show ?thesis
    proof (cases got)
      case None
      then show ?thesis using ok step \<open>sys_clients s sock = None\<close> by (simp add: handle_client_connection_def)
    next
      case (Some msg)
      then obtain nm idx where con: "connect_client t (sys_nm s) sock msg = Some (nm, idx, out)"
        and s': "s' = s\<lparr>sys_nm := nm, sys_clients := (sys_clients s)(sock :=
          map_option (\<lambda>i. \<lparr>ct_user = m_sender msg, ct_slot = i, ct_response = answer SUCCESS\<rparr>) idx)\<rparr>"
        using step None by (auto simp: handle_client_connection_def split: Option.bind_splits)
      have served: "users_served s' = (users_served s)(sock := map_option (\<lambda>_. m_sender msg) idx)"
        by (auto simp: s' users_served_def fun_eq_iff option.map_comp comp_def)
      have "length (m_sender msg) < MAX_USERNAME" using got Some by (simp add: message_ok_def buffer_ok_def)
      from nm_reachable.connect [OF inv(1) this con] have "nm_reachable (nm, sys_world s)" .
      then show ?thesis
        using connect_registered [OF con inv(2) free] slots unfolding threads_ok_def served
        by (auto simp: s' split: if_splits)
    qed
  next
    case (Some ct)
    show ?thesis
    proof (cases got)
      case None
      then have s': "s' = s\<lparr>sys_nm := disconnect_client t (sys_nm s) (ct_slot ct) sock, sys_clients := (sys_clients s)(sock := None)\<rparr>"
        using step Some by (simp add: handle_client_connection_def)
      have served: "users_served s' = (users_served s)(sock := None)" by (auto simp: s' users_served_def fun_eq_iff)
      show ?thesis
        using nm_reachable.disconnect [OF inv(1) slots [OF Some]] disconnect_registered [OF inv(2)] slots
        unfolding threads_ok_def served by (auto simp: s' split: if_splits)
    next
      case msg: (Some msg)
      then obtain nm w o' buf where req: "handle_request env (sys_nm s, sys_world s) msg (ct_response ct) = Some (((nm, w), o'), buf)"
        and s': "s' = s\<lparr>sys_nm := nm, sys_world := w, sys_clients := (sys_clients s)(sock \<mapsto> ct\<lparr>ct_response := buf\<rparr>)\<rparr>"
        using step Some by (auto simp: handle_client_connection_def split: Option.bind_splits)
      have served: "users_served s' = users_served s" using Some by (auto simp: s' users_served_def fun_eq_iff)
      have "length (m_sender msg) < MAX_USERNAME" "length (m_filename msg) < MAX_FILENAME" "length (m_target_user msg) < MAX_USERNAME"
        using got msg by (simp_all add: message_ok_def buffer_ok_def)
      from nm_reachable.request [OF inv(1) this req] show ?thesis
        using slots [OF Some] slots inv(2) registered_users [OF request_users [OF inv(1) req]] unfolding threads_ok_def served
        by (auto simp: s' split: if_splits)
    qed
  qed
qed

lemma threads_ok_servers:
  assumes "threads_ok s" and "nm_reachable (sys_nm s', sys_world s)" and "nm_users (sys_nm s') = nm_users (sys_nm s)"
    and "sys_world s' = sys_world s" and "sys_clients s' = sys_clients s"
  shows "threads_ok s'"
proof -
  have "users_served s' = users_served s" by (simp add: fun_eq_iff users_served_def assms(5))
  then show ?thesis using assms registered_users [OF assms(3)] by (simp add: threads_ok_def)
qed

lemma heartbeat_step_ok:
  assumes ok: "threads_ok s"
  shows "threads_ok (handle_ss_heartbeat t sock got s)"
proof -
  have reach: "nm_reachable (sys_nm s, sys_world s)" using ok by (simp add: threads_ok_def)
  note steps = nm_reachable.hb_connect [OF reach] nm_reachable.hb_receive [OF reach] nm_reachable.hb_lose [OF reach]
  let ?s' = "handle_ss_heartbeat t sock got s"
  have "nm_reachable (sys_nm ?s', sys_world s) \<and> nm_users (sys_nm ?s') = nm_users (sys_nm s)"
    using reach steps server_steps_users(2-4)
    by (cases "sys_heartbeats s sock"; cases got) (simp_all add: handle_ss_heartbeat_def)
  moreover have "sys_world ?s' = sys_world s" "sys_clients ?s' = sys_clients s"
    by (cases "sys_heartbeats s sock"; cases got; simp add: handle_ss_heartbeat_def)+
  ultimately show ?thesis using threads_ok_servers [OF ok] by blast
qed

lemma server_step_ok:
  assumes ok: "threads_ok s" and step: "handle_ss_connection t sock got s = Some s'"
  shows "threads_ok s'"
proof (cases "s' = s")
  case True
  then show ?thesis using ok by simp
next
  case False
  then obtain msg nm accepted where reg: "register_ss t sock (sys_nm s) msg = Some (nm, accepted)"
    and s': "sys_nm s' = nm" "sys_world s' = sys_world s" "sys_clients s' = sys_clients s"
    using step by (auto simp: handle_ss_connection_def split: if_splits option.splits Option.bind_splits)
  have reach: "nm_reachable (sys_nm s, sys_world s)" using ok by (simp add: threads_ok_def)
  show ?thesis
    using threads_ok_servers [OF ok, of s'] s' nm_reachable.register [OF reach reg] server_steps_users(1) [OF reg] by simp
qed

lemma threads_ok_step:
  assumes ok: "threads_ok s" and "event_ok ev" and step: "system_step env ev s = Some s'"
  shows "threads_ok s'"
proof -
  have reach: "nm_reachable (sys_nm s, sys_world s)" using ok by (simp add: threads_ok_def)
  show ?thesis
  proof (cases ev)
    case (Client t sock got)
    then obtain out where "handle_client_connection env t sock got s = Some (s', out)" using step by (auto simp: system_step_def)
    from client_step_ok [OF ok _ this] show ?thesis using assms(2) Client by simp
  next
    case (Server t sock got)
    then show ?thesis using step server_step_ok [OF ok] by (simp add: system_step_def)
  next
    case (Command_check sock)
    then have "s' = check_ss_connection sock s" using step by (simp add: system_step_def)
    moreover have "sys_nm (check_ss_connection sock s) = sys_nm s" "sys_world (check_ss_connection sock s) = sys_world s"
      "sys_clients (check_ss_connection sock s) = sys_clients s"
      by (simp_all add: check_ss_connection_def split: option.splits)
    ultimately show ?thesis using threads_ok_servers [OF ok, of s'] reach by simp
  next
    case (Heartbeat t sock got)
    then show ?thesis using step heartbeat_step_ok [OF ok] by (auto simp: system_step_def)
  next
    case (Monitor t)
    then have s': "s' = s\<lparr>sys_nm := heartbeat_monitor t (sys_nm s)\<rparr>" using step by (simp add: system_step_def)
    show ?thesis
      unfolding s' by (rule threads_ok_servers [OF ok]) (simp_all add: nm_reachable.monitor [OF reach] server_steps_users(5))
  next
    case (Elsewhere w)
    then have s': "s' = s\<lparr>sys_world := w\<rparr>" using step by (simp add: system_step_def)
    have "users_served s' = users_served s" by (simp add: s' fun_eq_iff users_served_def)
    then show ?thesis using ok nm_reachable.outside [OF reach, of w] by (simp add: s' threads_ok_def)
  qed
qed

lemma system_reachable_ok: "system_reachable s \<Longrightarrow> threads_ok s"
proof (induction rule: system_reachable.induct)
  case (start w)
  then show ?case by (simp add: threads_ok_def nm_reachable.start logins.registered_def users_served_def)
next
  case (step s ev env s')
  then show ?case using threads_ok_step by blast
qed

section \<open>Properties\<close>

text \<open>A name server on which one user has logged in.\<close>

definition start_system :: "unit name_system" where
  "start_system = \<lparr>sys_nm = init_name_server, sys_world = (), sys_clients = Map.empty, sys_commands = Map.empty,
     sys_heartbeats = Map.empty\<rparr>"

definition one_login :: "unit name_system" where
  "one_login = the (system_step yes_env (Client 0 4 (Some (client_hello ''a''))) start_system)"

lemma one_login_step:
  "system_step yes_env (Client 0 4 (Some (client_hello ''a''))) start_system = Some one_login"
  "sys_clients one_login = [4 \<mapsto> \<lparr>ct_user = ''a'', ct_slot = 0, ct_response = answer SUCCESS\<rparr>]"
  by (simp_all add: one_login_def system_step_def handle_client_connection_def start_system_def connect_client_def
      register_user_persistent_def init_name_server_def client_hello_def init_message_def Let_def)

lemma one_login_reachable: "system_reachable one_login"
proof -
  have "message_ok (client_hello ''a'')"
    by (simp add: message_ok_def client_hello_def init_message_def int32_def buffer_ok_def)
  then show ?thesis
    using system_reachable.step [OF system_reachable.start [of "()"] _ one_login_step(1) [unfolded start_system_def]]
    by simp
qed

lemma second_login_refused:
  assumes "session_of (sys_nm s) (m_sender msg) \<noteq> None" and "sys_clients s b = None" and "m_type msg = MSG_REG_CLIENT"
  shows "handle_client_connection env t b (Some msg) s =
    Some (s, Some ((answer ERR_INVALID_OPERATION)\<lparr>m_data := ''User already logged in from another session''\<rparr>))"
proof -
  obtain nm where dup: "register_user_persistent t (sys_nm s) (m_sender msg) b = (nm, True)"
    using logins.login_exclusive [OF assms(1), of t b] by (metis prod.collapse)
  have nm: "nm = sys_nm s" by (rule logins.login_refused [OF dup])
  have "s\<lparr>sys_nm := sys_nm s, sys_clients := (sys_clients s)(b := None)\<rparr> = s"
    using assms(2) by (cases s) (simp add: fun_upd_idem)
  then show ?thesis using dup assms(2,3) nm by (simp add: handle_client_connection_def connect_client_def)
qed

text \<open>
  C10. A user has one connection at a time: while a connection of a user is open there is no
  other one, and a further login under the same name is refused and changes nothing, however
  many connections have come and gone and even when the table of users is full.
\<close>

theorem one_session_per_user:
  assumes "system_reachable s" and "sys_clients s a = Some ct"
    and "sys_clients s b = None" and "m_type msg = MSG_REG_CLIENT" and "m_sender msg = ct_user ct"
  shows "handle_client_connection env t b (Some msg) s =
      Some (s, Some ((answer ERR_INVALID_OPERATION)\<lparr>m_data := ''User already logged in from another session''\<rparr>)) \<and>
    (\<forall>c ct'. sys_clients s c = Some ct' \<and> ct_user ct' = ct_user ct \<longrightarrow> c = a)"
proof -
  have reg: "logins.registered (sys_nm s) (users_served s)"
    using system_reachable_ok [OF assms(1)] by (simp add: threads_ok_def)
  have a: "users_served s a = Some (ct_user ct)" using assms(2) by (simp add: users_served_def)
  then have "session_of (sys_nm s) (ct_user ct) \<noteq> None" using reg by (simp add: logins.registered_def)
  then have "handle_client_connection env t b (Some msg) s =
      Some (s, Some ((answer ERR_INVALID_OPERATION)\<lparr>m_data := ''User already logged in from another session''\<rparr>))"
    using second_login_refused [of s msg b env t] assms(3-5) by simp
  moreover have "\<forall>c ct'. sys_clients s c = Some ct' \<and> ct_user ct' = ct_user ct \<longrightarrow> c = a"
    using logins.registered_unique [OF reg _ a] by (auto simp: users_served_def)
  ultimately show ?thesis by blast
qed

theorem one_session_per_user_witness:
  "handle_client_connection yes_env 1 5 (Some (client_hello ''a'')) one_login =
     Some (one_login, Some ((answer ERR_INVALID_OPERATION)\<lparr>m_data := ''User already logged in from another session''\<rparr>))"
  using one_session_per_user [OF one_login_reachable, of 4 "\<lparr>ct_user = ''a'', ct_slot = 0, ct_response = answer SUCCESS\<rparr>"
      5 "client_hello ''a''" yes_env 1]
  by (simp add: one_login_step)

section \<open>Storage servers in service\<close>

definition server_of :: "name_server \<Rightarrow> int \<Rightarrow> ss_info option" where
  "server_of nm = table_get si_id (nm_ss_list nm)"

lemma still_active_server: "still_active nm sid \<longleftrightarrow> (\<exists>x. server_of nm sid = Some x \<and> si_active x)"
  by (auto simp: still_active_def server_of_def table_get_def server_slot_def split: option.splits)

lemma server_of_same:
  assumes "nm_ss_list nm' = nm_ss_list nm"
  shows "server_of nm' = server_of nm"
  unfolding server_of_def assms ..

text \<open>The operations on the list of servers, as operations on the map.\<close>

lemma server_of_update:
  assumes "\<And>x. si_id (f x) = si_id x"
  shows "server_of (update_server nm sid f) = (server_of nm)(sid := map_option f (server_of nm sid))"
proof (cases "server_slot nm sid")
  case None
  then have "server_of nm sid = None" by (simp add: server_slot_def server_of_def table_get_def)
  then show ?thesis using None by (simp add: update_server_def fun_upd_idem)
next
  case (Some k)
  then have found: "find_index (\<lambda>x. si_id x = sid) (nm_ss_list nm) = Some k" by (simp add: server_slot_def)
  then have "si_id (nm_ss_list nm ! k) = sid" using find_index_SomeD by force
  then show ?thesis
    using Some table_get_update [OF found, of "f (nm_ss_list nm ! k)"] found assms
    by (simp add: update_server_def server_of_def table_get_def)
qed

lemma heartbeat_servers:
  "server_of (heartbeat_connected t sock nm sid) =
     (server_of nm)(sid := map_option (\<lambda>x. x\<lparr>si_hb_sock := sock, si_last_heartbeat := t\<rparr>) (server_of nm sid))"
  "server_of (heartbeat_lost nm sid) = (server_of nm)(sid := map_option (\<lambda>x. x\<lparr>si_hb_sock := - 1, si_active := False\<rparr>) (server_of nm sid))"
  "server_of (heartbeat_received t nm sid msg) =
     (if m_type msg = MSG_ACK \<and> m_data msg = ''HEARTBEAT''
      then (server_of nm)(sid := map_option (\<lambda>x. x\<lparr>si_last_heartbeat := t\<rparr>) (server_of nm sid)) else server_of nm)"
  by (simp_all add: heartbeat_connected_def heartbeat_lost_def heartbeat_received_def server_of_update)

lemma monitor_servers: "server_of (heartbeat_monitor t nm) sid = map_option (check_heartbeat t) (server_of nm sid)"
proof -
  have "si_id (check_heartbeat t x) = si_id x" for x by (simp add: check_heartbeat_def Let_def)
  then show ?thesis by (simp add: server_of_def heartbeat_monitor_def table_get_map)
qed

lemma register_servers:
  assumes "register_ss t sock nm msg = Some (nm', ok)" and "sid \<noteq> m_ss_id msg"
  shows "server_of nm' sid = server_of nm sid"
proof (cases "nm_ss_list nm' = nm_ss_list nm")
  case True
  then show ?thesis using server_of_same [OF True] by simp
next
  case False
  define x where "x = \<lparr>si_id = m_ss_id msg, si_ip = m_sender msg, si_nm_port = m_nm_port msg,
    si_client_port = m_client_port msg, si_sock = sock, si_hb_sock = - 1, si_active = True, si_last_heartbeat = t,
    si_files = take MAX_FILES (split_commas [] (m_data msg))\<rparr>"
  have list: "nm_ss_list nm' = (case server_slot nm (m_ss_id msg) of Some k \<Rightarrow> (nm_ss_list nm)[k := x] | None \<Rightarrow> nm_ss_list nm @ [x])"
    using assms(1) False
    by (cases "server_slot nm (m_ss_id msg)") (auto simp: register_ss_def Let_def x_def split: if_splits Option.bind_splits)
  have x: "si_id x = m_ss_id msg" by (simp add: x_def)
  show ?thesis
  proof (cases "server_slot nm (m_ss_id msg)")
    case None
    then show ?thesis using table_get_append [of si_id x "nm_ss_list nm"] list x assms(2) by (simp add: server_of_def server_slot_def)
  next
    case (Some k)
    then show ?thesis
      using table_get_update [of si_id "m_ss_id msg" "nm_ss_list nm" k x] list x assms(2) by (simp add: server_of_def server_slot_def)
  qed
qed

lemma client_servers:
  assumes "threads_ok s" and "handle_client_connection env t sock got s = Some (s', out)"
  shows "nm_ss_list (sys_nm s') = nm_ss_list (sys_nm s) \<and> sys_heartbeats s' = sys_heartbeats s"
proof -
  have reach: "nm_reachable (sys_nm s, sys_world s)" using assms(1) by (simp add: threads_ok_def)
  then have files: "files_ok (server_ids (sys_nm s)) (files_of (sys_nm s))" using reachable_ok [OF reach] by (simp add: nm_ok_def)
  have req: "nm_ss_list nm = nm_ss_list (sys_nm s)"
    if "handle_request env (sys_nm s, sys_world s) msg buf = Some (((nm, w), o'), buf')" for msg buf nm w o' buf'
    using request_allowed [OF that files] by (simp add: allowed_step_def)
  have regs: "nm_ss_list (fst (register_user_persistent t nm u c)) = nm_ss_list nm" for nm u c
    by (simp add: register_user_persistent_def split: option.splits)
  have dereg: "nm_ss_list (deregister_active_session t nm u c) = nm_ss_list nm" for nm u c
    by (simp add: deregister_active_session_def split: option.splits)
  have conn: "nm_ss_list nm' = nm_ss_list nm" if "connect_client t nm c msg = Some (nm', r)" for nm c msg nm' r
    using that regs [of nm "m_sender msg" c] dereg by (auto simp: connect_client_def Let_def split: if_splits prod.splits)
  have disc: "nm_ss_list (disconnect_client t nm k c) = nm_ss_list nm" for nm k c
    by (simp add: disconnect_client_def Let_def dereg split: option.splits)
  show ?thesis
    using assms(2) req conn disc
    by (auto simp: handle_client_connection_def split: option.splits Option.bind_splits)
qed

text \<open>
  The server with number \<^verbatim>\<open>sid\<close> is in service: it is active, its last heartbeat came at the time
  \<^verbatim>\<open>beat\<close>, and its only heartbeat connection is \<^verbatim>\<open>hb\<close>.
\<close>

definition in_service :: "int \<Rightarrow> int \<Rightarrow> int \<Rightarrow> 'w name_system \<Rightarrow> bool" where
  "in_service sid hb beat s \<longleftrightarrow>
     (\<exists>x. server_of (sys_nm s) sid = Some x \<and> si_active x \<and> si_last_heartbeat x = beat) \<and>
     sys_heartbeats s hb = Some sid \<and> (\<forall>sock. sock \<noteq> hb \<longrightarrow> sys_heartbeats s sock \<noteq> Some sid)"

text \<open>
  Events in which the connection of the server stays open, no other connection speaks for it,
  and the monitor never looks later than 59 seconds after its last heartbeat.
\<close>

definition from_others :: "int \<Rightarrow> message option \<Rightarrow> bool" where
  "from_others sid got = pred_option (\<lambda>m. m_ss_id m \<noteq> sid) got"

fun steady :: "int \<Rightarrow> int \<Rightarrow> int \<Rightarrow> 'w nm_event list \<Rightarrow> bool" where
  "steady sid hb beat [] = True"
| "steady sid hb beat (Monitor t # evs) = (t - beat < 60 \<and> steady sid hb beat evs)"
| "steady sid hb beat (Server t sock got # evs) = (from_others sid got \<and> steady sid hb beat evs)"
| "steady sid hb beat (Heartbeat t sock got # evs) =
     (if sock = hb
      then (case got of None \<Rightarrow> False
            | Some m \<Rightarrow> steady sid hb (if m_type m = MSG_ACK \<and> m_data m = ''HEARTBEAT'' then t else beat) evs)
      else from_others sid got \<and> steady sid hb beat evs)"
| "steady sid hb beat (ev # evs) = steady sid hb beat evs"

lemma service_heartbeat:
  assumes "in_service sid hb beat s"
  shows "in_service sid hb (if m_type m = MSG_ACK \<and> m_data m = ''HEARTBEAT'' then t else beat) (handle_ss_heartbeat t hb (Some m) s)"
  using assms by (auto simp: in_service_def handle_ss_heartbeat_def heartbeat_servers)

lemma service_other_heartbeat:
  assumes "in_service sid hb beat s" and "sock \<noteq> hb" and "from_others sid got"
  shows "in_service sid hb beat (handle_ss_heartbeat t sock got s)"
proof (cases "sys_heartbeats s sock")
  case None
  then show ?thesis
    using assms by (cases got) (auto simp: in_service_def handle_ss_heartbeat_def heartbeat_servers from_others_def)
next
  case (Some other)
  then have "other \<noteq> sid" using assms(1,2) by (auto simp: in_service_def)
  then show ?thesis
    using assms Some by (cases got) (auto simp: in_service_def handle_ss_heartbeat_def heartbeat_servers)
qed

lemma service_monitor:
  assumes "in_service sid hb beat s" and "t - beat < 60"
  shows "in_service sid hb beat (s\<lparr>sys_nm := heartbeat_monitor t (sys_nm s)\<rparr>)"
  using assms by (auto simp: in_service_def monitor_servers check_heartbeat_def Let_def)

lemma service_register:
  assumes "in_service sid hb beat s" and "from_others sid got" and "handle_ss_connection t sock got s = Some s'"
  shows "in_service sid hb beat s'"
  using assms register_servers
  by (auto simp: in_service_def handle_ss_connection_def from_others_def split: if_splits option.splits Option.bind_splits)

lemma service_same:
  assumes "in_service sid hb beat s" and "nm_ss_list (sys_nm s') = nm_ss_list (sys_nm s)" and "sys_heartbeats s' = sys_heartbeats s"
  shows "in_service sid hb beat s'"
  using assms server_of_same [OF assms(2)] by (simp add: in_service_def)

lemma service_runs:
  "threads_ok s \<Longrightarrow> in_service sid hb beat s \<Longrightarrow> list_all event_ok evs \<Longrightarrow> steady sid hb beat evs \<Longrightarrow>
   run_events env evs s = Some s' \<Longrightarrow> \<exists>beat'. in_service sid hb beat' s'"
proof (induction evs arbitrary: s beat)
  case Nil
  then show ?case by auto
next
  case (Cons ev evs)
  obtain s1 where step: "system_step env ev s = Some s1" and rest: "run_events env evs s1 = Some s'"
    using Cons.prems(5) by (auto split: Option.bind_splits)
  have ok: "threads_ok s1" using threads_ok_step [OF Cons.prems(1) _ step] Cons.prems(3) by simp
  have "\<exists>beat1. in_service sid hb beat1 s1 \<and> steady sid hb beat1 evs"
  proof (cases ev)
    case (Client t sock got)
    then obtain out where "handle_client_connection env t sock got s = Some (s1, out)" using step by (auto simp: system_step_def)
    then show ?thesis using service_same [OF Cons.prems(2)] client_servers [OF Cons.prems(1)] Cons.prems(4) Client by fastforce
  next
    case (Server t sock got)
    then show ?thesis using step Cons.prems service_register by (fastforce simp: system_step_def)
  next
    case (Command_check sock)
    then have "s1 = check_ss_connection sock s" using step by (simp add: system_step_def)
    then have "in_service sid hb beat s1" using Cons.prems(2)
      by (auto simp: in_service_def check_ss_connection_def split: option.splits)
    then show ?thesis using Cons.prems(4) Command_check by auto
  next
    case (Heartbeat t sock got)
    then have s1: "s1 = handle_ss_heartbeat t sock got s" using step by (simp add: system_step_def)
    show ?thesis
    proof (cases "sock = hb")
      case True
      then obtain m where "got = Some m" using Cons.prems(4) Heartbeat by (cases got) auto
      then show ?thesis using service_heartbeat [OF Cons.prems(2)] Cons.prems(4) Heartbeat True s1 by auto
    next
      case False
      then show ?thesis using service_other_heartbeat [OF Cons.prems(2) False] Cons.prems(4) Heartbeat s1 by auto
    qed
  next
    case (Monitor t)
    then show ?thesis using service_monitor [OF Cons.prems(2)] Cons.prems(4) step by (auto simp: system_step_def)
  next
    case (Elsewhere w)
    then show ?thesis using service_same [OF Cons.prems(2), of s1] Cons.prems(4) step by (auto simp: system_step_def)
  qed
  then show ?case using Cons.IH [OF ok _ _ _ rest] Cons.prems(3) by auto
qed

text \<open>
  C11. A storage server whose heartbeats keep coming stays in service, whatever clients and
  other servers do: if its heartbeat connection stays open, no other connection speaks for it,
  and every look of the monitor comes less than 60 seconds after its last heartbeat, it is
  never marked inactive.
\<close>

theorem steady_heartbeats_keep_active:
  assumes "system_reachable s" and "in_service sid hb beat s" and "list_all event_ok evs" and "steady sid hb beat evs"
    and "run_events env evs s = Some s'"
  shows "still_active (sys_nm s') sid"
  using service_runs [OF system_reachable_ok [OF assms(1)] assms(2-5)] by (auto simp: in_service_def still_active_server)

text \<open>A server that registers, opens its heartbeat connection and keeps beating.\<close>

definition served_once :: "unit name_system" where
  "served_once = the (run_events yes_env
     [Server 0 3 (Some (ss_hello 1 [])), Heartbeat 1 7 (Some (heartbeat_message 1 ''HB_INIT''))] start_system)"

lemma run_events_reachable:
  "system_reachable s \<Longrightarrow> list_all event_ok evs \<Longrightarrow> run_events env evs s = Some s' \<Longrightarrow> system_reachable s'"
  by (induction evs arbitrary: s) (auto intro: system_reachable.step split: Option.bind_splits)

lemma example_messages_ok:
  "message_ok (ss_hello 1 [])" "message_ok (heartbeat_message 1 ''HB_INIT'')" "message_ok (heartbeat_message 1 ''HEARTBEAT'')"
  "message_ok (client_hello ''a'')"
  by (simp_all add: message_ok_def ss_hello_def heartbeat_message_def client_hello_def init_message_def int32_def buffer_ok_def)

lemma start_system_reachable: "system_reachable start_system"
  using system_reachable.start [of "()"] by (simp add: start_system_def)

lemma served_once_run:
  "run_events yes_env [Server 0 3 (Some (ss_hello 1 [])), Heartbeat 1 7 (Some (heartbeat_message 1 ''HB_INIT''))] start_system
     = Some served_once"
  "in_service 1 7 1 served_once"
  by (simp_all add: served_once_def system_step_def handle_ss_connection_def handle_ss_heartbeat_def start_system_def
      register_ss_def init_name_server_def ss_hello_def heartbeat_message_def init_message_def Let_def
      heartbeat_connected_def update_server_def server_slot_def in_service_def server_of_def table_get_def)

theorem steady_heartbeats_keep_active_witness:
  "\<exists>s. run_events yes_env [Heartbeat 50 7 (Some (heartbeat_message 1 ''HEARTBEAT'')), Client 55 4 (Some (client_hello ''a'')),
       Monitor 100] served_once = Some s \<and> still_active (sys_nm s) 1"
proof -
  have reach: "system_reachable served_once"
    by (rule run_events_reachable [OF start_system_reachable _ served_once_run(1)]) (simp add: example_messages_ok)
  let ?evs = "[Heartbeat 50 7 (Some (heartbeat_message 1 ''HEARTBEAT'')), Client 55 4 (Some (client_hello ''a'')), Monitor 100]"
  have ok: "list_all event_ok ?evs" by (simp add: example_messages_ok)
  have steady: "steady 1 7 1 ?evs" by (simp add: heartbeat_message_def init_message_def)
  obtain s where run: "run_events yes_env ?evs served_once = Some s"
    by (simp add: served_once_def system_step_def handle_ss_connection_def handle_ss_heartbeat_def start_system_def
      register_ss_def init_name_server_def ss_hello_def heartbeat_message_def init_message_def Let_def
      heartbeat_connected_def update_server_def server_slot_def handle_client_connection_def connect_client_def
      register_user_persistent_def heartbeat_received_def)
  show ?thesis using steady_heartbeats_keep_active [OF reach served_once_run(2) ok steady run] run by blast
qed

end
