(* ===== verification/ThreadFaults.thy ===== *)
theory ThreadFaults
  imports NameThreads
begin

text \<open>
  What the threads of the name server (\<^verbatim>\<open>nm.c\<close>) do wrong: a server that was lost and comes back
  while its old heartbeat thread still lives, and a user whose slot in the list of clients has
  moved before the connection ends.
\<close>

section \<open>Servers that were marked inactive\<close>

definition out_of_service :: "int \<Rightarrow> 'w name_system \<Rightarrow> bool" where
  "out_of_service sid s \<longleftrightarrow> \<not> still_active (sys_nm s) sid"

lemma out_of_service_map:
  "out_of_service sid s \<longleftrightarrow> (\<forall>x. server_of (sys_nm s) sid = Some x \<longrightarrow> \<not> si_active x)"
  by (auto simp: out_of_service_def still_active_server)

lemma out_of_service_same:
  assumes "out_of_service sid s" and "nm_ss_list (sys_nm s') = nm_ss_list (sys_nm s)"
  shows "out_of_service sid s'"
  using assms server_of_same [OF assms(2)] by (simp add: out_of_service_map)

text \<open>No registration in the list is one of the server\<close>

fun not_registered :: "int \<Rightarrow> 'w nm_event list \<Rightarrow> bool" where
  "not_registered sid [] = True"
| "not_registered sid (Server t sock got # evs) = (from_others sid got \<and> not_registered sid evs)"
| "not_registered sid (ev # evs) = not_registered sid evs"

lemma out_of_service_heartbeat:
  "out_of_service sid s \<Longrightarrow> out_of_service sid (handle_ss_heartbeat t sock got s)"
  by (auto simp: out_of_service_map handle_ss_heartbeat_def heartbeat_servers split: option.splits)

lemma out_of_service_monitor:
  "out_of_service sid s \<Longrightarrow> out_of_service sid (s\<lparr>sys_nm := heartbeat_monitor t (sys_nm s)\<rparr>)"
  by (auto simp: out_of_service_map monitor_servers check_heartbeat_def Let_def)

lemma out_of_service_register:
  assumes "out_of_service sid s" and "from_others sid got" and "handle_ss_connection t sock got s = Some s'"
  shows "out_of_service sid s'"
  using assms register_servers
  by (auto simp: out_of_service_map handle_ss_connection_def from_others_def split: if_splits option.splits Option.bind_splits)

lemma out_of_service_runs:
  "threads_ok s \<Longrightarrow> out_of_service sid s \<Longrightarrow> list_all event_ok evs \<Longrightarrow> not_registered sid evs \<Longrightarrow>
   run_events env evs s = Some s' \<Longrightarrow> out_of_service sid s'"
proof (induction evs arbitrary: s)
  case Nil
  then show ?case by simp
next
  case (Cons ev evs)
  obtain s1 where step: "system_step env ev s = Some s1" and rest: "run_events env evs s1 = Some s'"
    using Cons.prems(5) by (auto split: Option.bind_splits)
  have ok: "threads_ok s1" using threads_ok_step [OF Cons.prems(1) _ step] Cons.prems(3) by simp
  have later: "not_registered sid evs" using Cons.prems(4) by (cases ev) simp_all
  have "out_of_service sid s1"
  proof (cases ev)
    case (Client t sock got)
    then obtain out where "handle_client_connection env t sock got s = Some (s1, out)" using step by (auto simp: system_step_def)
    then show ?thesis using out_of_service_same [OF Cons.prems(2)] client_servers [OF Cons.prems(1)] by blast
  next
    case (Server t sock got)
    then show ?thesis using step Cons.prems(2,4) out_of_service_register by (fastforce simp: system_step_def)
  next
    case (Command_check sock)
    then have "sys_nm s1 = sys_nm s" using step by (auto simp: system_step_def check_ss_connection_def split: option.splits)
    then show ?thesis using out_of_service_same [OF Cons.prems(2), of s1] by simp
  next
    case (Heartbeat t sock got)
    then show ?thesis using step out_of_service_heartbeat [OF Cons.prems(2)] by (auto simp: system_step_def)
  next
    case (Monitor t)
    then show ?thesis using step out_of_service_monitor [OF Cons.prems(2)] by (auto simp: system_step_def)
  next
    case (Elsewhere w)
    then show ?thesis using step out_of_service_same [OF Cons.prems(2), of s1] by (auto simp: system_step_def)
  qed
  then show ?case using Cons.IH [OF ok _ _ later rest] Cons.prems(3) by simp
qed

lemma lost_heartbeat_disables:
  assumes "sys_heartbeats s sock = Some sid"
  shows "out_of_service sid (handle_ss_heartbeat t sock None s)"
  using assms by (auto simp: out_of_service_map handle_ss_heartbeat_def heartbeat_servers)

text \<open>
  The end of any heartbeat connection of a storage server takes the server out of service
  for good: also when it is an old connection and the server has registered again and beats on
  a new one, no heartbeat, client or other server brings it back. Only a registration does.
\<close>

theorem old_heartbeat_disables_server:
  assumes "system_reachable s" and "sys_heartbeats s old = Some sid"
    and "list_all event_ok evs" and "not_registered sid evs"
    and "run_events env (Heartbeat t old None # evs) s = Some s'"
  shows "\<not> still_active (sys_nm s') sid"
proof -
  have lost: "system_step env (Heartbeat t old None) s = Some (handle_ss_heartbeat t old None s)" by (simp add: system_step_def)
  have ok: "threads_ok (handle_ss_heartbeat t old None s)"
    using threads_ok_step [OF system_reachable_ok [OF assms(1)] _ lost] by simp
  have "run_events env evs (handle_ss_heartbeat t old None s) = Some s'" using assms(5) lost by simp
  then show ?thesis
    using out_of_service_runs [OF ok lost_heartbeat_disables [OF assms(2)] assms(3,4)] by (simp add: out_of_service_def)
qed

text \<open>The server comes back with sockets 8 and 9 before its old thread notices the end of socket 7.\<close>

definition came_back :: "unit name_system" where
  "came_back = the (run_events yes_env
     [Server 70 8 (Some (ss_hello 1 [])), Heartbeat 71 9 (Some (heartbeat_message 1 ''HB_INIT''))] served_once)"

lemmas server_steps = served_once_def system_step_def handle_ss_connection_def handle_ss_heartbeat_def start_system_def
  register_ss_def init_name_server_def ss_hello_def heartbeat_message_def init_message_def Let_def
  heartbeat_connected_def update_server_def server_slot_def

lemma came_back_run:
  "run_events yes_env [Server 70 8 (Some (ss_hello 1 [])), Heartbeat 71 9 (Some (heartbeat_message 1 ''HB_INIT''))] served_once
     = Some came_back"
  "sys_heartbeats came_back 7 = Some 1" "still_active (sys_nm came_back) 1"
  by (simp_all add: came_back_def server_steps still_active_def)

theorem old_heartbeat_disables_server_witness:
  "\<exists>s. run_events yes_env [Heartbeat 72 7 None, Heartbeat 75 9 (Some (heartbeat_message 1 ''HEARTBEAT''))] came_back = Some s \<and>
     \<not> still_active (sys_nm s) 1"
proof -
  have "system_reachable served_once"
    by (rule run_events_reachable [OF start_system_reachable _ served_once_run(1)]) (simp add: example_messages_ok)
  then have reach: "system_reachable came_back"
    by (rule run_events_reachable [OF _ _ came_back_run(1)]) (simp add: example_messages_ok)
  let ?evs = "[Heartbeat 75 9 (Some (heartbeat_message 1 ''HEARTBEAT''))]"
  obtain s where run: "run_events yes_env (Heartbeat 72 7 None # ?evs) came_back = Some s"
    by (simp add: came_back_def server_steps)
  have "\<not> still_active (sys_nm s) 1"
    by (rule old_heartbeat_disables_server [OF reach came_back_run(2) _ _ run]) (simp_all add: example_messages_ok)
  then show ?thesis using run by blast
qed

section \<open>Slots that moved\<close>

lemma disconnect_session:
  assumes "ci_username (nm_clients nm ! k) \<noteq> u"
  shows "session_of (disconnect_client t nm k sock) u = session_of nm u"
proof -
  obtain nm1 where d: "disconnect_client t nm k sock = deregister_active_session t nm1 (ci_username (nm_clients nm ! k)) sock"
    "nm_users nm1 = nm_users nm"
    by (auto simp: disconnect_client_def Let_def split: option.splits)
  show ?thesis using assms unfolding d(1) logins.logout_law session_of_users [OF d(2)] by simp
qed

text \<open>
  C21. A user whose slot has moved is not logged out. The end of a connection reads the user from
  the slot the connection began with; when entries before it have left and another name stands
  there, the session stays open although no connection of the user is left, and the user is
  refused as logged in from another session.
\<close>

theorem moved_slot_locks_user_out:
  assumes "system_reachable s" and "sys_clients s a = Some ct"
    and "ci_username (nm_clients (sys_nm s) ! ct_slot ct) \<noteq> ct_user ct"
  shows "\<exists>s'. handle_client_connection env t a None s = Some (s', None) \<and>
    (\<forall>b ct'. sys_clients s' b = Some ct' \<longrightarrow> ct_user ct' \<noteq> ct_user ct) \<and>
    (\<forall>b t' msg. sys_clients s' b = None \<and> m_type msg = MSG_REG_CLIENT \<and> m_sender msg = ct_user ct \<longrightarrow>
       handle_client_connection env t' b (Some msg) s' =
         Some (s', Some ((answer ERR_INVALID_OPERATION)\<lparr>m_data := ''User already logged in from another session''\<rparr>)))"
proof -
  have reg: "logins.registered (sys_nm s) (users_served s)"
    using system_reachable_ok [OF assms(1)] by (simp add: threads_ok_def)
  have a: "users_served s a = Some (ct_user ct)" using assms(2) by (simp add: users_served_def)
  define s' where "s' = s\<lparr>sys_nm := disconnect_client t (sys_nm s) (ct_slot ct) a, sys_clients := (sys_clients s)(a := None)\<rparr>"
  have "session_of (sys_nm s') (ct_user ct) = session_of (sys_nm s) (ct_user ct)"
    using disconnect_session [OF assms(3)] by (simp add: s'_def)
  then have open_session: "session_of (sys_nm s') (ct_user ct) \<noteq> None" using reg a by (simp add: logins.registered_def)
  have "handle_client_connection env t a None s = Some (s', None)"
    using assms(2) by (simp add: handle_client_connection_def s'_def)
  moreover have "\<forall>b ct'. sys_clients s' b = Some ct' \<longrightarrow> ct_user ct' \<noteq> ct_user ct"
    using logins.registered_unique [OF reg _ a] by (auto simp: s'_def users_served_def)
  moreover have "\<forall>b t' msg. sys_clients s' b = None \<and> m_type msg = MSG_REG_CLIENT \<and> m_sender msg = ct_user ct \<longrightarrow>
       handle_client_connection env t' b (Some msg) s' =
         Some (s', Some ((answer ERR_INVALID_OPERATION)\<lparr>m_data := ''User already logged in from another session''\<rparr>))"
    using second_login_refused [of s'] open_session by auto
  ultimately show ?thesis by blast
qed

text \<open>Three users connect and the first leaves.\<close>

definition three_logins :: "unit nm_event list" where
  "three_logins = [Client 0 4 (Some (client_hello ''a'')), Client 0 5 (Some (client_hello ''b'')),
     Client 0 6 (Some (client_hello ''c'')), Client 0 4 None]"

definition two_left :: "unit name_system" where
  "two_left = the (run_events yes_env three_logins start_system)"

lemma init_fields:
  "nm_users init_name_server = []" "nm_client_count init_name_server = 0"
  "\<exists>rest. nm_clients init_name_server = blank_client # blank_client # blank_client # rest"
  by (simp_all add: init_name_server_def numeral_eq_Suc)

lemma two_left_run:
  "run_events yes_env three_logins start_system = Some two_left \<and>
   sys_clients two_left 5 = Some \<lparr>ct_user = ''b'', ct_slot = 1, ct_response = answer SUCCESS\<rparr> \<and>
   ci_username (nm_clients (sys_nm two_left) ! 1) = ''c''"
proof -
  obtain rest where rest: "nm_clients init_name_server = blank_client # blank_client # blank_client # rest"
    using init_fields(3) by blast
  show ?thesis
    by (simp add: two_left_def three_logins_def start_system_def system_step_def handle_client_connection_def connect_client_def
        register_user_persistent_def init_fields(1,2) rest Let_def disconnect_client_def shift_down_def deregister_active_session_def)
qed

theorem moved_slot_locks_user_out_witness:
  "\<exists>s'. handle_client_connection yes_env 1 5 None two_left = Some (s', None) \<and>
    (\<forall>b t msg. sys_clients s' b = None \<and> m_type msg = MSG_REG_CLIENT \<and> m_sender msg = ''b'' \<longrightarrow>
       handle_client_connection yes_env t b (Some msg) s' =
         Some (s', Some ((answer ERR_INVALID_OPERATION)\<lparr>m_data := ''User already logged in from another session''\<rparr>)))"
proof -
  have "list_all event_ok three_logins"
    by (simp add: three_logins_def message_ok_def client_hello_def init_message_def int32_def buffer_ok_def)
  then have reach: "system_reachable two_left"
    using run_events_reachable [OF start_system_reachable] two_left_run by blast
  show ?thesis
    using moved_slot_locks_user_out [OF reach, of 5 "\<lparr>ct_user = ''b'', ct_slot = 1, ct_response = answer SUCCESS\<rparr>" yes_env 1]
      two_left_run by auto
qed

end
