(* ===== verification/ServerStart.thy ===== *)
theory ServerStart
  imports NameThreads System
begin

text \<open>
  The start of a storage server seen from both sides: \<^verbatim>\<open>main\<close> of \<^verbatim>\<open>ss.c\<close> sends the names of the
  files on its disk and the first heartbeat, \<^verbatim>\<open>handle_ss_connection\<close> and \<^verbatim>\<open>handle_ss_heartbeat\<close> of
  \<^verbatim>\<open>nm.c\<close> take them in.
\<close>

section \<open>The list of names\<close>

text \<open>
  What any system promises of the names in a directory; the names that the list and the trie carry,
  which are those of ASCII characters without a comma.
\<close>

definition dir_entry :: "string \<Rightarrow> bool" where
  "dir_entry n \<longleftrightarrow> n \<noteq> [] \<and> NUL \<notin> set n \<and> length n < MAX_FILENAME"

definition listed_name :: "string \<Rightarrow> bool" where
  "listed_name n \<longleftrightarrow> CHR '','' \<notin> set n \<and> ascii_name n"

lemma split_commas_append: "split_commas acc (n @ CHR '','' # rest) = split_commas acc n @ split_commas [] rest"
  by (induction n arbitrary: acc) auto

lemma split_commas_name: "CHR '','' \<notin> set n \<Longrightarrow> acc @ n \<noteq> [] \<Longrightarrow> split_commas acc n = [acc @ n]"
  by (induction n arbitrary: acc) auto

lemma split_commas_count: "length (split_commas acc s) \<le> length s + 1"
  by (induction acc s rule: split_commas.induct) auto

lemma split_commas_shorter: "x \<in> set (split_commas acc s) \<Longrightarrow> length x \<le> length acc + length s"
proof (induction acc s rule: split_commas.induct)
  case (2 token c cs)
  then show ?case by (fastforce split: if_splits)
qed (simp split: if_splits)

text \<open>The pieces that are read back from the list are the pieces of the names that were put in.\<close>

lemma split_join_names: "split_commas [] (join_names ns) = concat (map (split_commas []) ns)"
  by (induction ns rule: join_names.induct) (simp_all add: split_commas_append)

lemma listed_pieces: "n \<in> set ns \<Longrightarrow> listed_name n \<Longrightarrow> n \<noteq> [] \<Longrightarrow> n \<in> set (split_commas [] (join_names ns))"
  using split_commas_name [of n "[]"] by (auto simp: split_join_names listed_name_def intro!: bexI [of _ n])

lemma pieces_short: "list_all dir_entry ns \<Longrightarrow> list_all (\<lambda>n. length n < MAX_FILENAME) (split_commas [] (join_names ns))"
  by (fastforce simp: split_join_names list_all_iff dir_entry_def dest: split_commas_shorter)

lemma join_names_set: "set (join_names ns) \<subseteq> insert (CHR '','') (\<Union> (set ` set ns))"
  by (induction ns rule: join_names.induct) auto

text \<open>A name that the trie rejects leaves all searches as they are.\<close>

lemma register_one:
  assumes "length n < MAX_FILENAME"
  shows "\<exists>files'. register_file t i files n = Some files' \<and> (ascii_name n \<longrightarrow> (\<exists>m. trie_search files' n = Some m \<and> fm_ss_id m = i)) \<and>
    (\<forall>p. p \<noteq> n \<longrightarrow> trie_search files' p = trie_search files p)"
  using assms by (cases "trie_search files n") (auto simp: register_file_def file_trie.update_fun file_trie.insert_fun)

lemma registered_files:
  "list_all (\<lambda>n. length n < MAX_FILENAME) ns \<Longrightarrow>
   \<exists>files'. register_files t i files ns = Some files' \<and>
     (\<forall>n. ascii_name n \<and> (n \<in> set ns \<or> (\<exists>m. trie_search files n = Some m \<and> fm_ss_id m = i)) \<longrightarrow>
       (\<exists>m. trie_search files' n = Some m \<and> fm_ss_id m = i))"
proof (induction ns arbitrary: files)
  case Nil
  then show ?case by simp
next
  case (Cons n ns)
  obtain files1 where one: "register_file t i files n = Some files1"
    "ascii_name n \<longrightarrow> (\<exists>m. trie_search files1 n = Some m \<and> fm_ss_id m = i)"
    "\<forall>p. p \<noteq> n \<longrightarrow> trie_search files1 p = trie_search files p"
    using register_one [of n t i files] Cons.prems by auto
  obtain files' where rest: "register_files t i files1 ns = Some files'"
    "\<forall>p. ascii_name p \<and> (p \<in> set ns \<or> (\<exists>m. trie_search files1 p = Some m \<and> fm_ss_id m = i)) \<longrightarrow>
      (\<exists>m. trie_search files' p = Some m \<and> fm_ss_id m = i)"
    using Cons.IH [of files1] Cons.prems by auto
  have "\<forall>p. ascii_name p \<and> (p \<in> set (n # ns) \<or> (\<exists>m. trie_search files p = Some m \<and> fm_ss_id m = i)) \<longrightarrow>
      (\<exists>m. trie_search files' p = Some m \<and> fm_ss_id m = i)"
  proof (intro allI impI)
    fix p
    assume "ascii_name p \<and> (p \<in> set (n # ns) \<or> (\<exists>m. trie_search files p = Some m \<and> fm_ss_id m = i))"
    then have "ascii_name p \<and> (p \<in> set ns \<or> (\<exists>m. trie_search files1 p = Some m \<and> fm_ss_id m = i))"
      using one(2,3) by (cases "p = n") auto
    then show "\<exists>m. trie_search files' p = Some m \<and> fm_ss_id m = i" using rest(2) by blast
  qed
  then show ?case using one(1) rest(1) by auto
qed

section \<open>Registration\<close>

text \<open>
  What the registration of a started server looks like, for the names of its directory and an
  address of its interfaces.
\<close>

lemma start_registration:
  assumes "start_storage_server fs k e ifaddrs sockets listening argv = Some (Inr (p, [reg]))"
  obtains nm_port port ip entries where "reg = init_message\<lparr>m_type := MSG_REG_SS, m_ss_id := atoi (argv ! 4), m_sender := ip, m_client_port := port, m_nm_port := nm_port,
       m_data := join_names (registered_names (proc_server p) entries)\<rparr>"
    and "readdir k (ss_path (proc_server p)) = Some entries" and "length (join_names (registered_names (proc_server p) entries)) < MAX_BUFFER"
    and "port_ok nm_port" and "port_ok port" and "ip = fst (get_system_ip ifaddrs INET_ADDRSTRLEN [])"
    and "proc_server p = init_storage_server fs (atoi (argv ! 4))" and "proc_running p"
proof -
  obtain nm_ip nm_port port i where args: "server_arguments argv = Inr (nm_ip, nm_port, port, i)"
    using assms by (auto simp: start_storage_server_def split: sum.splits)
  then have ports: "port_ok nm_port" "port_ok port" "i = atoi (argv ! 4)"
    by (auto simp: server_arguments_def Let_def split: if_splits)
  have id: "ss_id (init_storage_server fs i) = i" by (simp add: init_storage_server_def fresh_server_def Let_def)
  obtain ip found where ip: "get_system_ip ifaddrs INET_ADDRSTRLEN [] = (ip, found)" by (cases "get_system_ip ifaddrs INET_ADDRSTRLEN []")
  define ss where "ss = init_storage_server fs i"
  have scan: "scan_and_register_files k ss ip port nm_port = Some [reg]" and p: "proc_server p = ss" "proc_running p"
    using assms args ip by (auto simp: start_storage_server_def Let_def ss_def split: option.splits)
  then obtain entries where "readdir k (ss_path ss) = Some entries" "length (join_names (registered_names ss entries)) < MAX_BUFFER"
    "reg = init_message\<lparr>m_type := MSG_REG_SS, m_ss_id := i, m_sender := ip, m_client_port := port, m_nm_port := nm_port,
       m_data := join_names (registered_names ss entries)\<rparr>"
    using id by (auto simp: scan_and_register_files_def Let_def ss_def split: option.splits if_splits)
  note found = this
  show thesis
    by (rule that [where ip = ip and port = port and nm_port = nm_port and entries = entries])
      (use found ports p ip in \<open>simp_all add: ss_def\<close>)
qed

text \<open>What the system promises of the addresses of its interfaces.\<close>

definition addresses_ok :: "string option list option \<Rightarrow> bool" where
  "addresses_ok ifaddrs \<longleftrightarrow> pred_option (list_all (pred_option (\<lambda>ip. NUL \<notin> set ip \<and> BAR \<notin> set ip))) ifaddrs"

lemma system_ip_ok:
  assumes "addresses_ok ifaddrs"
  shows "name_ok 16 (fst (get_system_ip ifaddrs INET_ADDRSTRLEN []))"
proof -
  have copy: "name_ok 16 (c_copy 16 ip)" if "NUL \<notin> set ip" "BAR \<notin> set ip" for ip
    using that set_take_subset [of 15 ip] by (auto simp: name_ok_def c_copy_def)
  show ?thesis
  proof (cases ifaddrs)
    case None
    then show ?thesis by (simp add: get_system_ip_def name_ok_def)
  next
    case (Some entries)
    show ?thesis
    proof (cases "find (\<lambda>e. e \<noteq> None \<and> e \<noteq> Some ''127.0.0.1'') entries")
      case None
      then show ?thesis using Some copy [of "''127.0.0.1''"] by (simp add: get_system_ip_def)
    next
      case found: (Some a)
      then have "a \<in> set entries" "a \<noteq> None" unfolding find_Some_iff by (metis nth_mem)+
      then obtain ip where a: "a = Some ip" "Some ip \<in> set entries" by auto
      then have "NUL \<notin> set ip \<and> BAR \<notin> set ip" using assms Some by (auto simp: addresses_ok_def list_all_iff)
      then show ?thesis using Some found a copy [of ip] by (simp add: get_system_ip_def)
    qed
  qed
qed

lemma registration_wire:
  assumes "name_ok 16 ip" and "port_ok nm_port" and "port_ok port" and "length data < MAX_BUFFER" and "NUL \<notin> set data" and "int32 i"
    and "reg = init_message\<lparr>m_type := MSG_REG_SS, m_ss_id := i, m_sender := ip, m_client_port := port, m_nm_port := nm_port, m_data := data\<rparr>"
  shows "wire reg = reg \<and> message_ok reg"
proof -
  have "message_ok reg" "bar_free reg" "length (m_target_path reg) < MAX_FILENAME"
    using assms by (auto simp: message_ok_def bar_free_def init_message_def int32_def buffer_ok_def name_ok_def port_ok_def)
  then show ?thesis using wire_id by blast
qed

lemma register_listed:
  assumes "m_type msg = MSG_REG_SS" and "server_slot nm (m_ss_id msg) \<noteq> None \<or> length (nm_ss_list nm) < MAX_SS"
    and "length (m_sender msg) < INET_ADDRSTRLEN" and "m_data msg = join_names ns" and "list_all dir_entry ns" and "length (join_names ns) < MAX_BUFFER"
  shows "\<exists>nm'. register_ss t sock nm msg = Some (nm', True) \<and>
    (\<exists>x. server_of nm' (m_ss_id msg) = Some x \<and> si_active x) \<and>
    (\<forall>n \<in> set ns. listed_name n \<longrightarrow> (\<exists>m. files_of nm' n = Some m \<and> fm_ss_id m = m_ss_id msg))"
proof -
  define tokens where "tokens = split_commas [] (join_names ns)"
  have names: "take MAX_FILES (split_commas [] (m_data msg)) = tokens"
    using split_commas_count [of "[]" "join_names ns"] assms(4,6) by (simp add: tokens_def)
  obtain files where files: "register_files t (m_ss_id msg) (nm_files nm) tokens = Some files"
    "\<forall>n. ascii_name n \<and> n \<in> set tokens \<longrightarrow> (\<exists>m. trie_search files n = Some m \<and> fm_ss_id m = m_ss_id msg)"
    using registered_files [OF pieces_short [OF assms(5)], of t "m_ss_id msg" "nm_files nm"] by (auto simp: tokens_def)
  have listed: "\<forall>n \<in> set ns. listed_name n \<longrightarrow> (\<exists>m. trie_search files n = Some m \<and> fm_ss_id m = m_ss_id msg)"
    using files(2) listed_pieces [of _ ns] assms(5) by (auto simp: tokens_def listed_name_def list_all_iff dir_entry_def)
  define x where "x = \<lparr>si_id = m_ss_id msg, si_ip = m_sender msg, si_nm_port = m_nm_port msg,
    si_client_port = m_client_port msg, si_sock = sock, si_hb_sock = - 1, si_active = True, si_last_heartbeat = t, si_files = tokens\<rparr>"
  define servers where "servers = (case server_slot nm (m_ss_id msg) of Some k \<Rightarrow> (nm_ss_list nm)[k := x] | None \<Rightarrow> nm_ss_list nm @ [x])"
  have "register_ss t sock nm msg = Some (nm\<lparr>nm_files := files, nm_ss_list := servers\<rparr>, True)"
    using assms(1-3) files(1) unfolding register_ss_def Let_def names x_def servers_def by auto
  moreover have "table_get si_id servers (m_ss_id msg) = Some x"
  proof (cases "server_slot nm (m_ss_id msg)")
    case None
    then show ?thesis
      using table_get_append [of si_id x "nm_ss_list nm"] by (simp add: servers_def server_slot_def x_def)
  next
    case (Some i)
    then show ?thesis
      using table_get_update [of si_id "m_ss_id msg" "nm_ss_list nm" i x] by (simp add: servers_def server_slot_def x_def)
  qed
  ultimately show ?thesis using listed by (auto simp: server_of_def x_def)
qed

text \<open>
  C5. A storage server that starts comes into service. No heartbeat connection is open under its number. Its registration is
  accepted if the table of servers has room for it, whatever the names in its directory are. Of the regular files there, except
  undo backups, each whose name is ASCII and has no comma is then in the name
  server's table as a file of this server, and with its first heartbeat message the server is
  active under its number.
\<close>

theorem started_server_in_service:
  assumes "start_storage_server fs k e ifaddrs sockets listening argv = Some (Inr (p, [reg]))"
    and "addresses_ok ifaddrs" and "readdir k (ss_path (proc_server p)) = Some entries" and "list_all dir_entry entries"
    and "server_slot (sys_nm s) (atoi (argv ! 4)) \<noteq> None \<or> length (nm_ss_list (sys_nm s)) < MAX_SS"
    and "sys_commands s sock = None" and "sys_heartbeats s hb = None" and "\<And>h. sys_heartbeats s h \<noteq> Some (atoi (argv ! 4))"
  shows "\<exists>s'. run_events env [Server t sock (Some (wire reg)), Heartbeat t' hb (Some (wire (heartbeat_message (atoi (argv ! 4)) ''HB_INIT'')))] s
      = Some s' \<and>
    in_service (atoi (argv ! 4)) hb t' s' \<and>
    (\<forall>n \<in> set (registered_names (proc_server p) entries). listed_name n \<longrightarrow>
      (\<exists>m. files_of (sys_nm s') n = Some m \<and> fm_ss_id m = atoi (argv ! 4)))"
proof -
  define i where "i = atoi (argv ! 4)"
  define ns where "ns = registered_names (proc_server p) entries"
  have i: "int32 i" by (simp add: i_def)
  obtain nm_port port ip where reg: "reg = init_message\<lparr>m_type := MSG_REG_SS, m_ss_id := i, m_sender := ip, m_client_port := port,
      m_nm_port := nm_port, m_data := join_names ns\<rparr>" "length (join_names ns) < MAX_BUFFER" "port_ok nm_port" "port_ok port"
    "name_ok 16 ip"
    using start_registration [OF assms(1)] assms(3) system_ip_ok [OF assms(2)] unfolding i_def ns_def by (metis option.inject)
  have ns: "list_all dir_entry ns" using assms(4) by (auto simp: ns_def registered_names_def list_all_iff)
  then have "NUL \<notin> set (join_names ns)" using join_names_set [of ns] by (auto simp: list_all_iff dir_entry_def)
  then have wire: "wire reg = reg" using registration_wire [OF reg(5,3,4,2) _ _ reg(1)] by (simp add: i_def)
  have fields: "m_type reg = MSG_REG_SS" "m_ss_id reg = i" "m_sender reg = ip" "m_data reg = join_names ns" by (simp_all add: reg(1))
  obtain nm x where nm: "register_ss t sock (sys_nm s) reg = Some (nm, True)" "server_of nm i = Some x" "si_active x"
    "\<forall>n \<in> set ns. listed_name n \<longrightarrow> (\<exists>m. files_of nm n = Some m \<and> fm_ss_id m = i)"
    using register_listed [OF fields(1) _ _ fields(4) ns reg(2), of "sys_nm s" t sock] assms(5) reg(5)
    unfolding fields i_def name_ok_def by auto
  define s1 where "s1 = s\<lparr>sys_nm := nm, sys_commands := (sys_commands s)(sock \<mapsto> i)\<rparr>"
  have one: "system_step env (Server t sock (Some (wire reg))) s = Some s1"
    using assms(6) nm(1) fields(2) by (simp add: system_step_def handle_ss_connection_def wire s1_def)
  have hb: "wire (heartbeat_message i ''HB_INIT'') = heartbeat_message i ''HB_INIT''"
    by (rule wire_id) (use i in \<open>simp_all add: heartbeat_message_def message_ok_def bar_free_def init_message_def int32_def buffer_ok_def\<close>)
  define s2 where "s2 = s1\<lparr>sys_nm := heartbeat_connected t' hb nm i, sys_heartbeats := (sys_heartbeats s)(hb \<mapsto> i)\<rparr>"
  have two: "system_step env (Heartbeat t' hb (Some (wire (heartbeat_message i ''HB_INIT'')))) s1 = Some s2"
    using assms(7) unfolding hb by (simp add: system_step_def handle_ss_heartbeat_def heartbeat_message_def s1_def s2_def)
  have "in_service i hb t' s2"
    using nm(2,3) assms(8) by (auto simp: in_service_def s2_def heartbeat_servers i_def)
  moreover have "files_of (sys_nm s2) = files_of nm"
    by (simp add: s2_def heartbeat_connected_def update_server_def split: option.splits)
  ultimately show ?thesis using one two nm(4) unfolding i_def [symmetric] ns_def [symmetric] by simp
qed

text \<open>A server with the number 1 starts on a directory with a file, a file whose name has a comma, and an undo backup.\<close>

definition example_disk :: file_system where
  "example_disk = \<lparr>contents = [''./ss_storage_1/f'' \<mapsto> ''One.'', ''./ss_storage_1/a,b'' \<mapsto> ''Two.'', ''./ss_storage_1/f.undo'' \<mapsto> []], dirs = (\<lambda>p. p = ''.'' \<or> p = ''./ss_storage_1''), permitted = (\<lambda>p. True)\<rparr>"

definition listing_kernel :: kernel where
  "listing_kernel = \<lparr>now = 0, stat_times = (\<lambda>p. (0, 0)), readdir = (\<lambda>p. Some [''.'', ''..'', ''f'', ''a,b'', ''f.undo''])\<rparr>"

definition example_argv :: "string list" where
  "example_argv = [''ss'', ''10.0.0.1'', ''8080'', ''9001'', ''1'']"

definition example_addresses :: "string option list option" where
  "example_addresses = Some [None, Some ''127.0.0.1'', Some ''10.0.0.5'']"

definition example_registration :: message where
  "example_registration = init_message\<lparr>m_type := MSG_REG_SS, m_ss_id := 1, m_sender := ''10.0.0.5'', m_client_port := 9001,
     m_nm_port := 8080, m_data := ''f,a,b''\<rparr>"

lemma example_numbers: "atoi ''8080'' = 8080" "atoi ''9001'' = 9001" "atoi ''1'' = 1" "show_int 1 = ''1''"
  by code_simp+

definition example_storage :: storage_server where
  "example_storage = init_storage_server example_disk 1"

lemma example_storage_fields:
  "ss_path example_storage = ''./ss_storage_1''" "ss_disk example_storage = example_disk" "ss_id example_storage = 1"
  by (simp_all add: example_storage_def init_storage_server_def fresh_server_def example_numbers c_copy_def fs_exists_def
      example_disk_def Let_def)

lemma example_names: "registered_names example_storage [''.'', ''..'', ''f'', ''a,b'', ''f.undo''] = [''f'', ''a,b'']"
  by (simp add: registered_names_def file_path_def example_storage_fields c_copy_def) (simp add: example_disk_def)

lemma example_start:
  "start_storage_server example_disk listing_kernel Other_errno example_addresses (True, True) (\<lambda>a. True) example_argv =
     Some (Inr (\<lparr>proc_server = example_storage, proc_running = True, proc_errno = Other_errno\<rparr>, [example_registration]))"
proof -
  have "server_arguments example_argv = Inr (''10.0.0.1'', 8080, 9001, 1)"
    by (simp add: server_arguments_def example_argv_def example_numbers port_ok_def Let_def)
  moreover have "get_system_ip example_addresses INET_ADDRSTRLEN [] = (''10.0.0.5'', 0)"
    by (simp add: get_system_ip_def example_addresses_def c_copy_def)
  moreover have "scan_and_register_files listing_kernel example_storage ''10.0.0.5'' 9001 8080 = Some [example_registration]"
    using example_names
    by (simp add: scan_and_register_files_def listing_kernel_def example_storage_fields Let_def example_registration_def)
  ultimately show ?thesis by (simp add: start_storage_server_def ss_connect_to_nm_def example_storage_def)
qed

theorem started_server_in_service_witness:
  "\<exists>s'. run_events yes_env [Server 0 3 (Some (wire example_registration)), Heartbeat 1 7 (Some (wire (heartbeat_message 1 ''HB_INIT'')))]
      start_system = Some s' \<and> in_service 1 7 1 s' \<and> (\<exists>m. files_of (sys_nm s') ''f'' = Some m \<and> fm_ss_id m = 1)"
proof -
  have one: "atoi (example_argv ! 4) = 1" by (simp add: example_argv_def example_numbers)
  have "list_all dir_entry [''.'', ''..'', ''f'', ''a,b'', ''f.undo'']"
    by (simp add: dir_entry_def)
  moreover have listed: "listed_name ''f''" by (simp add: listed_name_def ascii_name_def char_index_def)
  moreover have "addresses_ok example_addresses" by (simp add: addresses_ok_def example_addresses_def)
  moreover have "nm_ss_list (sys_nm start_system) = []" by (simp add: start_system_def init_name_server_def)
  moreover have "set (registered_names example_storage [''.'', ''..'', ''f'', ''a,b'', ''f.undo'']) = {''f'', ''a,b''}"
    by (simp add: example_names)
  ultimately obtain s' where "run_events yes_env [Server 0 3 (Some (wire example_registration)), Heartbeat 1 7 (Some (wire (heartbeat_message 1 ''HB_INIT'')))]
      start_system = Some s'" "in_service 1 7 1 s'"
    "\<forall>n \<in> {''f'', ''a,b''}. listed_name n \<longrightarrow> (\<exists>m. files_of (sys_nm s') n = Some m \<and> fm_ss_id m = 1)"
    using started_server_in_service [OF example_start, of "[''.'', ''..'', ''f'', ''a,b'', ''f.undo'']" start_system 3 7 yes_env 0 1]
    unfolding one by (simp add: listing_kernel_def start_system_def del: run_events.simps) blast
  then show ?thesis using listed by blast
qed

end
