(* ===== verification/StreamRead.thy ===== *)
theory StreamRead
  imports ClientEdit TextSentences
begin

text \<open>
  Reading and streaming: what a user sees of a file through \<^verbatim>\<open>READ\<close>, one message with the start
  of the file, and through \<^verbatim>\<open>STREAM\<close>, one message for each token of the parsed file.
\<close>

section \<open>Tokens of a file\<close>

lemma lex_count: "length (lex s w) \<le> length s + length w"
proof (induction s w rule: lex.induct)
  case (2 c cs word)
  have "length (dropWhile is_space_char cs) \<le> length cs" by (rule length_dropWhile_le)
  moreover have "length (flush_word word []) \<le> length word" by (cases word) (simp_all add: flush_word_def)
  ultimately show ?case using 2 by (auto simp del: take_Suc_Cons)
qed (auto simp: flush_word_def Suc_le_eq)

lemma lexemes_tokens: "lexemes ts \<Longrightarrow> t \<in> set ts \<Longrightarrow> lexeme t"
  by (induction ts rule: lexemes.induct) (auto simp: lexemes_Cons)

lemma lexeme_short:
  assumes "lexeme t"
  shows "length t \<le> 127"
  using assms by (cases rule: lexeme_cases) (auto simp: is_delim_token_def is_newline_token_def split: list.splits)

lemma parse_concat: "concat (parse_file s) = lex s []"
  by (simp add: parse_file_lex concat_group)

lemma nul_visible: "NUL \<in> set t \<longleftrightarrow> NUL \<in> set (filter visible t)"
  by (auto simp: visible_def is_space_char_def)

lemma parse_token_ok:
  assumes "NUL \<notin> set s" and "x \<in> set (parse_file s)"
  shows "list_all (buffer_ok MAX_BUFFER) x"
proof -
  have "buffer_ok MAX_BUFFER t" if "t \<in> set x" for t
  proof -
    have t: "t \<in> set (lex s [])" using that assms(2) by (auto simp: parse_concat [symmetric])
    have "lexemes (lex s [])" using lex_lexemes [of "[]" s] assms(1) by simp
    then have "length t \<le> 127" using lexemes_tokens t lexeme_short by blast
    moreover have "NUL \<notin> set (concat (lex s []))"
      using nul_visible [of "concat (lex s [])"] nul_visible [of s] lex_visible0 [OF assms(1)] assms(1) by metis
    then have "NUL \<notin> set t" using t by auto
    ultimately show ?thesis by (simp add: buffer_ok_def)
  qed
  then show ?thesis by (simp add: list_all_iff)
qed

lemma length_le_concat: "x \<in> set xs \<Longrightarrow> length x \<le> length (concat xs)"
  by (induction xs) auto

lemma parse_counts:
  "length (parse_file s) \<le> length s + 1" "x \<in> set (parse_file s) \<Longrightarrow> length x \<le> length s"
proof -
  have "length (delims s) \<le> length s" by (simp add: delims_def)
  then show "length (parse_file s) \<le> length s + 1" by (simp add: parse_length)
  assume "x \<in> set (parse_file s)"
  then have "length x \<le> length (concat (parse_file s))" by (rule length_le_concat)
  then show "length x \<le> length s" using lex_count [of s "[]"] by (simp add: parse_concat)
qed

section \<open>The messages of a stream\<close>

definition data_message :: "message \<Rightarrow> bool" where
  "data_message m \<longleftrightarrow> m_type m = MSG_DATA \<and> wire_stable m"

lemma stream_words_messages:
  "list_all (buffer_ok MAX_BUFFER) ws \<Longrightarrow> data_message msg \<Longrightarrow> int i < 2 ^ 31 \<Longrightarrow> int j + int (length ws) \<le> 2 ^ 31 \<Longrightarrow>
   stream_words i b j ws msg = (ms, final) \<Longrightarrow>
   list_all data_message ms \<and> data_message final \<and> filter visible (concat (map stream_token ms)) = filter visible (concat ws)"
proof (induction ws arbitrary: j msg ms final)
  case Nil
  then show ?case by simp
next
  case (Cons w ws)
  define space where "space = (case ws of v # _ \<Rightarrow> \<not> starts_delim w \<and> \<not> starts_delim v | [] \<Rightarrow> b)"
  define msg' where "msg' = msg\<lparr>m_data := c_copy MAX_BUFFER w, m_status := (if space then 1 else 0),
    m_sentence_index := int i, m_word_index := int j\<rparr>"
  obtain rest where rest: "stream_words i b (j + 1) ws msg' = (rest, final)" "ms = msg' # rest"
    using Cons.prems(5) unfolding stream_words.simps Let_def space_def [symmetric] msg'_def [symmetric] by (auto split: prod.splits)
  have w: "length w < MAX_BUFFER" "NUL \<notin> set w" using Cons.prems(1) by (simp_all add: buffer_ok_def)
  have ok: "data_message msg'"
    using Cons.prems(2-4) w by (simp add: data_message_def wire_stable_def msg'_def message_ok_def bar_free_def int32_def buffer_ok_def c_copy_fits)
  have "stream_token msg' = w @ (if space then [SPACE] else [])"
    using w(1) by (simp add: stream_token_def msg'_def c_copy_fits)
  moreover have "\<not> visible SPACE" by (simp add: visible_def is_space_char_def)
  ultimately have "filter visible (stream_token msg') = filter visible w" by simp
  then show ?case using Cons.IH [OF _ ok _ _ rest(1)] Cons.prems(1,3,4) rest(2) ok by simp
qed

lemma stream_sentences_messages:
  "list_all (list_all (buffer_ok MAX_BUFFER)) ss \<Longrightarrow> data_message msg \<Longrightarrow> int i + int (length ss) \<le> 2 ^ 31 \<Longrightarrow>
   (\<And>x. x \<in> set ss \<Longrightarrow> int (length x) \<le> 2 ^ 31) \<Longrightarrow> stream_sentences i ss msg = (ms, final) \<Longrightarrow>
   list_all data_message ms \<and> data_message final \<and> filter visible (concat (map stream_token ms)) = filter visible (concat (concat ss))"
proof (induction ss arbitrary: i msg ms final)
  case Nil
  then show ?case by simp
next
  case (Cons s ss)
  obtain sent msg' where sent: "stream_words i (ss \<noteq> []) 0 s msg = (sent, msg')" by fastforce
  obtain rest where rest: "stream_sentences (i + 1) ss msg' = (rest, final)" "ms = sent @ rest"
    using Cons.prems(5) sent by (auto split: prod.splits)
  have len: "int (length s) \<le> 2 ^ 31" using Cons.prems(4) by simp
  have one: "list_all data_message sent \<and> data_message msg' \<and> filter visible (concat (map stream_token sent)) = filter visible (concat s)"
    by (rule stream_words_messages [OF _ Cons.prems(2) _ _ sent]) (use Cons.prems(1,3) len in auto)
  have "list_all data_message rest \<and> data_message final \<and> filter visible (concat (map stream_token rest)) = filter visible (concat (concat ss))"
    using Cons.IH [OF _ _ _ _ rest(1)] Cons.prems(1,3,4) one by simp
  then show ?case using one rest(2) by simp
qed

section \<open>What the user sees\<close>

text \<open>The answer of the storage server to a request that changes nothing there.\<close>

lemma nothing_served: "k < length (nw_ss w) \<Longrightarrow> served w k (nw_ss w ! k) = w"
  by (cases w) (simp add: served_def)

lemma stream_answer:
  assumes "fs_read (ss_disk ss) (file_path ss f) = Some txt" and "NUL \<notin> set txt" and "int (length txt) < 2 ^ 31"
  obtains ms stop where "stream_file_ss ss f = ms @ [stop]" and "list_all data_message ms" and "m_type stop = MSG_STOP"
    and "wire stop = stop" and "filter visible (concat (map stream_token ms)) = filter visible txt"
proof -
  obtain ms final where run: "stream_sentences 0 (parse_file txt) (init_message\<lparr>m_type := MSG_DATA\<rparr>) = (ms, final)" by fastforce
  have start: "data_message (init_message\<lparr>m_type := MSG_DATA\<rparr>)"
    by (simp add: data_message_def wire_stable_def init_message_def message_ok_def bar_free_def int32_def buffer_ok_def)
  have "list_all data_message ms \<and> data_message final \<and>
      filter visible (concat (map stream_token ms)) = filter visible (concat (concat (parse_file txt)))"
  proof (rule stream_sentences_messages [OF _ start _ _ run])
    show "list_all (list_all (buffer_ok MAX_BUFFER)) (parse_file txt)"
      using parse_token_ok [OF assms(2)] by (simp add: list_all_iff)
    show "int 0 + int (length (parse_file txt)) \<le> 2 ^ 31" using parse_counts(1) [of "txt"] assms(3) by linarith
    show "int (length x) \<le> 2 ^ 31" if "x \<in> set (parse_file txt)" for x using parse_counts(2) [OF that] assms(3) by linarith
  qed
  moreover have "wire (final\<lparr>m_type := MSG_STOP, m_status := SUCCESS\<rparr>) = final\<lparr>m_type := MSG_STOP, m_status := SUCCESS\<rparr>"
    if "data_message final"
    using that by (intro wire_same) (simp add: data_message_def wire_stable_def message_ok_def bar_free_def int32_def)
  ultimately show thesis
    using that [of ms "final\<lparr>m_type := MSG_STOP, m_status := SUCCESS\<rparr>"] assms(1) run parse_visible [OF assms(2)]
    by (simp add: stream_file_ss_def)
qed

text \<open>The client prints every token and stops at the last message.\<close>

lemma stream_received:
  "nw_inbox w sock = ms @ [stop] \<Longrightarrow> list_all (\<lambda>m. m_type m = MSG_DATA) ms \<Longrightarrow> m_type stop = MSG_STOP \<Longrightarrow> world c = w \<Longrightarrow>
   stream_loop (server_net env kern addresses) sock buf c =
     Some (c\<lparr>printed := printed c @ concat (map stream_token ms), world := w\<lparr>nw_inbox := (nw_inbox w)(sock := [])\<rparr>\<rparr>)"
proof (induction ms arbitrary: c w buf)
  case Nil
  then show ?case by (simp add: stream_loop.simps recv_from_def server_net_def fun_upd_def)
next
  case (Cons m ms)
  define w1 where "w1 = w\<lparr>nw_inbox := (nw_inbox w)(sock := ms @ [stop])\<rparr>"
  have inbox: "nw_inbox w1 sock = ms @ [stop]" by (simp add: w1_def)
  have "recv_from (server_net env kern addresses) sock buf c = Some (c\<lparr>world := w1\<rparr>, 0, m)"
    using Cons.prems(1,4) by (simp add: recv_from_def server_net_def w1_def)
  then have "stream_loop (server_net env kern addresses) sock buf c =
      stream_loop (server_net env kern addresses) sock m (say (stream_token m) (c\<lparr>world := w1\<rparr>))"
    using Cons.prems(2) by (subst stream_loop.simps) simp
  also have "\<dots> = Some ((say (stream_token m) (c\<lparr>world := w1\<rparr>))\<lparr>printed := printed c @ stream_token m @ concat (map stream_token ms),
      world := w1\<lparr>nw_inbox := (nw_inbox w1)(sock := [])\<rparr>\<rparr>)"
    using Cons.IH [of w1 "say (stream_token m) (c\<lparr>world := w1\<rparr>)" m] Cons.prems(2,3) by (simp add: inbox say_def fun_upd_def)
  also have "w1\<lparr>nw_inbox := (nw_inbox w1)(sock := [])\<rparr> = w\<lparr>nw_inbox := (nw_inbox w)(sock := [])\<rparr>"
    by (simp add: w1_def fun_upd_def cong: if_cong)
  finally show ?case by (simp add: say_def fun_upd_def)
qed

lemma stream_shown:
  assumes "k < length (nw_ss (world c))" and "nw_inbox (world c) (4 + int k) = []"
    and "wire msg = msg" and "m_type msg = MSG_STREAM" and "m_filename msg = f"
    and "fs_read (ss_disk (nw_ss (world c) ! k)) (file_path (nw_ss (world c) ! k) f) = Some txt"
    and "NUL \<notin> set txt" and "int (length txt) < 2 ^ 31"
  shows "\<exists>c1 out. send_to (server_net env kern addresses) (4 + int k) msg c = (c1, 0) \<and>
    stream_loop (server_net env kern addresses) (4 + int k) buf c1 = Some (c\<lparr>printed := printed c @ out\<rparr>) \<and>
    filter visible out = filter visible txt"
proof -
  let ?net = "server_net env kern addresses" and ?s = "4 + int k" and ?ss = "nw_ss (world c) ! k"
  obtain ms stop where stream: "stream_file_ss ?ss f = ms @ [stop]" "list_all data_message ms" "m_type stop = MSG_STOP"
    "wire stop = stop" "filter visible (concat (map stream_token ms)) = filter visible txt"
    by (rule stream_answer [OF assms(6-8)])
  define first where "first = reply SUCCESS"
  have first: "m_type first \<noteq> MSG_DATA" "m_type first \<noteq> MSG_STOP" "wire first = first"
    using reply_wire [of SUCCESS] by (simp_all add: first_def reply_def init_message_def int32_def)
  define w1 where "w1 = (world c)\<lparr>nw_inbox := (nw_inbox (world c))(?s := first # ms @ [stop])\<rparr>"
  define w2 where "w2 = (world c)\<lparr>nw_inbox := (nw_inbox (world c))(?s := ms @ [stop])\<rparr>"
  have same: "map wire ms = ms" using stream(2) wire_same by (induction ms) (auto simp: data_message_def)
  have "handle_client_request kern ?ss msg = Some (?ss, first # ms @ [stop])"
    using stream(1) assms(4,5) by (simp add: handle_client_request_def first_def Let_def)
  then have sent: "send_to ?net ?s msg c = (c\<lparr>world := w1\<rparr>, 0)"
    using storage_send [OF assms(1,3)] assms(2) stream(4) same first(3)
    by (simp add: nothing_served [OF assms(1)] deliver_def w1_def)
  have "recv_from ?net ?s buf (c\<lparr>world := w1\<rparr>) = Some (c\<lparr>world := w2\<rparr>, 0, first)"
    by (simp add: recv_from_def server_net_def w1_def w2_def fun_upd_def cong: if_cong)
  then have "stream_loop ?net ?s buf (c\<lparr>world := w1\<rparr>) = stream_loop ?net ?s first (c\<lparr>world := w2\<rparr>)"
    using first(1,2) by (subst stream_loop.simps) simp
  also have "\<dots> = Some ((c\<lparr>world := w2\<rparr>)\<lparr>printed := printed (c\<lparr>world := w2\<rparr>) @ concat (map stream_token ms),
      world := w2\<lparr>nw_inbox := (nw_inbox w2)(?s := [])\<rparr>\<rparr>)"
    by (rule stream_received [of w2 ?s ms stop]) (use stream(2,3) in \<open>auto simp: w2_def data_message_def list_all_iff\<close>)
  also have "w2\<lparr>nw_inbox := (nw_inbox w2)(?s := [])\<rparr> = world c"
    using assms(2) by (cases "world c") (auto simp: w2_def fun_eq_iff)
  finally have "stream_loop ?net ?s buf (c\<lparr>world := w1\<rparr>) = Some (c\<lparr>printed := printed c @ concat (map stream_token ms)\<rparr>)" by simp
  then show ?thesis using sent stream(5) by blast
qed

section \<open>From the command to the screen\<close>

text \<open>
  The user of the client may read the file, which the name server has on the \<^verbatim>\<open>k\<close>th storage
  server that can be reached; no old message waits on the connection.
\<close>

definition reaches_file ::
  "storage_server list nm_env \<Rightarrow> (string \<times> int) list \<Rightarrow> network_world client \<Rightarrow> string \<Rightarrow> nat \<Rightarrow> bool" where
  "reaches_file env addresses c f k \<longleftrightarrow>
     (\<exists>srv nm2. sends_to env (nw_nm (world c)) f (username c) ACCESS_READ srv nm2 \<and> listens addresses srv k) \<and>
     k < length (nw_ss (world c)) \<and> nm_sock c = 3 \<and> nw_inbox (world c) 3 = [] \<and> wire_stable (nw_reply (world c)) \<and>
     name_ok MAX_USERNAME (username c) \<and> name_ok MAX_FILENAME f"

text \<open>The text of the file on that server\<close>

definition text_of :: "network_world client \<Rightarrow> string \<Rightarrow> nat \<Rightarrow> string option" where
  "text_of c f k = fs_read (ss_disk (nw_ss (world c) ! k)) (file_path (nw_ss (world c) ! k) f)"

lemma command_wire:
  assumes "reaches_file env addresses c f k" and "int32 t"
  shows "wire ((request c t)\<lparr>m_filename := f\<rparr>) = (request c t)\<lparr>m_filename := f\<rparr>"
  using assms
  by (auto intro!: wire_same simp: reaches_file_def wire_stable_def message_ok_def bar_free_def request_def init_message_def
      int32_def buffer_ok_def name_ok_def)

text \<open>The client after the name server has sent it on, still the same on screen\<close>

lemma sent_on:
  assumes "reaches_file env addresses c f k"
  obtains c1 resp where "ask_for_server (server_net env kern addresses) MSG_READ complaint f c = Some (c1, Some (4 + int k, resp))"
    and "nw_ss (world c1) = nw_ss (world c)" and "nw_inbox (world c1) (4 + int k) = []" and "printed c1 = printed c"
    and "request c1 = request c"
proof -
  obtain srv nm2 where srv: "sends_to env (nw_nm (world c)) f (username c) ACCESS_READ srv nm2" "listens addresses srv k"
    using assms by (auto simp: reaches_file_def)
  note ok = assms [unfolded reaches_file_def]
  have read: "redirect_for MSG_READ ACCESS_READ" "fits MAX_FILENAME f" using ok by (simp_all add: redirect_for_def fits_def name_ok_def)
  have wire: "wire ((request c MSG_READ)\<lparr>m_filename := f\<rparr>) = (request c MSG_READ)\<lparr>m_filename := f\<rparr>"
    by (rule command_wire [OF assms]) (simp add: int32_def)
  obtain resp where "ask_for_server (server_net env kern addresses) MSG_READ complaint f c =
      Some (c\<lparr>world := (world c)\<lparr>nw_nm := nm2, nw_reply := resp, nw_inbox := (nw_inbox (world c))(4 + int k := [])\<rparr>\<rparr>,
        Some (4 + int k, resp))"
    using ask_redirected [OF srv(1) read(1) srv(2) _ _ _ wire read(2)] ok by blast
  then show thesis by (rule that) (simp_all add: request_def fun_eq_iff)
qed

lemma read_command:
  assumes "reaches_file env addresses c f k"
    and "handle_client_request kern (nw_ss (world c) ! k) ((request c MSG_READ)\<lparr>m_filename := f\<rparr>) = Some (nw_ss (world c) ! k, [m])"
    and "wire m = m"
  obtains c1 where "handle_read_cl (server_net env kern addresses) f c =
      Some (if m_status m = SUCCESS then say (m_data m @ [NEWLINE]) c1 else print_error (m_status m) c1)"
    and "nw_ss (world c1) = nw_ss (world c)" and "printed c1 = printed c"
proof -
  let ?net = "server_net env kern addresses" and ?s = "4 + int k" and ?m = "(request c MSG_READ)\<lparr>m_filename := f\<rparr>"
  obtain c1 resp where ask: "ask_for_server ?net MSG_READ ''Error: Could not connect to storage server'' f c = Some (c1, Some (?s, resp))"
    "nw_ss (world c1) = nw_ss (world c)" "nw_inbox (world c1) ?s = []" "printed c1 = printed c"
    by (rule sent_on [OF assms(1)])
  have k: "k < length (nw_ss (world c1))" using assms(1) ask(2) by (simp add: reaches_file_def)
  have wire: "wire ?m = ?m" by (rule command_wire [OF assms(1)]) (simp add: int32_def)
  have "ask ?net ?s ?m resp c1 = Some (c1\<lparr>world := served (world c1) k (nw_ss (world c) ! k)\<rparr>, m)"
    by (rule storage_ask [OF k ask(3) wire assms(3)]) (simp add: ask(2) assms(2))
  moreover have "c1\<lparr>world := served (world c1) k (nw_ss (world c) ! k)\<rparr> = c1"
    using nothing_served [OF k] ask(2) by simp
  ultimately have "handle_read_cl ?net f c =
      Some (close_client_sock ?net ?s (if m_status m = SUCCESS then say (m_data m @ [NEWLINE]) c1 else print_error (m_status m) c1))"
    using ask(1) by (simp add: handle_read_cl_def server_command_def)
  also have "close_client_sock ?net ?s (if m_status m = SUCCESS then say (m_data m @ [NEWLINE]) c1 else print_error (m_status m) c1) =
      (let c2 = close_client_sock ?net ?s c1 in if m_status m = SUCCESS then say (m_data m @ [NEWLINE]) c2 else print_error (m_status m) c2)"
    by (simp add: close_client_sock_def say_def say_line_def print_error_def Let_def)
  finally show thesis
    using that [of "close_client_sock ?net ?s c1"] ask(2,4) by (simp add: Let_def close_client_sock_def server_net_def)
qed

text \<open>
  C4. \<^verbatim>\<open>STREAM\<close> shows what \<^verbatim>\<open>READ\<close> shows, and more of it: for a user with the right to read, both
  return, the one prints the first 8191 characters of the file, the other a text that has
  exactly the visible characters of the whole file in their order, and neither changes anything
  on the storage servers.
\<close>

theorem stream_shows_the_file:
  assumes "reaches_file env addresses c f k" and "text_of c f k = Some t" and "NUL \<notin> set t" and "int (length t) < 2 ^ 31"
  shows "\<exists>c1 c2 out.
    handle_read_cl (server_net env kern addresses) f c = Some c1 \<and>
    printed c1 = printed c @ take (MAX_BUFFER - 1) t @ [NEWLINE] \<and> nw_ss (world c1) = nw_ss (world c) \<and>
    handle_stream_cl (server_net env kern addresses) f c = Some c2 \<and>
    printed c2 = printed c @ out @ [NEWLINE] \<and> nw_ss (world c2) = nw_ss (world c) \<and>
    filter visible out = filter visible t"
proof -
  let ?net = "server_net env kern addresses" and ?s = "4 + int k" and ?ss = "nw_ss (world c) ! k"
  define m where "m = (reply SUCCESS)\<lparr>m_data := take (MAX_BUFFER - 1) t\<rparr>"
  have nul: "NUL \<notin> set (take (MAX_BUFFER - 1) t)" using assms(3) set_take_subset by fastforce
  have answer: "handle_client_request kern ?ss ((request c MSG_READ)\<lparr>m_filename := f\<rparr>) = Some (?ss, [m])"
    using assms(2) nul by (simp add: handle_client_request_def read_file_ss_def text_of_def m_def c_str_no_nul request_def)
  have wire: "wire m = m"
    using nul by (intro wire_same) (simp add: m_def wire_stable_def message_ok_def bar_free_def reply_def init_message_def int32_def buffer_ok_def)
  obtain c1 where "handle_read_cl ?net f c = Some (if m_status m = SUCCESS then say (m_data m @ [NEWLINE]) c1 else print_error (m_status m) c1)"
    "nw_ss (world c1) = nw_ss (world c)" "printed c1 = printed c"
    by (rule read_command [OF assms(1) answer wire])
  then have read: "\<exists>c1. handle_read_cl ?net f c = Some c1 \<and> printed c1 = printed c @ take (MAX_BUFFER - 1) t @ [NEWLINE] \<and>
      nw_ss (world c1) = nw_ss (world c)"
    by (simp add: m_def reply_def say_def)
  obtain c2 resp where ask: "ask_for_server ?net MSG_READ ''Failed to connect to storage server for streaming'' f c = Some (c2, Some (?s, resp))"
    "nw_ss (world c2) = nw_ss (world c)" "nw_inbox (world c2) ?s = []" "printed c2 = printed c" "request c2 = request c"
    by (rule sent_on [OF assms(1)])
  let ?m = "(request c MSG_STREAM)\<lparr>m_filename := f\<rparr>"
  have "k < length (nw_ss (world c2))" using assms(1) ask(2) by (simp add: reaches_file_def)
  moreover have "wire ?m = ?m" by (rule command_wire [OF assms(1)]) (simp add: int32_def)
  ultimately obtain c3 out where run: "send_to ?net ?s ?m c2 = (c3, 0)" "filter visible out = filter visible t"
    "stream_loop ?net ?s (leftover ?net) c3 = Some (c2\<lparr>printed := printed c2 @ out\<rparr>)"
    using stream_shown [of k c2 ?m f t env kern addresses "leftover ?net"] ask(2,3) assms(2-4)
    by (auto simp: text_of_def request_def)
  then have "handle_stream_cl ?net f c = Some (close_client_sock ?net ?s (say [NEWLINE] (c2\<lparr>printed := printed c2 @ out\<rparr>)))"
    using ask(1,5) by (simp add: handle_stream_cl_def)
  then show ?thesis using read run(2) ask(2,4) by (auto simp: close_client_sock_def server_net_def say_def)
qed

text \<open>The user a of the world above, who owns the file f.\<close>

lemma example_reaches:
  assumes "w = edit_world\<lparr>nw_ss := [ss]\<rparr>"
  shows "reaches_file net_env [(''h'', 9)] (logged_in ''a'' w) ''f'' 0"
proof -
  have "wire_stable init_message"
    by (simp add: wire_stable_def message_ok_def bar_free_def init_message_def int32_def buffer_ok_def)
  then show ?thesis
    using created_sends [of ACCESS_READ] created_listens
    by (auto simp: reaches_file_def assms edit_world_def logged_in_def name_ok_def)
qed

theorem stream_shows_the_file_witness:
  "\<exists>c1 c2 out.
    handle_read_cl (server_net net_env example_kernel [(''h'', 9)]) ''f'' (logged_in ''a'' edit_world) = Some c1 \<and>
    printed c1 = ''One. Two.'' @ [NEWLINE] \<and>
    handle_stream_cl (server_net net_env example_kernel [(''h'', 9)]) ''f'' (logged_in ''a'' edit_world) = Some c2 \<and>
    printed c2 = out @ [NEWLINE] \<and> filter visible out = ''One.Two.''"
proof -
  have path: "file_path text_server ''f'' = ''s/f''" by (simp add: file_path_def text_server_def server_with_def c_copy_def)
  have content: "text_of (logged_in ''a'' edit_world) ''f'' 0 = Some ''One. Two.''"
    by (simp add: text_of_def logged_in_def edit_world_def path) (simp add: text_server_def server_with_def fs_read_def)
  have "edit_world = edit_world\<lparr>nw_ss := [text_server]\<rparr>" by (simp add: edit_world_def)
  from stream_shows_the_file [OF example_reaches [OF this] content, of example_kernel] show ?thesis
    by (auto simp: logged_in_def visible_def is_space_char_def)
qed

text \<open>
  C22. Streaming a file that the storage server does not have never ends: it says that it will
  stream and then sends nothing, and the client waits; reading the same file reports the error.
\<close>

theorem missing_stream_never_ends:
  assumes "reaches_file env addresses c f k" and "text_of c f k = None"
  shows "handle_stream_cl (server_net env kern addresses) f c = None \<and>
    (\<exists>c1. handle_read_cl (server_net env kern addresses) f c = Some (print_error ERR_FILE_NOT_FOUND c1) \<and> printed c1 = printed c)"
proof -
  let ?net = "server_net env kern addresses" and ?s = "4 + int k" and ?ss = "nw_ss (world c) ! k"
  have answer: "handle_client_request kern ?ss ((request c MSG_READ)\<lparr>m_filename := f\<rparr>) = Some (?ss, [reply ERR_FILE_NOT_FOUND])"
    using assms(2) by (simp add: handle_client_request_def read_file_ss_def text_of_def request_def reply_def init_message_def)
  obtain c1 where "handle_read_cl ?net f c = Some (if m_status (reply ERR_FILE_NOT_FOUND) = SUCCESS
      then say (m_data (reply ERR_FILE_NOT_FOUND) @ [NEWLINE]) c1 else print_error (m_status (reply ERR_FILE_NOT_FOUND)) c1)"
    "nw_ss (world c1) = nw_ss (world c)" "printed c1 = printed c"
    by (rule read_command [OF assms(1) answer]) (simp add: reply_wire int32_def)
  then have read: "\<exists>c1. handle_read_cl ?net f c = Some (print_error ERR_FILE_NOT_FOUND c1) \<and> printed c1 = printed c"
    by (auto simp: reply_def)
  obtain c2 resp where ask: "ask_for_server ?net MSG_READ ''Failed to connect to storage server for streaming'' f c = Some (c2, Some (?s, resp))"
    "nw_ss (world c2) = nw_ss (world c)" "nw_inbox (world c2) ?s = []" "request c2 = request c"
    by (rule sent_on [OF assms(1)])
  let ?m = "(request c MSG_STREAM)\<lparr>m_filename := f\<rparr>"
  have k: "k < length (nw_ss (world c2))" using assms(1) ask(2) by (simp add: reaches_file_def)
  have m: "wire ?m = ?m" by (rule command_wire [OF assms(1)]) (simp add: int32_def)
  have "handle_client_request kern ?ss ?m = Some (?ss, [reply SUCCESS])"
    using assms(2) by (simp add: handle_client_request_def stream_file_ss_def text_of_def request_def)
  then have sent: "send_to ?net ?s ?m c2 = (c2\<lparr>world := deliver ?s [reply SUCCESS] (world c2)\<rparr>, 0)"
    using storage_send [OF k m] ask(2) nothing_served [OF k] by simp
  have got: "recv_from ?net ?s buf (c2\<lparr>world := deliver ?s [reply SUCCESS] (world c2)\<rparr>) = Some (c2, 0, reply SUCCESS)" for buf
    using delivered_recv [of "c2\<lparr>world := deliver ?s [reply SUCCESS] (world c2)\<rparr>" ?s "reply SUCCESS" "world c2"] ask(3)
      reply_wire [of SUCCESS] by (simp add: int32_def)
  have stop: "m_type (reply SUCCESS) \<noteq> MSG_STOP" "m_type (reply SUCCESS) \<noteq> MSG_DATA" by (simp_all add: reply_def init_message_def)
  have "recv_from ?net ?s (reply SUCCESS) c2 = None" using ask(3) by (simp add: recv_from_def server_net_def)
  then have "stream_loop ?net ?s (reply SUCCESS) c2 = None" by (subst stream_loop.simps) simp
  then have "stream_loop ?net ?s buf (c2\<lparr>world := deliver ?s [reply SUCCESS] (world c2)\<rparr>) = None" for buf
    using got [of buf] stop by (subst stream_loop.simps) simp
  then have "handle_stream_cl ?net f c = None" using ask(1,4) sent by (simp add: handle_stream_cl_def)
  then show ?thesis using read by blast
qed

theorem missing_stream_never_ends_witness:
  "handle_stream_cl (server_net net_env example_kernel [(''h'', 9)]) ''f''
     (logged_in ''a'' (edit_world\<lparr>nw_ss := [empty_storage]\<rparr>)) = None"
proof -
  have "text_of (logged_in ''a'' (edit_world\<lparr>nw_ss := [empty_storage]\<rparr>)) ''f'' 0 = None"
    by (simp add: text_of_def logged_in_def edit_world_def empty_storage_def server_with_def fs_read_def file_path_def c_copy_def)
  from missing_stream_never_ends [OF example_reaches [OF refl] this] show ?thesis by blast
qed

end
