(* ===== verification/Listeners.thy ===== *)
theory Listeners
  imports ServerThreads ClientLoop
begin

text \<open>
  The listeners: the three ports of the name server (\<^verbatim>\<open>nm.c\<close>) and the port a storage server
  opens for clients (\<^verbatim>\<open>ss.c\<close>). What the calls of the operating system return is an argument; the
  result of a listener is the port, the backlog, and the sockets it hands to threads of its own.
\<close>

section \<open>The accept loop\<close>

abbreviation NM_SS_PORT :: int where "NM_SS_PORT \<equiv> 8080"
abbreviation NM_CLIENT_PORT :: int where "NM_CLIENT_PORT \<equiv> 8081"

text \<open>
  A round is the flag \<^verbatim>\<open>running\<close> as the loop finds it and the result of \<^verbatim>\<open>accept\<close>; there are as many
  as the process lives to see.
\<close>

record listen_calls =
  lc_socket :: int
  lc_bind :: int
  lc_listen :: int
  lc_rounds :: "(bool \<times> int) list"

record listener =
  ln_port :: int
  ln_backlog :: nat
  ln_threads :: "int list"

fun accept_loop :: "(bool \<times> int) list \<Rightarrow> int list" where
  "accept_loop [] = []"
| "accept_loop ((running, sock) # rounds) =
     (if \<not> running then [] else if sock < 0 then accept_loop rounds else sock # accept_loop rounds)"

section \<open>The listeners\<close>

text \<open>The name server looks at no result but that of \<^verbatim>\<open>accept\<close>.\<close>

definition ss_hb_listener :: "listen_calls \<Rightarrow> listener" where
  "ss_hb_listener c = \<lparr>ln_port = NM_SS_HB_PORT, ln_backlog = MAX_SS, ln_threads = accept_loop (lc_rounds c)\<rparr>"

definition ss_listener :: "listen_calls \<Rightarrow> listener" where
  "ss_listener c = \<lparr>ln_port = NM_SS_PORT, ln_backlog = MAX_SS, ln_threads = accept_loop (lc_rounds c)\<rparr>"

definition nm_client_listener :: "listen_calls \<Rightarrow> listener" where
  "nm_client_listener c = \<lparr>ln_port = NM_CLIENT_PORT, ln_backlog = MAX_CLIENTS, ln_threads = accept_loop (lc_rounds c)\<rparr>"

text \<open>The storage server's thread ends with a complaint when it cannot listen; \<^verbatim>\<open>main\<close> does not notice.\<close>

definition ss_client_listener :: "int \<Rightarrow> listen_calls \<Rightarrow> string + listener" where
  "ss_client_listener client_port c =
     (if lc_socket c < 0 then Inl ''Client socket creation failed''
      else if lc_bind c < 0 then Inl ''Client socket bind failed''
      else if lc_listen c < 0 then Inl ''Client socket listen failed''
      else Inr \<lparr>ln_port = client_port, ln_backlog = MAX_CLIENTS, ln_threads = accept_loop (lc_rounds c)\<rparr>)"

section \<open>Lemmas\<close>

text \<open>Every connection that is accepted while the process runs gets one thread, in order.\<close>

lemma accept_loop_threads: "accept_loop rounds = filter (\<lambda>sock. 0 \<le> sock) (map snd (takeWhile fst rounds))"
  by (induction rounds rule: accept_loop.induct) auto

text \<open>
  The flag is tested before \<^verbatim>\<open>accept\<close>: a storage server that has lost its name server takes in the one
  connection its listener is waiting for, and no other.
\<close>

lemma one_more_connection:
  assumes "\<forall>r \<in> set later. \<not> fst r" and "0 \<le> sock"
  shows "accept_loop (rounds @ (True, sock) # later) = accept_loop rounds @ (if list_all fst rounds then [sock] else [])"
  using assms by (induction rounds rule: accept_loop.induct) (cases later, auto)

text \<open>The port a client must name is the one on which the name server waits for clients.\<close>

lemma client_finds_listener: "parse_arguments argv = Inr (ip, port) \<Longrightarrow> port = ln_port (nm_client_listener c)"
  by (auto simp: parse_arguments_def nm_client_listener_def Let_def split: if_splits)

text \<open>The second connection of a storage server goes to the listener for heartbeats.\<close>

lemma heartbeats_find_listener:
  "ss_connect_to_nm sockets listening ip port = None \<Longrightarrow> listening (ip, ln_port (ss_hb_listener c))"
  by (simp add: ss_connect_to_nm_def ss_hb_listener_def split: if_splits)

lemma name_ports_differ: "distinct [ln_port (ss_listener c), ln_port (ss_hb_listener c'), ln_port (nm_client_listener c'')]"
  by (simp add: ss_listener_def ss_hb_listener_def nm_client_listener_def)

text \<open>
  A storage server whose client port is taken: it has announced the port and all its files to the
  name server before it finds out, and goes on without a listener.
\<close>

lemma deaf_server_registers:
  assumes "start_storage_server fs k e ifaddrs sockets listening argv = Some (Inr (p, [msg]))" and "lc_bind c < 0"
  shows "proc_running p \<and> m_type msg = MSG_REG_SS \<and> (\<exists>complaint. ss_client_listener (m_client_port msg) c = Inl complaint)"
  using assms
  by (auto simp: start_storage_server_def scan_and_register_files_def ss_client_listener_def Let_def
      split: sum.splits option.splits prod.splits if_splits)

end
