(* ===== verification/Logger.thy ===== *)
theory Logger
  imports Messages
begin

text \<open>
  The log (\<^verbatim>\<open>logger.c\<close>, \<^verbatim>\<open>get_timestamp\<close> of \<^verbatim>\<open>common.c\<close>): each process appends to a file of its own and to
  the common file \<^verbatim>\<open>logs.txt\<close>, one line for each call. What \<^verbatim>\<open>localtime\<close> and \<^verbatim>\<open>fopen\<close> answer is an
  argument; a formatted message is the text after \<^verbatim>\<open>vsnprintf\<close> has put its arguments in.
\<close>

section \<open>Time stamps\<close>

record broken_time =
  tm_year :: int
  tm_mon :: int
  tm_mday :: int
  tm_hour :: int
  tm_min :: int
  tm_sec :: int

text \<open>What \<^verbatim>\<open>localtime\<close> promises of its fields\<close>

definition time_ok :: "broken_time \<Rightarrow> bool" where
  "time_ok tm \<longleftrightarrow> - (2 ^ 31) \<le> tm_year tm + 1900 \<and> tm_year tm + 1900 < 2 ^ 31 \<and> 0 \<le> tm_mon tm \<and> tm_mon tm \<le> 11 \<and>
     1 \<le> tm_mday tm \<and> tm_mday tm \<le> 31 \<and> 0 \<le> tm_hour tm \<and> tm_hour tm \<le> 23 \<and>
     0 \<le> tm_min tm \<and> tm_min tm \<le> 59 \<and> 0 \<le> tm_sec tm \<and> tm_sec tm \<le> 60"

definition two_digits :: "int \<Rightarrow> string" where
  "two_digits n = (if n < 10 then CHR ''0'' # show_int n else show_int n)"

text \<open>The format \<^verbatim>\<open>%Y-%m-%d %H:%M:%S\<close> of \<^verbatim>\<open>strftime\<close>, into 64 bytes\<close>

definition get_timestamp :: "broken_time \<Rightarrow> string" where
  "get_timestamp tm = c_copy 64
     (show_int (tm_year tm + 1900) @ ''-'' @ two_digits (tm_mon tm + 1) @ ''-'' @ two_digits (tm_mday tm) @ '' '' @
      two_digits (tm_hour tm) @ '':'' @ two_digits (tm_min tm) @ '':'' @ two_digits (tm_sec tm))"

section \<open>The state of the logger\<close>

datatype log_level = LOG_INFO | LOG_WARNING | LOG_ERROR | LOG_DEBUG | LOG_REQUEST | LOG_RESPONSE

fun log_level_str :: "log_level \<Rightarrow> string" where
  "log_level_str LOG_INFO = ''INFO''"
| "log_level_str LOG_WARNING = ''WARN''"
| "log_level_str LOG_ERROR = ''ERROR''"
| "log_level_str LOG_DEBUG = ''DEBUG''"
| "log_level_str LOG_REQUEST = ''REQ''"
| "log_level_str LOG_RESPONSE = ''RESP''"

text \<open>
  The name of the file behind \<^verbatim>\<open>log_file\<close>, whether \<^verbatim>\<open>common_log\<close> is open, and what is on the disk
  and on the terminal.
\<close>

record logger =
  log_file :: "string option"
  common_log :: bool
  instance_name :: string
  log_disk :: "string \<Rightarrow> string option"
  terminal :: string

definition common_name :: string where
  "common_name = ''logs.txt''"

text \<open>\<^verbatim>\<open>fopen(name, "a")\<close> makes the file; a handle whose file is gone writes to nobody's eyes.\<close>

definition open_append :: "(string \<Rightarrow> bool) \<Rightarrow> string \<Rightarrow> logger \<Rightarrow> logger option" where
  "open_append can_open name l =
     (if can_open name
      then Some (l\<lparr>log_disk := (log_disk l)(name := (case log_disk l name of None \<Rightarrow> Some [] | Some s \<Rightarrow> Some s))\<rparr>)
      else None)"

definition append_to :: "string \<Rightarrow> string \<Rightarrow> logger \<Rightarrow> logger" where
  "append_to name s l = l\<lparr>log_disk := (log_disk l)(name := map_option (\<lambda>c. c @ s) (log_disk l name))\<rparr>"

definition to_log_file :: "string \<Rightarrow> logger \<Rightarrow> logger" where
  "to_log_file s l = (case log_file l of None \<Rightarrow> l | Some name \<Rightarrow> append_to name s l)"

definition to_common_log :: "string \<Rightarrow> logger \<Rightarrow> logger" where
  "to_common_log s l = (if common_log l then append_to common_name s l else l)"

section \<open>Operations\<close>

definition init_logger :: "(string \<Rightarrow> bool) \<Rightarrow> broken_time \<Rightarrow> string \<Rightarrow> logger \<Rightarrow> logger \<times> int" where
  "init_logger can_open tm log_filename l =
     (case open_append can_open log_filename l of
        None \<Rightarrow> (l\<lparr>log_file := None\<rparr>, - 1)
      | Some l1 \<Rightarrow>
          (case open_append can_open common_name l1 of
             None \<Rightarrow> (l1\<lparr>log_file := None, common_log := False\<rparr>, - 1)
           | Some l2 \<Rightarrow>
               let l3 = l2\<lparr>log_file := Some log_filename, common_log := True\<rparr>;
                   l4 = to_log_file (NEWLINE # ''=== Log Started at '' @ get_timestamp tm @ '' ==='' @ [NEWLINE]) l3
               in (to_common_log (NEWLINE # ''=== '' @ instance_name l4 @ '' Log Started at '' @ get_timestamp tm @ '' ==='' @ [NEWLINE]) l4, 0)))"

definition set_instance_name :: "string \<Rightarrow> logger \<Rightarrow> logger" where
  "set_instance_name name l = l\<lparr>instance_name := c_copy 64 name\<rparr>"

definition close_logger :: "broken_time \<Rightarrow> logger \<Rightarrow> logger" where
  "close_logger tm l =
     (let l1 = (to_log_file (''=== Log Closed at '' @ get_timestamp tm @ '' ==='' @ [NEWLINE, NEWLINE]) l)\<lparr>log_file := None\<rparr>
      in (to_common_log (''=== '' @ instance_name l1 @ '' Log Closed at '' @ get_timestamp tm @ '' ==='' @ [NEWLINE, NEWLINE]) l1)\<lparr>common_log := False\<rparr>)"

text \<open>The end of both logging functions: the entry goes to every open file.\<close>

definition put_entry :: "string \<Rightarrow> logger \<Rightarrow> logger" where
  "put_entry log_entry l = to_common_log (log_entry @ [NEWLINE]) (to_log_file (log_entry @ [NEWLINE]) l)"

definition bracket :: "string \<Rightarrow> string" where
  "bracket s = ''['' @ s @ '']''"

definition log_message ::
  "broken_time \<Rightarrow> log_level \<Rightarrow> string option \<Rightarrow> int \<Rightarrow> string option \<Rightarrow> string option \<Rightarrow> string option \<Rightarrow> string option \<Rightarrow>
   logger \<Rightarrow> logger" where
  "log_message tm level ip port username operation status details l =
     (let or_na = case_option ''N/A'' (\<lambda>s. s) in
      put_entry (c_copy (MAX_BUFFER * 2)
        (bracket (get_timestamp tm) @ '' '' @ bracket (instance_name l) @ '' '' @ bracket (log_level_str level) @ '' '' @
         bracket (or_na ip @ '':'' @ show_int port) @ '' '' @ bracket (''User: '' @ or_na username) @ '' '' @
         bracket (''Op: '' @ or_na operation) @ '' '' @ bracket (''Status: '' @ or_na status) @ '' '' @
         case_option [] (\<lambda>s. s) details)) l)"

definition log_formatted :: "broken_time \<Rightarrow> log_level \<Rightarrow> string \<Rightarrow> logger \<Rightarrow> logger" where
  "log_formatted tm level formatted l =
     (let message = c_copy MAX_BUFFER formatted in
      put_entry (c_copy (MAX_BUFFER * 2)
        (bracket (get_timestamp tm) @ '' '' @ bracket (instance_name l) @ '' '' @ bracket (log_level_str level) @ '' '' @ message)) l)"

definition display_and_log :: "broken_time \<Rightarrow> string \<Rightarrow> logger \<Rightarrow> logger" where
  "display_and_log tm message l =
     (let formatted_msg = c_copy (MAX_BUFFER * 2) (bracket (instance_name l) @ '' '' @ message)
      in log_formatted tm LOG_INFO message (l\<lparr>terminal := terminal l @ formatted_msg @ [NEWLINE]\<rparr>))"

section \<open>Reachable states\<close>

text \<open>Any calls in any order, while other processes write to the same disk.\<close>

inductive logger_reachable :: "logger \<Rightarrow> bool" where
  start: "logger_reachable \<lparr>log_file = None, common_log = False, instance_name = ''UNKNOWN'', log_disk = d, terminal = []\<rparr>"
| named: "logger_reachable l \<Longrightarrow> logger_reachable (set_instance_name name l)"
| init: "logger_reachable l \<Longrightarrow> logger_reachable (fst (init_logger can_open tm name l))"
| closed: "logger_reachable l \<Longrightarrow> logger_reachable (close_logger tm l)"
| message: "logger_reachable l \<Longrightarrow> logger_reachable (log_message tm level ip port u op st details l)"
| formatted: "logger_reachable l \<Longrightarrow> logger_reachable (log_formatted tm level s l)"
| display: "logger_reachable l \<Longrightarrow> logger_reachable (display_and_log tm s l)"
| elsewhere: "logger_reachable l \<Longrightarrow> logger_reachable (l\<lparr>log_disk := d\<rparr>)"

text \<open>An own log is only open together with the common one; the name fits its buffer.\<close>

definition logger_ok :: "logger \<Rightarrow> bool" where
  "logger_ok l \<longleftrightarrow> (log_file l \<noteq> None \<longrightarrow> common_log l) \<and> length (instance_name l) < 64"

lemma append_fields [simp]:
  "log_file (append_to f s l) = log_file l" "common_log (append_to f s l) = common_log l"
  "instance_name (append_to f s l) = instance_name l" "terminal (append_to f s l) = terminal l"
  by (simp_all add: append_to_def)

lemma to_files_fields [simp]:
  "log_file (to_log_file s l) = log_file l" "common_log (to_log_file s l) = common_log l"
  "instance_name (to_log_file s l) = instance_name l" "terminal (to_log_file s l) = terminal l"
  "log_file (to_common_log s l) = log_file l" "common_log (to_common_log s l) = common_log l"
  "instance_name (to_common_log s l) = instance_name l" "terminal (to_common_log s l) = terminal l"
  by (simp_all add: to_log_file_def to_common_log_def split: option.splits)

lemma put_entry_ok: "logger_ok (put_entry s l) = logger_ok l"
  by (simp add: put_entry_def logger_ok_def)

lemma open_append_fields:
  "open_append can_open f l = Some l' \<Longrightarrow>
   log_file l' = log_file l \<and> common_log l' = common_log l \<and> instance_name l' = instance_name l"
  by (auto simp: open_append_def split: if_splits)

lemma reachable_logger_ok: "logger_reachable l \<Longrightarrow> logger_ok l"
proof (induction rule: logger_reachable.induct)
  case (init l can_open tm name)
  then show ?case
    by (auto simp: logger_ok_def init_logger_def Let_def dest!: open_append_fields split: option.splits)
next
  case (named l name)
  then show ?case using c_copy_length [of 64 name] by (simp add: logger_ok_def set_instance_name_def)
qed (simp_all add: logger_ok_def close_logger_def log_message_def log_formatted_def display_and_log_def Let_def
    put_entry_def)

section \<open>Properties\<close>

lemma two_digits_length:
  assumes "0 \<le> n" and "n < 100"
  shows "length (two_digits n) \<le> 3"
proof -
  have "length (show_nat (nat n)) \<le> 2" by (rule show_nat_length) (use assms in simp_all)
  then show ?thesis using assms by (simp add: two_digits_def show_int_def)
qed

lemma get_timestamp_fits:
  assumes "time_ok tm"
  shows "get_timestamp tm =
    show_int (tm_year tm + 1900) @ ''-'' @ two_digits (tm_mon tm + 1) @ ''-'' @ two_digits (tm_mday tm) @ '' '' @
      two_digits (tm_hour tm) @ '':'' @ two_digits (tm_min tm) @ '':'' @ two_digits (tm_sec tm)"
    and "length (get_timestamp tm) \<le> 31"
proof -
  have "length (show_int (tm_year tm + 1900)) \<le> 11" using assms by (intro show_int_length) (simp_all add: time_ok_def)
  moreover have "length (two_digits (tm_mon tm + 1)) \<le> 3" "length (two_digits (tm_mday tm)) \<le> 3" "length (two_digits (tm_hour tm)) \<le> 3"
    "length (two_digits (tm_min tm)) \<le> 3" "length (two_digits (tm_sec tm)) \<le> 3"
    using assms by (auto intro!: two_digits_length simp: time_ok_def)
  ultimately have len: "length (show_int (tm_year tm + 1900) @ ''-'' @ two_digits (tm_mon tm + 1) @ ''-'' @ two_digits (tm_mday tm) @ '' '' @
      two_digits (tm_hour tm) @ '':'' @ two_digits (tm_min tm) @ '':'' @ two_digits (tm_sec tm)) \<le> 31"
    by simp
  then show "get_timestamp tm =
    show_int (tm_year tm + 1900) @ ''-'' @ two_digits (tm_mon tm + 1) @ ''-'' @ two_digits (tm_mday tm) @ '' '' @
      two_digits (tm_hour tm) @ '':'' @ two_digits (tm_min tm) @ '':'' @ two_digits (tm_sec tm)"
    unfolding get_timestamp_def by (intro c_copy_fits) simp
  with len show "length (get_timestamp tm) \<le> 31" by simp
qed

definition log_line :: "broken_time \<Rightarrow> string \<Rightarrow> log_level \<Rightarrow> string \<Rightarrow> string" where
  "log_line tm name level text =
     bracket (get_timestamp tm) @ '' '' @ bracket name @ '' '' @ bracket (log_level_str level) @ '' '' @ take 8191 text"

lemma put_entry_disk:
  assumes "log_file l = Some f" and "common_log l" and "f \<noteq> common_name"
  shows "log_disk (put_entry s l) = (\<lambda>p. if p = f \<or> p = common_name then map_option (\<lambda>c. c @ s @ [NEWLINE]) (log_disk l p) else log_disk l p)"
  using assms by (auto simp: put_entry_def to_common_log_def to_log_file_def append_to_def fun_eq_iff)

text \<open>
  C40. An entry of the log is whole: once a log is open, a formatted message is appended to the
  own file and to the common file, and nowhere else, as one line with time, name, level and
  the first 8191 characters of the message; the second buffer never cuts anything off.
\<close>

theorem log_entries_are_whole:
  assumes "logger_reachable l" and "log_file l = Some f" and "f \<noteq> common_name" and "time_ok tm"
  shows "log_disk (log_formatted tm level s l) =
    (\<lambda>p. if p = f \<or> p = common_name
         then map_option (\<lambda>c. c @ log_line tm (instance_name l) level s @ [NEWLINE]) (log_disk l p) else log_disk l p)"
proof -
  have ok: "common_log l" "length (instance_name l) < 64" using reachable_logger_ok [OF assms(1)] assms(2) by (auto simp: logger_ok_def)
  let ?entry = "bracket (get_timestamp tm) @ '' '' @ bracket (instance_name l) @ '' '' @ bracket (log_level_str level) @ '' '' @ c_copy MAX_BUFFER s"
  have "length (log_level_str level) \<le> 5" by (cases level) simp_all
  then have "length ?entry < MAX_BUFFER * 2"
    using get_timestamp_fits(2) [OF assms(4)] ok(2) c_copy_length [of MAX_BUFFER s] by (simp add: bracket_def)
  then have "log_formatted tm level s l = put_entry ?entry l"
    unfolding log_formatted_def Let_def by (subst c_copy_fits) simp_all
  moreover have "?entry = log_line tm (instance_name l) level s" by (simp add: log_line_def c_copy_def)
  ultimately show ?thesis using put_entry_disk [OF assms(2) ok(1) assms(3)] by simp
qed

definition new_year :: broken_time where
  "new_year = \<lparr>tm_year = 126, tm_mon = 0, tm_mday = 1, tm_hour = 0, tm_min = 0, tm_sec = 5\<rparr>"

definition example_log :: logger where
  "example_log = fst (init_logger (\<lambda>f. True) new_year ''nm.log'' (set_instance_name ''NM''
     \<lparr>log_file = None, common_log = False, instance_name = ''UNKNOWN'', log_disk = Map.empty, terminal = []\<rparr>))"

theorem log_entries_are_whole_witness:
  "\<exists>c. log_disk example_log ''logs.txt'' = Some c \<and>
     log_disk (log_formatted new_year LOG_INFO ''ready'' example_log) ''logs.txt'' =
       Some (c @ ''[2026-01-01 00:00:05] [NM] [INFO] ready'' @ [NEWLINE])"
proof -
  have reach: "logger_reachable example_log"
    unfolding example_log_def by (intro logger_reachable.init logger_reachable.named logger_reachable.start)
  have "log_file example_log = Some ''nm.log'' \<and> instance_name example_log = ''NM'' \<and> (\<exists>c. log_disk example_log ''logs.txt'' = Some c)"
    by (simp add: example_log_def init_logger_def open_append_def Let_def set_instance_name_def common_name_def c_copy_def
        to_common_log_def to_log_file_def append_to_def)
  moreover have "get_timestamp new_year = ''2026-01-01 00:00:05''" by code_simp
  moreover have "time_ok new_year" by (simp add: time_ok_def new_year_def)
  ultimately show ?thesis
    using log_entries_are_whole [OF reach, of "''nm.log''" new_year LOG_INFO "''ready''"]
    by (auto simp: common_name_def log_line_def bracket_def)
qed

end
