(* ===== verification/Spec2Isabelle.thy ===== *)
theory Spec2Isabelle
  imports Prelude TrieMap LruCache Transport System ClientEdit ConcurrentEdits QueueMerge ThreadFaults ServerStart StreamRead Listeners Logger
begin

text \<open>
  The network file share is three programs. The name server (\<^verbatim>\<open>nm.c\<close>, with \<^verbatim>\<open>trie.c\<close> and
  \<^verbatim>\<open>cache.c\<close>) knows the users, the storage servers, and for each file its owner, its access list
  and its server. A storage server (\<^verbatim>\<open>ss.c\<close>, with \<^verbatim>\<open>file_ops.c\<close>) keeps the files, their undo copies
  and checkpoints, and lets users edit single sentences under locks. The client (\<^verbatim>\<open>client.c\<close>) reads
  commands, sends most of them to the name server, and reads, streams, edits and undoes at the
  storage server that the name server sends it on to. All of them exchange the message of \<^verbatim>\<open>common.h\<close> in the
  text format of \<^verbatim>\<open>common.c\<close> and write a log (\<^verbatim>\<open>logger.c\<close>).

  \<^bold>\<open>Theories and code.\<close> Definitions have the names of the C functions and stand in their order;
  structs are records, with a prefix for each.

  \<^item> \<^verbatim>\<open>Prelude\<close>: C strings, buffers, limits and status codes of \<^verbatim>\<open>common.h\<close>, lemmas on lists.
  \<^item> \<^verbatim>\<open>Messages\<close>, \<^verbatim>\<open>Transport\<close>: the message, \<^verbatim>\<open>serialize_message\<close>, \<^verbatim>\<open>deserialize_message\<close>, and
    \<^verbatim>\<open>send_message\<close>, \<^verbatim>\<open>recv_message\<close> over any script of results of the kernel. \<^verbatim>\<open>Logger\<close>: \<^verbatim>\<open>logger.c\<close>.
  \<^item> \<^verbatim>\<open>MetadataMap\<close>, \<^verbatim>\<open>TrieMap\<close>: the tries of \<^verbatim>\<open>trie.c\<close>, and the locale of partial maps through
    which the name server uses them. \<^verbatim>\<open>LruList\<close>, \<^verbatim>\<open>LruCache\<close>: the recency list and the hash
    table of \<^verbatim>\<open>cache.c\<close> on a store of nodes.
  \<^item> \<^verbatim>\<open>NameState\<close>, \<^verbatim>\<open>NameRequests\<close>: the record \<^verbatim>\<open>name_server\<close> for the global \<^verbatim>\<open>nm\<close>, and every
    handler of a request as a step on it and on the world behind the sockets to the storage servers.
    \<^verbatim>\<open>NameSafety\<close>, \<^verbatim>\<open>NameProps\<close>, \<^verbatim>\<open>NameRaces\<close>: what these steps keep, promise, and do to each other.
    \<^verbatim>\<open>NameThreads\<close>, \<^verbatim>\<open>ThreadFaults\<close>: its threads as events in any order.
  \<^item> \<^verbatim>\<open>TextParse\<close>, \<^verbatim>\<open>TextInsert\<close>, \<^verbatim>\<open>TextSentences\<close>, \<^verbatim>\<open>TextCut\<close>, \<^verbatim>\<open>FileStore\<close>: \<^verbatim>\<open>file_ops.c\<close>, on byte
    lists and on a map from paths to bytes; \<^verbatim>\<open>TextCut\<close> shows where a written file is cut again.
  \<^item> \<^verbatim>\<open>SentenceLocks\<close>, \<^verbatim>\<open>CommitQueue\<close>, \<^verbatim>\<open>StorageServer\<close>: the lock table, the write sessions with
    their commit queues, and the two request loops of \<^verbatim>\<open>ss.c\<close>, on the record \<^verbatim>\<open>storage_server\<close> for
    the global \<^verbatim>\<open>ss\<close>. \<^verbatim>\<open>ServerSafety\<close>, \<^verbatim>\<open>SessionRestart\<close>, \<^verbatim>\<open>EditCycle\<close>: invariants of the
    sessions and whole sessions. \<^verbatim>\<open>QueueMerge\<close>: the commit queue against a merge without a disk.
    \<^verbatim>\<open>ConcurrentEdits\<close>: sessions of many users on one file. \<^verbatim>\<open>ServerThreads\<close>: \<^verbatim>\<open>main\<close> and the threads to the
    name server. \<^verbatim>\<open>Listeners\<close>: the ports of both servers and the connections that get a thread.
  \<^item> \<^verbatim>\<open>ClientText\<close>, \<^verbatim>\<open>ClientState\<close>, \<^verbatim>\<open>ClientRequests\<close>, \<^verbatim>\<open>ClientSession\<close>, \<^verbatim>\<open>ClientLoop\<close>: words of
    a line, calls on sockets, one definition per command, the write session with its
    reconnections, the command loop. \<^verbatim>\<open>ClientSafety\<close>, \<^verbatim>\<open>ClientProps\<close>, \<^verbatim>\<open>ClientReconnect\<close>: what it sends and tells.
  \<^item> \<^verbatim>\<open>System\<close>, \<^verbatim>\<open>ClientSystem\<close>, \<^verbatim>\<open>ServerStart\<close>, \<^verbatim>\<open>ClientEdit\<close>, \<^verbatim>\<open>StreamRead\<close>: the programs joined
    by the wire format, from a server that starts to a user who edits, reads and streams.

  \<^bold>\<open>What the lemmas show.\<close> The tries and the cache refine partial maps and an abstract recency
  list; parsing, writing, insertion, undo, checkpoints, messages and transport are round trips or have
  exact specifications. On the name server a relation between file maps says what a request of a user
  may change; every handler implements it, and the invariant of the reachable states and the
  protection of the files of others follow by rule induction. The threads are events of one \<^verbatim>\<open>recv_message\<close> each, so
  an interleaving inside a request is not a run of them; the races there are separate theorems on the parts
  of the requests (\<^verbatim>\<open>NameRaces\<close>, \<^verbatim>\<open>ThreadFaults\<close>). On a storage server each open session holds the lock of its sentence in every reachable
  state, so editing is exclusive and private until the commit; and
  of words written in front of the ends of different sentences at the same time none is lost, in any order of the requests;
  behind the final delimiter of a sentence that is not the last they are lost, with the answers of a success. The commit queue computes
  the fold of the merge over the private copies. A client sends only requests
  of its own user, each to a server that implements it, and holds no session between commands. Composed, the programs
  keep a user away from the files and the sessions of others whatever is typed, an edit typed at a client is on the
  disk, reading and streaming show the same text, and a server that starts is in service with those files whose names the list can carry until its heartbeats stop. Theorems of the
  kind error say exactly when the code does not do what it means to.

  \<^bold>\<open>Interfaces.\<close> Each locale names the operations a client of it calls and their laws, and is
  interpreted on the definitions of the code: \<^verbatim>\<open>name_map\<close>, \<^verbatim>\<open>metadata_map\<close> (tries), the recency list,
  the lock table, the file store, \<^verbatim>\<open>session_register\<close> (logins), \<^verbatim>\<open>client_calls\<close>, \<^verbatim>\<open>session_calls\<close> (predicates that
  the client keeps), \<^verbatim>\<open>fresh_sockets\<close>, \<^verbatim>\<open>served_world\<close> (what the client needs
  of the world behind its sockets) and \<^verbatim>\<open>exchanged_world\<close> (what the name server needs of it).

  \<^bold>\<open>Bounds, fuel, \<close>\<^const>\<open>None\<close>\<^bold>\<open>.\<close> A request, a critical section or one call of \<^verbatim>\<open>recv_message\<close> is one step; numbers that
  only count are unbounded, those that are sent are checked against 32 bits. A field too long for its
  buffer, where the code checks nothing, is \<^const>\<open>None\<close>, and so is a loop that never ends: the probing of
  the cache is a \<^verbatim>\<open>while_option\<close>, the waiting of the client a \<^verbatim>\<open>partial_function\<close>. A theorem that promises a
  result proves that it is returned; invariants speak of every run that returns. Five attempts of a write are the fuel of the C code itself. \<^verbatim>\<open>malloc\<close> and \<^verbatim>\<open>pthread_create\<close> succeed.

  \<^bold>\<open>Arguments of the model.\<close> The clock, time stamps and \<^verbatim>\<open>stat\<close> times, directory listings, the shell behind \<^verbatim>\<open>EXEC\<close>, the
  results of \<^verbatim>\<open>send\<close>, \<^verbatim>\<open>recv\<close>, \<^verbatim>\<open>accept\<close>, \<^verbatim>\<open>bind\<close>, \<^verbatim>\<open>connect\<close>, \<^verbatim>\<open>fopen\<close> and \<^verbatim>\<open>getifaddrs\<close>, the contents of uninitialised locals.

  \<^bold>\<open>Not modelled.\<close> Socket options and time-outs, and the joining of threads:
  calls of the operating system with no decision of the program between them. The \<^verbatim>\<open>free_\<close> functions,
  which release memory before the process ends or drop a private copy. The set-up of signals and of the pipe in
  the client: an interrupt is one of its inputs. The calls of the log inside the handlers, which no other component reads.
\<close>

end
